(* ===== verification/Frameleaf_Prelude.thy ===== *)
theory Frameleaf_Prelude
  imports Complex_Main
begin

text \<open>
  Shared vocabulary of the development.

  \<^item> Results: a TypeScript function that may throw is a function into \<open>'e + 'a\<close>, \<open>Inl\<close> for the
    thrown error. \<open>bindR\<close> sequences two of them, as a throw leaves the rest of a body unexecuted.
  \<^item> Numbers: a JavaScript number that holds an integer is an \<open>int\<close>; \<open>isSafeInteger\<close> is
    \<open>Number.isSafeInteger\<close>. Values read back from JSON are of type \<open>json\<close>, whose numbers are
    exact rationals (every finite double is one).
  \<^item> Text: a JavaScript string is a \<open>string\<close> whose characters are its code units below 256.
    Decimal printing and reading of integers, \<open>trim\<close>, and the list helpers the sources use.
  \<^item> Interfaces: the locale \<open>codec\<close> (an encoder with a decoder that inverts it) and the locale
    \<open>absorbing_graph\<close> (a transition table whose terminal states have no successor).
\<close>

named_theorems res_simps \<open>unfolding and inversion rules for results\<close>
named_theorems model_defs \<open>definitions a component's proofs unfold together\<close>
named_theorems keeps \<open>preservation lemmas: what an operation keeps of an invariant\<close>

type_synonym ('e, 'a) res = "'e + 'a"

definition bindR :: "'e + 'a \<Rightarrow> ('a \<Rightarrow> 'e + 'b) \<Rightarrow> 'e + 'b" where
  "bindR m f = (case m of Inl e \<Rightarrow> Inl e | Inr a \<Rightarrow> f a)"

definition mapR :: "('a \<Rightarrow> 'b) \<Rightarrow> 'e + 'a \<Rightarrow> 'e + 'b" where
  "mapR f m = (case m of Inl e \<Rightarrow> Inl e | Inr a \<Rightarrow> Inr (f a))"

definition okR :: "'e + 'a \<Rightarrow> bool" where
  "okR m = (case m of Inl _ \<Rightarrow> False | Inr _ \<Rightarrow> True)"

fun traverseR :: "('a \<Rightarrow> 'e + 'b) \<Rightarrow> 'a list \<Rightarrow> 'e + 'b list" where
  "traverseR f [] = Inr []"
| "traverseR f (x # xs) = bindR (f x) (\<lambda>y. mapR (\<lambda>ys. y # ys) (traverseR f xs))"

definition MAX_SAFE_INTEGER :: int where
  "MAX_SAFE_INTEGER = 2 ^ 53 - 1"

definition isSafeInteger :: "int \<Rightarrow> bool" where
  "isSafeInteger n \<longleftrightarrow> \<bar>n\<bar> \<le> 9007199254740991"

text \<open>JavaScript's remainder takes the sign of the dividend.\<close>

definition js_rem :: "int \<Rightarrow> int \<Rightarrow> int" where
  "js_rem a b = sgn a * (\<bar>a\<bar> mod \<bar>b\<bar>)"

datatype json =
    JUndefined
  | JNull
  | JBool bool
  | JNum rat
  | JStr string
  | JArr "json list"
  | JObj "(string \<times> json) list"

text \<open>The property read \<open>value.key\<close>: \<open>undefined\<close> where an object lacks the key.\<close>

fun jget :: "json \<Rightarrow> string \<Rightarrow> json" where
  "jget (JObj kvs) k = (case map_of kvs k of None \<Rightarrow> JUndefined | Some v \<Rightarrow> v)"
| "jget _ k = JUndefined"

text \<open>JavaScript truthiness, \<open>Object.values\<close> and \<open>String.prototype.startsWith\<close>.\<close>

fun truthy :: "json \<Rightarrow> bool" where
  "truthy JUndefined = False"
| "truthy JNull = False"
| "truthy (JBool b) = b"
| "truthy (JNum q) = (q \<noteq> 0)"
| "truthy (JStr t) = (t \<noteq> [])"
| "truthy (JArr _) = True"
| "truthy (JObj _) = True"

fun objectValues :: "json \<Rightarrow> json list" where
  "objectValues (JObj kvs) = map snd kvs"
| "objectValues _ = []"

definition startsWith :: "string \<Rightarrow> string \<Rightarrow> bool" where
  "startsWith s p = (take (length p) s = p)"

text \<open>The integer a JSON number holds when \<open>Number.isSafeInteger\<close> accepts it.\<close>

fun jsafe_int :: "json \<Rightarrow> int option" where
  "jsafe_int (JNum q) =
     (if of_int \<lfloor>q\<rfloor> = q \<and> isSafeInteger \<lfloor>q\<rfloor> then Some \<lfloor>q\<rfloor> else None)"
| "jsafe_int _ = None"

text \<open>\<open>Array.prototype.find\<close>, and the order-keeping duplicate removal of \<open>[...new Set(xs)]\<close>.\<close>

fun find_first :: "('a \<Rightarrow> bool) \<Rightarrow> 'a list \<Rightarrow> 'a option" where
  "find_first P [] = None"
| "find_first P (x # xs) = (if P x then Some x else find_first P xs)"

fun uniq_from :: "'a list \<Rightarrow> 'a list \<Rightarrow> 'a list" where
  "uniq_from seen [] = []"
| "uniq_from seen (x # xs) =
     (if x \<in> set seen then uniq_from seen xs else x # uniq_from (x # seen) xs)"

definition uniq :: "'a list \<Rightarrow> 'a list" where
  "uniq xs = uniq_from [] xs"

text \<open>The loop \<open>for (start = 0; start < xs.length; start += n) xs.slice(start, start + n)\<close>.\<close>

function slices :: "nat \<Rightarrow> 'a list \<Rightarrow> 'a list list" where
  "slices n xs = (if xs = [] \<or> n = 0 then [] else take n xs # slices n (drop n xs))"
  by auto
termination by (relation "measure (\<lambda>(n, xs). length xs)") auto

declare slices.simps [simp del]

text \<open>The first reason of a list of guards whose condition holds: an early-return chain.\<close>

fun first_refusal :: "(bool \<times> 'r) list \<Rightarrow> 'r option" where
  "first_refusal [] = None"
| "first_refusal ((c, r) # gs) = (if c then Some r else first_refusal gs)"

subsection \<open>Decimal text\<close>

definition digit_char :: "nat \<Rightarrow> char" where
  "digit_char d = ''0123456789'' ! d"

definition is_digit :: "char \<Rightarrow> bool" where
  "is_digit c \<longleftrightarrow> 48 \<le> (of_char c :: nat) \<and> (of_char c :: nat) \<le> 57"

definition digit_val :: "char \<Rightarrow> nat" where
  "digit_val c = of_char c - 48"

fun show_nat :: "nat \<Rightarrow> string" where
  "show_nat n = (if n < 10 then [digit_char n] else show_nat (n div 10) @ [digit_char (n mod 10)])"

declare show_nat.simps [simp del]

definition show_int :: "int \<Rightarrow> string" where
  "show_int i = (if i < 0 then ''-'' @ show_nat (nat (- i)) else show_nat (nat i))"

definition read_nat :: "string \<Rightarrow> nat" where
  "read_nat s = foldl (\<lambda>acc c. acc * 10 + digit_val c) 0 s"

text \<open>\<open>Number(text)\<close> for a text that the pattern \<open>[+-]?\d+\<close> matches, and the pattern itself.\<close>

definition is_digits :: "string \<Rightarrow> bool" where
  "is_digits s \<longleftrightarrow> s \<noteq> [] \<and> list_all is_digit s"

fun read_int :: "string \<Rightarrow> int option" where
  "read_int (c # s) =
     (if c = CHR ''-'' then (if is_digits s then Some (- int (read_nat s)) else None)
      else if c = CHR ''+'' then (if is_digits s then Some (int (read_nat s)) else None)
      else if is_digits (c # s) then Some (int (read_nat (c # s))) else None)"
| "read_int [] = None"

text \<open>The white space of \<open>String.prototype.trim\<close> among code units below 256.\<close>

definition is_space :: "char \<Rightarrow> bool" where
  "is_space c \<longleftrightarrow> (of_char c :: nat) \<in> {9, 10, 11, 12, 13, 32, 160}"

definition trim :: "string \<Rightarrow> string" where
  "trim s = rev (dropWhile is_space (rev (dropWhile is_space s)))"

fun split_at :: "char \<Rightarrow> string \<Rightarrow> string \<times> string option" where
  "split_at c [] = ([], None)"
| "split_at c (x # xs) =
     (if x = c then ([], Some xs) else (case split_at c xs of (l, r) \<Rightarrow> (x # l, r)))"

subsection \<open>Interfaces\<close>

text \<open>An encoder and a decoder that inverts it on the encoder's domain.\<close>

locale codec =
  fixes enc :: "'a \<Rightarrow> 'b"
    and dec :: "'b \<Rightarrow> 'a option"
    and dom_ok :: "'a \<Rightarrow> bool"
  assumes dec_enc: "dom_ok x \<Longrightarrow> dec (enc x) = Some x"
begin

lemma enc_inj: "dom_ok x \<Longrightarrow> dom_ok y \<Longrightarrow> enc x = enc y \<Longrightarrow> x = y"
  by (metis dec_enc option.inject)

lemma enc_inj_on: "inj_on enc {x. dom_ok x}"
  by (rule inj_onI) (auto intro: enc_inj)

end

text \<open>
  A transition table with terminal states. \<open>edges s\<close> lists the states that may follow \<open>s\<close>; a run
  is a list of states each of which may follow the one before.
\<close>

fun graph_run :: "('s \<Rightarrow> 's list) \<Rightarrow> 's \<Rightarrow> 's list \<Rightarrow> bool" where
  "graph_run edges s [] = True"
| "graph_run edges s (t # ts) = (t \<in> set (edges s) \<and> graph_run edges t ts)"

locale absorbing_graph =
  fixes edges :: "'s \<Rightarrow> 's list"
    and terminal :: "'s \<Rightarrow> bool"
  assumes terminal_edges: "terminal s \<longleftrightarrow> edges s = []"
begin

lemma run_from_terminal: "terminal s \<Longrightarrow> graph_run edges s ts \<Longrightarrow> ts = []"
  by (cases ts) (auto simp: terminal_edges)

lemma run_append: "graph_run edges s (ts @ us) \<longleftrightarrow> graph_run edges s ts \<and> graph_run edges (last (s # ts)) us"
  by (induction ts arbitrary: s) auto

lemma run_step: "graph_run edges s ts \<Longrightarrow> i < length ts \<Longrightarrow> ts ! i \<in> set (edges ((s # ts) ! i))"
proof (induction ts arbitrary: s i)
  case (Cons t ts)
  then show ?case by (cases i) auto
qed simp

lemma run_terminal_last:
  assumes "graph_run edges s ts" and "i < length ts" and "terminal (ts ! i)"
  shows "Suc i = length ts"
proof -
  from assms(2) have split: "ts = take (Suc i) ts @ drop (Suc i) ts" by simp
  with assms(1) have "graph_run edges (last (s # take (Suc i) ts)) (drop (Suc i) ts)"
    by (metis run_append)
  moreover have "last (s # take (Suc i) ts) = ts ! i"
    using assms(2) by (simp add: take_Suc_conv_app_nth)
  ultimately have "drop (Suc i) ts = []"
    using run_from_terminal [OF assms(3)] by metis
  with assms(2) show ?thesis by simp
qed

end

subsection \<open>Results\<close>

lemma bindR_simps [simp, res_simps]:
  "bindR (Inl e) f = Inl e" "bindR (Inr a) f = f a"
  by (simp_all add: bindR_def)

lemma mapR_simps [simp, res_simps]:
  "mapR f (Inl e) = Inl e" "mapR f (Inr a) = Inr (f a)"
  by (simp_all add: mapR_def)

lemma okR_simps [simp, res_simps]: "\<not> okR (Inl e)" "okR (Inr a)"
  by (simp_all add: okR_def)

lemma bindR_eq_Inr [res_simps]: "bindR m f = Inr b \<longleftrightarrow> (\<exists>a. m = Inr a \<and> f a = Inr b)"
  by (cases m) auto

lemma mapR_eq_Inr [res_simps]: "mapR f m = Inr b \<longleftrightarrow> (\<exists>a. m = Inr a \<and> b = f a)"
  by (cases m) auto

lemma okR_iff: "okR m \<longleftrightarrow> (\<exists>a. m = Inr a)"
  by (cases m) auto

lemma bindR_assoc [simp]: "bindR (bindR m f) g = bindR m (\<lambda>a. bindR (f a) g)"
  by (cases m) auto

lemma traverseR_eq_Inr:
  "traverseR f xs = Inr ys \<longleftrightarrow> list_all2 (\<lambda>x y. f x = Inr y) xs ys"
  by (induction xs arbitrary: ys) (auto simp: res_simps list_all2_Cons1)

subsection \<open>Numbers\<close>

lemma isSafeInteger_neg [simp]: "isSafeInteger (- n) = isSafeInteger n"
  by (simp add: isSafeInteger_def)

lemma isSafeInteger_abs [simp]: "isSafeInteger \<bar>n\<bar> = isSafeInteger n"
  by (simp add: isSafeInteger_def)

lemma isSafeInteger_max: "isSafeInteger n \<longleftrightarrow> \<bar>n\<bar> \<le> MAX_SAFE_INTEGER"
  by (simp add: isSafeInteger_def MAX_SAFE_INTEGER_def)

lemma isSafeInteger_le: "isSafeInteger n \<Longrightarrow> \<bar>m\<bar> \<le> \<bar>n\<bar> \<Longrightarrow> isSafeInteger m"
  by (simp add: isSafeInteger_def)

lemma isSafeInteger_dvd: "isSafeInteger n \<Longrightarrow> n \<noteq> 0 \<Longrightarrow> m dvd n \<Longrightarrow> isSafeInteger m"
  by (erule isSafeInteger_le) (auto simp: dvd_imp_le_int)

lemma div_dvd_self: "(d::int) dvd n \<Longrightarrow> n div d dvd n"
  by (metis dvd_mult_div_cancel dvd_triv_right)

lemma isSafeInteger_div: "isSafeInteger n \<Longrightarrow> d dvd n \<Longrightarrow> isSafeInteger (n div d)"
  by (cases "n = 0") (auto intro: isSafeInteger_dvd div_dvd_self simp: isSafeInteger_def [of 0])

lemma js_rem_nonneg: "0 \<le> a \<Longrightarrow> 0 \<le> b \<Longrightarrow> js_rem a b = a mod b"
  by (cases "a = 0") (auto simp: js_rem_def)

lemma js_rem_less: "b \<noteq> 0 \<Longrightarrow> \<bar>js_rem a b\<bar> < \<bar>b\<bar>"
  by (simp add: js_rem_def abs_mult)

subsection \<open>Lists\<close>

lemma find_first_Some: "find_first P xs = Some x \<Longrightarrow> x \<in> set xs \<and> P x"
  by (induction xs) (auto split: if_splits)

lemma find_first_None [simp]: "find_first P xs = None \<longleftrightarrow> (\<forall>x \<in> set xs. \<not> P x)"
  by (induction xs) auto

lemma set_uniq_from: "set (uniq_from seen xs) = set xs - set seen"
  by (induction xs arbitrary: seen) auto

lemma distinct_uniq_from: "distinct (uniq_from seen xs)"
  by (induction xs arbitrary: seen) (auto simp: set_uniq_from)

lemma set_uniq [simp]: "set (uniq xs) = set xs"
  by (simp add: uniq_def set_uniq_from)

lemma distinct_uniq [simp]: "distinct (uniq xs)"
  by (simp add: uniq_def distinct_uniq_from)

lemma uniq_from_distinct: "distinct xs \<Longrightarrow> set xs \<inter> set seen = {} \<Longrightarrow> uniq_from seen xs = xs"
  by (induction xs arbitrary: seen) auto

lemma uniq_distinct [simp]: "distinct xs \<Longrightarrow> uniq xs = xs"
  by (simp add: uniq_def uniq_from_distinct)

lemma slices_short: "xs \<noteq> [] \<Longrightarrow> length xs \<le> n \<Longrightarrow> slices n xs = [xs]"
  by (subst slices.simps) (cases n; simp add: slices.simps [of _ "[]"])

lemma concat_slices: "0 < n \<Longrightarrow> concat (slices n xs) = xs"
proof (induction n xs rule: slices.induct)
  case (1 n xs)
  then show ?case by (subst slices.simps) auto
qed

lemma slices_nonempty: "0 < n \<Longrightarrow> [] \<notin> set (slices n xs)"
proof (induction n xs rule: slices.induct)
  case (1 n xs)
  then show ?case by (subst slices.simps) auto
qed

lemma first_refusal_None [simp]: "first_refusal gs = None \<longleftrightarrow> (\<forall>(c, r) \<in> set gs. \<not> c)"
  by (induction gs rule: first_refusal.induct) auto

lemma first_refusal_Some: "first_refusal gs = Some r \<Longrightarrow> (True, r) \<in> set gs"
  by (induction gs) (auto split: if_splits)

subsection \<open>Decimal text: reading back what was printed\<close>

lemma of_char_digit_char: "d < 10 \<Longrightarrow> (of_char (digit_char d) :: nat) = 48 + d"
proof -
  assume "d < 10"
  then have "d = 0 \<or> d = 1 \<or> d = 2 \<or> d = 3 \<or> d = 4 \<or> d = 5 \<or> d = 6 \<or> d = 7 \<or> d = 8 \<or> d = 9"
    by arith
  then show ?thesis by (elim disjE) (simp_all add: digit_char_def)
qed

lemma is_digit_digit_char [simp]: "d < 10 \<Longrightarrow> is_digit (digit_char d)"
  by (simp add: is_digit_def of_char_digit_char)

lemma digit_val_digit_char [simp]: "d < 10 \<Longrightarrow> digit_val (digit_char d) = d"
  by (simp add: digit_val_def of_char_digit_char)

lemma is_digit_not [simp]:
  "\<not> is_digit CHR ''-''" "\<not> is_digit CHR ''+''" "\<not> is_digit CHR ''/''" "\<not> is_digit CHR ''.''"
  by (simp_all add: is_digit_def)

lemma is_digit_not_space: "is_digit c \<Longrightarrow> \<not> is_space c"
  by (auto simp: is_digit_def is_space_def)

lemma show_nat_digits: "list_all is_digit (show_nat n)"
  by (induction n rule: show_nat.induct) (subst show_nat.simps, auto)

lemma show_nat_nonempty [simp]: "show_nat n \<noteq> []"
  by (subst show_nat.simps) simp

lemma is_digits_show_nat [simp]: "is_digits (show_nat n)"
  by (simp add: is_digits_def show_nat_digits)

lemma read_nat_append: "read_nat (s @ [c]) = read_nat s * 10 + digit_val c"
  by (simp add: read_nat_def)

lemma read_show_nat [simp]: "read_nat (show_nat n) = n"
proof (induction n rule: show_nat.induct)
  case (1 n)
  show ?case
  proof (cases "n < 10")
    case True
    then show ?thesis by (subst show_nat.simps) (simp add: read_nat_def)
  next
    case False
    then show ?thesis using 1 by (subst show_nat.simps) (simp add: read_nat_append)
  qed
qed

lemma read_show_int [simp]: "read_int (show_int i) = Some i"
proof (cases "i < 0")
  case True
  then show ?thesis by (simp add: show_int_def)
next
  case False
  obtain c s where cs: "show_nat (nat i) = c # s" by (cases "show_nat (nat i)") auto
  then have "is_digit c" using show_nat_digits [of "nat i"] by simp
  moreover from this have "c \<noteq> CHR ''-''" "c \<noteq> CHR ''+''" by auto
  ultimately show ?thesis
    using False cs is_digits_show_nat [of "nat i"] read_show_nat [of "nat i"]
    by (simp add: show_int_def)
qed

interpretation decimal: codec show_int read_int "\<lambda>_. True"
  by unfold_locales simp

lemma dash_not_space: "\<not> is_space CHR ''-''" "\<not> is_space CHR ''/''"
  by (simp_all add: is_space_def)

lemma show_int_nonspace: "c \<in> set (show_int i) \<Longrightarrow> \<not> is_space c"
  using show_nat_digits [of "nat i"] show_nat_digits [of "nat (- i)"]
  by (auto simp: show_int_def list_all_iff is_digit_not_space dash_not_space split: if_splits)

lemma show_int_no_slash: "CHR ''/'' \<notin> set (show_int i)"
  using show_nat_digits [of "nat i"] show_nat_digits [of "nat (- i)"]
  by (auto simp: show_int_def list_all_iff split: if_splits)

lemma dropWhile_none: "(\<And>c. c \<in> set s \<Longrightarrow> \<not> P c) \<Longrightarrow> dropWhile P s = s"
  by (cases s) auto

lemma trim_id:
  assumes "\<And>c. c \<in> set s \<Longrightarrow> \<not> is_space c"
  shows "trim s = s"
  using dropWhile_none [of s is_space] dropWhile_none [of "rev s" is_space] assms
  by (simp add: trim_def)

lemma split_at_append: "c \<notin> set l \<Longrightarrow> split_at c (l @ c # r) = (l, Some r)"
  by (induction l) auto

end
