(* ===== verification/RationalTime.thy ===== *)
theory RationalTime
  imports Frameleaf_Prelude
begin

text \<open>
  Exact rational time: \<open>server/src/utils/rational-time.ts\<close> (mirrored verbatim in
  \<open>web/src/lib/frameleaf/studio/rational-time.ts\<close>).

  A \<open>rational\<close> is a reduced pair of safe integers. JavaScript multiplies and adds doubles; a
  product or sum of safe integers whose exact value is again safe is computed exactly, and one whose
  exact value is not safe rounds to a double of magnitude at least \<open>2 ^ 53\<close>, which
  \<open>checkSafe\<close> rejects. Integer arithmetic with the same check therefore computes the same
  results, errors included. \<open>Math.floor(num / den)\<close> divides doubles; \<open>floorDivide\<close> corrects the
  estimate afterwards, and the model keeps that estimate as an argument of the correction loops, so
  the lemmas hold for every estimate. Negative zero is the integer 0.

  The meaning of a rational is \<open>rat_of\<close>. The lemmas show that every constructor keeps the
  representation invariant \<open>valid_r\<close>, that each operation computes the exact value or fails, that
  multiplication and division fail only when the exact result has no representation, and that ticks,
  frames and text survive a round trip.
\<close>

record rational =
  num :: int
  den :: int

type_synonym timeBase = rational

datatype rational_error =
    NotRepresentable string
  | NeedsSafeIntegers int int
  | ZeroDenominator
  | CannotInvertZero
  | CannotDivideByZero
  | ClampInverted
  | NotARational string
  | NotPositiveTimeBase string
  | BadDecimalPlaces int

datatype rationalRounding = Nearest | Floor | Ceil | Trunc

abbreviation mk_r :: "int \<Rightarrow> int \<Rightarrow> rational" where
  "mk_r n d \<equiv> \<lparr>num = n, den = d\<rparr>"

function gcd_loop :: "int \<Rightarrow> int \<Rightarrow> int" where
  "gcd_loop x y = (if y \<noteq> 0 then gcd_loop y (js_rem x y) else x)"
  by pat_completeness auto
termination
  by (relation "measure (\<lambda>(x, y). nat \<bar>y\<bar>)") (auto simp: js_rem_less)

declare gcd_loop.simps [simp del]

definition gcd_r :: "int \<Rightarrow> int \<Rightarrow> int" where
  "gcd_r a b = gcd_loop \<bar>a\<bar> \<bar>b\<bar>"

definition checkSafe :: "int \<Rightarrow> string \<Rightarrow> rational_error + int" where
  "checkSafe value what = (if \<not> isSafeInteger value then Inl (NotRepresentable what) else Inr value)"

definition product_r :: "int \<Rightarrow> int \<Rightarrow> string \<Rightarrow> rational_error + int" where
  "product_r a b what = checkSafe (a * b) what"

definition rational :: "int \<Rightarrow> int \<Rightarrow> rational_error + rational" where
  "rational n d =
     (if \<not> isSafeInteger n \<or> \<not> isSafeInteger d then Inl (NeedsSafeIntegers n d)
      else if d = 0 then Inl ZeroDenominator
      else
        let sign = (if d < 0 then -1 else 1);
            signedNum = n * sign;
            positiveDen = d * sign;
            g = gcd_r signedNum positiveDen;
            divisor = (if g = 0 then 1 else g)
        in Inr (mk_r (signedNum div divisor) (positiveDen div divisor)))"

definition RATIONAL_ZERO :: rational where "RATIONAL_ZERO = mk_r 0 1"
definition RATIONAL_ONE :: rational where "RATIONAL_ONE = mk_r 1 1"
definition FRAME_RATE_NTSC_30 :: rational where "FRAME_RATE_NTSC_30 = mk_r 30000 1001"
definition FRAME_RATE_NTSC_24 :: rational where "FRAME_RATE_NTSC_24 = mk_r 24000 1001"

fun isRational :: "json \<Rightarrow> bool" where
  "isRational (JObj kvs) =
     (case (jsafe_int (jget (JObj kvs) ''num''), jsafe_int (jget (JObj kvs) ''den'')) of
        (Some n, Some d) \<Rightarrow> d > 0 \<and> gcd_r n d = 1
      | _ \<Rightarrow> False)"
| "isRational _ = False"

definition fromInteger :: "int \<Rightarrow> rational_error + rational" where
  "fromInteger value = rational value 1"

definition fromMilliseconds :: "int \<Rightarrow> rational_error + rational" where
  "fromMilliseconds milliseconds = rational milliseconds 1000"

definition isZero :: "rational \<Rightarrow> bool" where "isZero v \<longleftrightarrow> num v = 0"
definition isNegative :: "rational \<Rightarrow> bool" where "isNegative v \<longleftrightarrow> num v < 0"

definition sign_r :: "rational \<Rightarrow> int" where
  "sign_r v = (if num v = 0 then 0 else if num v < 0 then -1 else 1)"

definition negate :: "rational \<Rightarrow> rational" where
  "negate v = mk_r (- num v) (den v)"

definition abs_r :: "rational \<Rightarrow> rational" where
  "abs_r v = (if num v < 0 then negate v else v)"

definition invert :: "rational \<Rightarrow> rational_error + rational" where
  "invert v = (if num v = 0 then Inl CannotInvertZero else rational (den v) (num v))"

definition add_r :: "rational \<Rightarrow> rational \<Rightarrow> rational_error + rational" where
  "add_r a b =
     (let divisor = gcd_r (den a) (den b);
          bScale = den b div divisor;
          aScale = den a div divisor
      in bindR (product_r (den a) bScale ''A common denominator'') (\<lambda>d.
         bindR (product_r (num a) bScale ''A sum term'') (\<lambda>s.
         bindR (product_r (num b) aScale ''A sum term'') (\<lambda>t.
         bindR (checkSafe (s + t) ''A sum'') (\<lambda>n. rational n d)))))"

definition subtract :: "rational \<Rightarrow> rational \<Rightarrow> rational_error + rational" where
  "subtract a b = add_r a (negate b)"

definition multiply :: "rational \<Rightarrow> rational \<Rightarrow> rational_error + rational" where
  "multiply a b =
     (let gl = gcd_r (num a) (den b); left = (if gl = 0 then 1 else gl);
          gr = gcd_r (num b) (den a); right = (if gr = 0 then 1 else gr)
      in bindR (product_r (num a div left) (num b div right) ''A product'') (\<lambda>n.
         bindR (product_r (den a div right) (den b div left) ''A product denominator'') (\<lambda>d.
         rational n d)))"

definition divide_r :: "rational \<Rightarrow> rational \<Rightarrow> rational_error + rational" where
  "divide_r a b =
     (if num b = 0 then Inl CannotDivideByZero
      else bindR (invert b) (\<lambda>i. multiply a i))"

definition compare_r :: "rational \<Rightarrow> rational \<Rightarrow> rational_error + int" where
  "compare_r a b = mapR sign_r (subtract a b)"

definition equals :: "rational \<Rightarrow> rational \<Rightarrow> bool" where
  "equals a b \<longleftrightarrow> num a = num b \<and> den a = den b"

definition lessThan_r :: "rational \<Rightarrow> rational \<Rightarrow> rational_error + bool" where
  "lessThan_r a b = mapR (\<lambda>c. c < 0) (compare_r a b)"

definition greaterThan_r :: "rational \<Rightarrow> rational \<Rightarrow> rational_error + bool" where
  "greaterThan_r a b = mapR (\<lambda>c. c > 0) (compare_r a b)"

definition min_r :: "rational \<Rightarrow> rational \<Rightarrow> rational_error + rational" where
  "min_r a b = mapR (\<lambda>c. if c \<le> 0 then a else b) (compare_r a b)"

definition max_r :: "rational \<Rightarrow> rational \<Rightarrow> rational_error + rational" where
  "max_r a b = mapR (\<lambda>c. if c \<ge> 0 then a else b) (compare_r a b)"

definition clamp_r :: "rational \<Rightarrow> rational \<Rightarrow> rational \<Rightarrow> rational_error + rational" where
  "clamp_r v lower upper =
     bindR (compare_r lower upper) (\<lambda>c.
       if c > 0 then Inl ClampInverted
       else bindR (max_r v lower) (\<lambda>m. min_r m upper))"

definition isInteger :: "rational \<Rightarrow> bool" where
  "isInteger v \<longleftrightarrow> den v = 1"

text \<open>
  The correction loops of \<open>floorDivide\<close> for a quotient estimate \<open>est\<close>. They are only
  entered with a positive denominator (the representation invariant), which bounds them.
\<close>

function floorFix_neg :: "int \<Rightarrow> int \<Rightarrow> int \<Rightarrow> int \<times> int" where
  "floorFix_neg d quo remainder =
     (if remainder < 0 \<and> 0 < d then floorFix_neg d (quo - 1) (remainder + d)
      else (quo, remainder))"
  by pat_completeness auto
termination
  by (relation "measure (\<lambda>(d, q, r). nat (- r))") auto

function floorFix_pos :: "int \<Rightarrow> int \<Rightarrow> int \<Rightarrow> int \<times> int" where
  "floorFix_pos d quo remainder =
     (if remainder \<ge> d \<and> 0 < d then floorFix_pos d (quo + 1) (remainder - d)
      else (quo, remainder))"
  by pat_completeness auto
termination
  by (relation "measure (\<lambda>(d, q, r). nat r)") auto

declare floorFix_neg.simps [simp del] floorFix_pos.simps [simp del]

definition floorDivide_from :: "int \<Rightarrow> int \<Rightarrow> int \<Rightarrow> int \<times> int" where
  "floorDivide_from est n d =
     (case floorFix_neg d est (n - est * d) of (q, r) \<Rightarrow> floorFix_pos d q r)"

definition floorDivide :: "int \<Rightarrow> int \<Rightarrow> int \<times> int" where
  "floorDivide n d = floorDivide_from (n div d) n d"

definition roundToInteger :: "rational \<Rightarrow> rationalRounding \<Rightarrow> rational_error + int" where
  "roundToInteger v mode =
     (if den v = 1 then Inr (num v)
      else
        let (quo, remainder) = floorDivide (num v) (den v)
        in case mode of
             Floor \<Rightarrow> Inr quo
           | Ceil \<Rightarrow> Inr (if remainder = 0 then quo else quo + 1)
           | Trunc \<Rightarrow> Inr (if num v < 0 then quo + 1 else quo)
           | Nearest \<Rightarrow>
               let (wholeMagnitude, magnitudeRemainder) = floorDivide \<bar>num v\<bar> (den v)
               in mapR (\<lambda>twice.
                    let rounded = (if twice \<ge> den v then wholeMagnitude + 1 else wholeMagnitude)
                    in if num v < 0 then - rounded else rounded)
                  (product_r magnitudeRemainder 2 ''A rounding comparison''))"

definition floor_r :: "rational \<Rightarrow> rational_error + int" where
  "floor_r v = roundToInteger v Floor"

definition ceil_r :: "rational \<Rightarrow> rational_error + int" where
  "ceil_r v = roundToInteger v Ceil"

subsection \<open>Text, ticks and frames\<close>

definition parseRational :: "string \<Rightarrow> rational_error + rational" where
  "parseRational value =
     (case split_at (CHR ''/'') (trim value) of (l, r) \<Rightarrow>
        (case (read_int l, case r of None \<Rightarrow> Some 1 | Some t \<Rightarrow> read_int t) of
           (Some n, Some d) \<Rightarrow>
             if \<not> isSafeInteger n \<or> \<not> isSafeInteger d \<or> d = 0 then Inl (NotARational value)
             else rational n d
         | _ \<Rightarrow> Inl (NotARational value)))"

definition tryParseRational :: "string option \<Rightarrow> rational option" where
  "tryParseRational value =
     (case value of
        None \<Rightarrow> None
      | Some text \<Rightarrow>
          if text = [] then None
          else (case parseRational text of Inl _ \<Rightarrow> None | Inr r \<Rightarrow> Some r))"

definition formatRational :: "rational \<Rightarrow> string" where
  "formatRational v = show_int (num v) @ ''/'' @ show_int (den v)"

definition ticksToSeconds :: "int \<Rightarrow> timeBase \<Rightarrow> rational_error + rational" where
  "ticksToSeconds ticks tb = bindR (fromInteger ticks) (\<lambda>t. multiply t tb)"

definition secondsToTicks :: "rational \<Rightarrow> timeBase \<Rightarrow> rationalRounding \<Rightarrow> rational_error + int" where
  "secondsToTicks seconds tb mode = bindR (divide_r seconds tb) (\<lambda>q. roundToInteger q mode)"

definition isExactInTimeBase :: "rational \<Rightarrow> timeBase \<Rightarrow> rational_error + bool" where
  "isExactInTimeBase seconds tb = mapR isInteger (divide_r seconds tb)"

definition rescaleTicks ::
  "int \<Rightarrow> timeBase \<Rightarrow> timeBase \<Rightarrow> rationalRounding \<Rightarrow> rational_error + int \<times> bool" where
  "rescaleTicks ticks from to mode =
     bindR (ticksToSeconds ticks from) (\<lambda>seconds.
     bindR (divide_r seconds to) (\<lambda>scaled.
     mapR (\<lambda>t. (t, isInteger scaled)) (roundToInteger scaled mode)))"

definition toTrackTimescale :: "timeBase \<Rightarrow> rational_error + int" where
  "toTrackTimescale tb =
     (if num tb \<le> 0 then Inl (NotPositiveTimeBase (formatRational tb)) else Inr (den tb))"

definition frameDuration :: "rational \<Rightarrow> rational_error + rational" where
  "frameDuration frameRate = invert frameRate"

definition frameStartTime :: "int \<Rightarrow> rational \<Rightarrow> rational_error + rational" where
  "frameStartTime index frameRate = bindR (fromInteger index) (\<lambda>i. divide_r i frameRate)"

definition frameIndexAt :: "rational \<Rightarrow> rational \<Rightarrow> rational_error + int" where
  "frameIndexAt time frameRate = bindR (multiply time frameRate) (\<lambda>m. roundToInteger m Floor)"

definition snapToFrame :: "rational \<Rightarrow> rational \<Rightarrow> rational_error + rational" where
  "snapToFrame time frameRate =
     bindR (frameIndexAt time frameRate) (\<lambda>i. frameStartTime i frameRate)"

subsection \<open>Display\<close>

fun decimal_loop :: "nat \<Rightarrow> int \<Rightarrow> int \<Rightarrow> rational_error + int list \<times> int" where
  "decimal_loop 0 d rest = Inr ([], rest)"
| "decimal_loop (Suc places) d rest =
     bindR (product_r rest 10 ''A decimal expansion'') (\<lambda>scaled.
       let digit = scaled div d
       in mapR (\<lambda>(digits, r). (digit # digits, r)) (decimal_loop places d (scaled - digit * d)))"

text \<open>The carry loop runs from the last place to the first: the list is the digits reversed.\<close>

fun carry_loop :: "int list \<Rightarrow> int \<Rightarrow> int list \<times> int" where
  "carry_loop [] carry = ([], carry)"
| "carry_loop (d # ds) carry =
     (if carry > 0 then
        let next = d + carry;
            (rest, c) = carry_loop ds (if next \<ge> 10 then 1 else 0)
        in (js_rem next 10 # rest, c)
      else (d # ds, carry))"

definition decimal_parts :: "rational \<Rightarrow> int \<Rightarrow> rational_error + int \<times> int list" where
  "decimal_parts v decimals =
     (if \<not> isSafeInteger decimals \<or> decimals < 0 \<or> decimals > 15
      then Inl (BadDecimalPlaces decimals)
      else
        let (quo, remainder) = floorDivide \<bar>num v\<bar> (den v)
        in bindR (decimal_loop (nat decimals) (den v) remainder) (\<lambda>(digits, rest).
           bindR (product_r rest 2 ''A rounding comparison'') (\<lambda>twice.
             if twice \<ge> den v then
               let (rounded, carry) = carry_loop (rev digits) 1
               in Inr (quo + carry, rev rounded)
             else Inr (quo, digits))))"

definition toDecimalString :: "rational \<Rightarrow> int \<Rightarrow> rational_error + string" where
  "toDecimalString v decimals =
     mapR (\<lambda>(whole, digits).
       let fraction = (if decimals > 0 then ''.'' @ concat (map show_int digits) else []);
           text = show_int whole @ fraction
       in if num v < 0 \<and> (whole \<noteq> 0 \<or> list_ex (\<lambda>d. d \<noteq> 0) digits) then ''-'' @ text else text)
     (decimal_parts v decimals)"

definition strip_end :: "char \<Rightarrow> string \<Rightarrow> string" where
  "strip_end c s = rev (dropWhile (\<lambda>x. x = c) (rev s))"

definition strip_one :: "char \<Rightarrow> string \<Rightarrow> string" where
  "strip_one c s = (if s \<noteq> [] \<and> last s = c then butlast s else s)"

definition toDisplaySeconds :: "rational \<Rightarrow> int \<Rightarrow> rational_error + string" where
  "toDisplaySeconds v decimals =
     mapR (\<lambda>text.
       if CHR ''.'' \<notin> set text then text
       else let trimmed = strip_one (CHR ''.'') (strip_end (CHR ''0'') text)
            in if trimmed = ''-0'' then ''0'' else trimmed)
     (toDecimalString v decimals)"

text \<open>
  \<open>coerceRational\<close> calls the constructor only on safe integers with a nonzero denominator, where it
  does not throw (\<open>rational_total\<close> below).
\<close>

fun coerceRational :: "json \<Rightarrow> rational option" where
  "coerceRational (JStr s) = tryParseRational (Some s)"
| "coerceRational (JObj kvs) =
     (case (jsafe_int (jget (JObj kvs) ''num''), jsafe_int (jget (JObj kvs) ''den'')) of
        (Some n, Some d) \<Rightarrow>
          if d \<noteq> 0 then (case rational n d of Inl _ \<Rightarrow> None | Inr r \<Rightarrow> Some r) else None
      | _ \<Rightarrow> None)"
| "coerceRational _ = None"

section \<open>Meaning and representation invariant\<close>

definition valid_r :: "rational \<Rightarrow> bool" where
  "valid_r r \<longleftrightarrow> den r > 0 \<and> coprime (num r) (den r) \<and> isSafeInteger (num r) \<and> isSafeInteger (den r)"

definition rat_of :: "rational \<Rightarrow> rat" where
  "rat_of r = of_int (num r) / of_int (den r)"

lemma gcd_loop_eq: "0 \<le> x \<Longrightarrow> 0 \<le> y \<Longrightarrow> gcd_loop x y = gcd x y"
proof (induction x y rule: gcd_loop.induct)
  case (1 x y)
  show ?case
  proof (cases "y = 0")
    case True
    with 1 show ?thesis by (simp add: gcd_loop.simps)
  next
    case False
    with 1 have "gcd_loop x y = gcd y (x mod y)"
      by (simp add: gcd_loop.simps [of x y] js_rem_nonneg)
    then show ?thesis using gcd_red_int [of x y] by simp
  qed
qed

lemma gcd_r_eq [simp]: "gcd_r a b = gcd a b"
  by (simp add: gcd_r_def gcd_loop_eq)

lemma checkSafe_Inr [simp]: "checkSafe v w = Inr x \<longleftrightarrow> isSafeInteger v \<and> x = v"
  by (auto simp: checkSafe_def)

lemma product_r_Inr [simp]: "product_r a b w = Inr x \<longleftrightarrow> isSafeInteger (a * b) \<and> x = a * b"
  by (simp add: product_r_def)

lemma quotient_of_rat_of: "valid_r r \<Longrightarrow> quotient_of (rat_of r) = (num r, den r)"
  by (simp add: rat_of_def valid_r_def Fract_of_int_quotient [symmetric] quotient_of_Fract
      normalize_stable)

lemma valid_r_unique: "valid_r a \<Longrightarrow> valid_r b \<Longrightarrow> rat_of a = rat_of b \<Longrightarrow> a = b"
  using quotient_of_rat_of [of a] quotient_of_rat_of [of b] by simp

lemma rational_total:
  "isSafeInteger n \<Longrightarrow> isSafeInteger d \<Longrightarrow> d \<noteq> 0 \<Longrightarrow> \<exists>r. rational n d = Inr r"
  by (simp add: rational_def Let_def)

lemma rational_sound:
  assumes "rational n d = Inr r"
  shows "valid_r r" and "rat_of r = of_int n / of_int d"
proof -
  define s where "s = (if d < 0 then -1 else (1::int))"
  from assms have safe: "isSafeInteger n" "isSafeInteger d" and d: "d \<noteq> 0"
    and r: "r = mk_r (n * s div gcd (n * s) (d * s)) (d * s div gcd (n * s) (d * s))"
    by (auto simp: rational_def s_def Let_def split: if_splits)
  let ?g = "gcd (n * s) (d * s)"
  have pos: "d * s > 0" and g: "?g \<noteq> 0" using d by (auto simp: s_def)
  then have gp: "?g > 0" by (simp add: order_less_le)
  have "coprime (n * s div ?g) (d * s div ?g)" using g by (simp add: div_gcd_coprime)
  moreover have "d * s div ?g > 0"
    using pos gp by (simp add: pos_imp_zdiv_pos_iff zdvd_imp_le)
  moreover have "isSafeInteger (n * s div ?g)" "isSafeInteger (d * s div ?g)"
    using safe by (auto intro!: isSafeInteger_div simp: s_def)
  ultimately show "valid_r r" by (simp add: valid_r_def r)
  have "rat_of r = of_int (n * s) / of_int (d * s)"
    using g by (simp add: rat_of_def r of_int_div)
  then show "rat_of r = of_int n / of_int d" by (auto simp: s_def split: if_splits)
qed

lemma rational_Inr_iff:
  "rational n d = Inr r \<longleftrightarrow>
     isSafeInteger n \<and> isSafeInteger d \<and> d \<noteq> 0 \<and> valid_r r \<and> rat_of r = of_int n / of_int d"
  (is "?l \<longleftrightarrow> ?r")
proof
  assume ?l
  then show ?r using rational_sound [of n d r] by (auto simp: rational_def Let_def split: if_splits)
next
  assume r: ?r
  then obtain r' where "rational n d = Inr r'" using rational_total by blast
  with r show ?l using rational_sound [of n d r'] valid_r_unique [of r r'] by auto
qed

lemma rational_of_reduced:
  "coprime n d \<Longrightarrow> d > 0 \<Longrightarrow> isSafeInteger n \<Longrightarrow> isSafeInteger d \<Longrightarrow> rational n d = Inr (mk_r n d)"
  by (simp add: rational_Inr_iff valid_r_def rat_of_def)

lemma fromInteger_iff: "fromInteger n = Inr r \<longleftrightarrow> valid_r r \<and> rat_of r = of_int n"
proof
  assume "fromInteger n = Inr r"
  then show "valid_r r \<and> rat_of r = of_int n" by (simp add: fromInteger_def rational_Inr_iff)
next
  assume r: "valid_r r \<and> rat_of r = of_int n"
  then have "quotient_of (of_int n) = (num r, den r)" using quotient_of_rat_of by metis
  then have "num r = n" by simp
  with r show "fromInteger n = Inr r"
    by (auto simp: fromInteger_def rational_Inr_iff valid_r_def) (simp add: isSafeInteger_def)
qed

lemma valid_r_den: "valid_r r \<Longrightarrow> den r > 0" "valid_r r \<Longrightarrow> (of_int (den r) :: rat) > 0"
  by (simp_all add: valid_r_def)

lemma rat_of_0 [simp]: "valid_r r \<Longrightarrow> rat_of r = 0 \<longleftrightarrow> num r = 0"
  using valid_r_den(1) [of r] by (auto simp: rat_of_def)

lemma rat_of_pos: "valid_r r \<Longrightarrow> rat_of r > 0 \<longleftrightarrow> num r > 0"
  using valid_r_den [of r] by (simp add: rat_of_def zero_less_divide_iff)

lemma rat_of_neg: "valid_r r \<Longrightarrow> rat_of r < 0 \<longleftrightarrow> num r < 0"
  using valid_r_den [of r] by (simp add: rat_of_def divide_less_0_iff)

subsection \<open>Field operations\<close>

lemma negate_valid [simp]: "valid_r r \<Longrightarrow> valid_r (negate r)"
  by (simp add: valid_r_def negate_def)

lemma rat_of_negate [simp]: "rat_of (negate r) = - rat_of r"
  by (simp add: rat_of_def negate_def)

lemma invert_iff:
  assumes "valid_r a" and "num a \<noteq> 0"
  shows "invert a = Inr c \<longleftrightarrow> valid_r c \<and> rat_of c = inverse (rat_of a)"
  using assms by (auto simp: invert_def rational_Inr_iff valid_r_def rat_of_def)

lemma invert_total: "valid_r a \<Longrightarrow> num a \<noteq> 0 \<Longrightarrow> \<exists>c. invert a = Inr c"
  by (simp add: invert_def rational_total valid_r_def)

lemma multiply_iff:
  assumes a: "valid_r a" and b: "valid_r b"
  shows "multiply a b = Inr c \<longleftrightarrow> valid_r c \<and> rat_of c = rat_of a * rat_of b"
proof -
  define l where "l = gcd (num a) (den b)"
  define r where "r = gcd (num b) (den a)"
  define n where "n = (num a div l) * (num b div r)"
  define d where "d = (den a div r) * (den b div l)"
  have da: "den a > 0" "den b > 0" and ca: "coprime (num a) (den a)" "coprime (num b) (den b)"
    using a b by (auto simp: valid_r_def)
  have lr: "l > 0" "r > 0" using da by (auto simp: l_def r_def order_less_le)
  have dv: "l dvd num a" "l dvd den b" "r dvd num b" "r dvd den a" by (auto simp: l_def r_def)
  have "coprime (num a div l) (den b div l)" "coprime (num b div r) (den a div r)"
    using lr by (auto simp: l_def r_def div_gcd_coprime)
  moreover have "coprime (num a div l) (den a div r)" "coprime (num b div r) (den b div l)"
    using ca dv by (auto intro: coprime_divisors div_dvd_self)
  ultimately have cop: "coprime n d"
    by (auto simp: n_def d_def coprime_mult_left_iff coprime_mult_right_iff coprime_commute)
  have dpos: "d > 0" using da dv lr
    by (simp add: d_def pos_imp_zdiv_pos_iff zdvd_imp_le)
  have val: "of_int n / of_int d = rat_of a * rat_of b"
    using dv lr by (simp add: n_def d_def rat_of_def of_int_div)
  have m: "multiply a b =
     bindR (product_r (num a div l) (num b div r) ''A product'') (\<lambda>n.
     bindR (product_r (den a div r) (den b div l) ''A product denominator'') (\<lambda>d. rational n d))"
    using lr by (simp add: multiply_def l_def r_def Let_def)
  show ?thesis
  proof
    assume "multiply a b = Inr c"
    then show "valid_r c \<and> rat_of c = rat_of a * rat_of b"
      by (auto simp: m res_simps rational_Inr_iff val n_def [symmetric] d_def [symmetric])
  next
    assume c: "valid_r c \<and> rat_of c = rat_of a * rat_of b"
    then have "quotient_of (of_int n / of_int d) = (num c, den c)"
      using quotient_of_rat_of [of c] by (simp add: val)
    moreover have "quotient_of (of_int n / of_int d) = (n, d)"
      using cop dpos by (simp add: Fract_of_int_quotient [symmetric] quotient_of_Fract normalize_stable)
    ultimately have "isSafeInteger n" "isSafeInteger d" using c by (auto simp: valid_r_def)
    with c dpos show "multiply a b = Inr c"
      by (auto simp: m res_simps rational_Inr_iff val n_def [symmetric] d_def [symmetric])
  qed
qed

lemma divide_r_iff:
  assumes a: "valid_r a" and b: "valid_r b" and nz: "rat_of b \<noteq> 0"
  shows "divide_r a b = Inr c \<longleftrightarrow> valid_r c \<and> rat_of c = rat_of a / rat_of b"
proof -
  from b nz have "num b \<noteq> 0" by simp
  with b obtain i where i: "invert b = Inr i" "valid_r i" "rat_of i = inverse (rat_of b)"
    using invert_total invert_iff by metis
  show ?thesis using \<open>num b \<noteq> 0\<close> i multiply_iff [OF a i(2)]
    by (simp add: divide_r_def field_simps)
qed

lemma sum_over_common:
  fixes x y p q g :: "'a :: field"
  assumes "p \<noteq> 0" and "q \<noteq> 0" and "g \<noteq> 0"
  shows "(x * (q / g) + y * (p / g)) / (p * (q / g)) = x / p + y / q"
  using assms by (simp add: field_simps)

lemma add_r_sound:
  assumes a: "valid_r a" and b: "valid_r b" and c: "add_r a b = Inr c"
  shows "valid_r c \<and> rat_of c = rat_of a + rat_of b"
proof -
  define g where "g = gcd (den a) (den b)"
  have g: "g > 0" "g dvd den a" "g dvd den b" and p: "den a > 0" "den b > 0"
    using a b by (auto simp: g_def valid_r_def order_less_le)
  from c have "valid_r c"
    and v: "rat_of c = of_int (num a * (den b div g) + num b * (den a div g)) / of_int (den a * (den b div g))"
    by (auto simp: add_r_def Let_def res_simps rational_Inr_iff g_def)
  have "of_int (den b div g) = (of_int (den b) / of_int g :: rat)"
       "of_int (den a div g) = (of_int (den a) / of_int g :: rat)"
    using g by (auto simp: of_int_div)
  with v have "rat_of c = (of_int (num a) * (of_int (den b) / of_int g) + of_int (num b) * (of_int (den a) / of_int g))
      / (of_int (den a) * (of_int (den b) / of_int g))"
    by simp
  also have "\<dots> = rat_of a + rat_of b"
    unfolding rat_of_def
    by (rule sum_over_common) (use g(1) p in simp_all)
  finally have "rat_of c = rat_of a + rat_of b" .
  with \<open>valid_r c\<close> show ?thesis ..
qed

lemma subtract_sound:
  "valid_r a \<Longrightarrow> valid_r b \<Longrightarrow> subtract a b = Inr c \<Longrightarrow> valid_r c \<and> rat_of c = rat_of a - rat_of b"
  using add_r_sound [of a "negate b" c] by (simp add: subtract_def)

lemma sign_r_sgn: "valid_r a \<Longrightarrow> of_int (sign_r a) = sgn (rat_of a)"
  using rat_of_pos [of a] rat_of_neg [of a]
  by (auto simp: sign_r_def sgn_if)

lemma compare_r_sound:
  "valid_r a \<Longrightarrow> valid_r b \<Longrightarrow> compare_r a b = Inr s \<Longrightarrow> of_int s = sgn (rat_of a - rat_of b)"
  using subtract_sound [of a b] by (auto simp: compare_r_def res_simps sign_r_sgn)

subsection \<open>Rounding\<close>

lemma floorFix_neg_spec:
  "0 < d \<Longrightarrow> (case floorFix_neg d q r of (q', r') \<Rightarrow> q' * d + r' = q * d + r \<and> 0 \<le> r')"
proof (induction d q r rule: floorFix_neg.induct)
  case (1 d q r)
  then show ?case
    by (cases "r < 0") (auto simp: floorFix_neg.simps [of d q r] algebra_simps split: prod.splits)
qed

lemma floorFix_pos_spec:
  "0 < d \<Longrightarrow> 0 \<le> r \<Longrightarrow>
     (case floorFix_pos d q r of (q', r') \<Rightarrow> q' * d + r' = q * d + r \<and> 0 \<le> r' \<and> r' < d)"
proof (induction d q r rule: floorFix_pos.induct)
  case (1 d q r)
  then show ?case
    by (cases "r \<ge> d") (auto simp: floorFix_pos.simps [of d q r] algebra_simps split: prod.splits)
qed

lemma floorDivide_from_eq: "0 < d \<Longrightarrow> floorDivide_from est n d = (n div d, n mod d)"
proof -
  assume d: "0 < d"
  obtain q r where qr: "floorFix_neg d est (n - est * d) = (q, r)" by fastforce
  with floorFix_neg_spec [OF d, of est "n - est * d"] have r: "q * d + r = n" "0 \<le> r" by auto
  obtain q' r' where qr': "floorFix_pos d q r = (q', r')" by fastforce
  with floorFix_pos_spec [OF d r(2), of q] r(1) have "q' * d + r' = n" "0 \<le> r'" "r' < d" by auto
  then have "n div d = q'" "n mod d = r'"
    by (auto simp: div_mult_self3 [symmetric] dest: sym intro!: div_pos_pos_trivial mod_pos_pos_trivial)
  with qr qr' show ?thesis by (simp add: floorDivide_from_def)
qed

lemma floorDivide_eq: "0 < d \<Longrightarrow> floorDivide n d = (n div d, n mod d)"
  by (simp add: floorDivide_def floorDivide_from_eq)

lemma floor_rat_of: "\<lfloor>rat_of v\<rfloor> = num v div den v"
  by (simp add: rat_of_def floor_divide_of_int_eq)

lemma valid_r_integer: "valid_r v \<Longrightarrow> den v = 1 \<longleftrightarrow> num v mod den v = 0"
  by (auto simp: valid_r_def mod_eq_0_iff_dvd coprime_absorb_right)

lemma ceil_rat_of:
  assumes "0 < den v"
  shows "\<lceil>rat_of v\<rceil> = (if num v mod den v = 0 then num v div den v else num v div den v + 1)"
proof -
  have "\<lceil>rat_of v\<rceil> = - (- num v div den v)"
    by (simp add: rat_of_def ceiling_def floor_divide_of_int_eq minus_divide_left flip: of_int_minus)
  with assms show ?thesis by (simp add: zdiv_zminus1_eq_if)
qed

lemma roundToInteger_floor: "valid_r v \<Longrightarrow> roundToInteger v Floor = Inr \<lfloor>rat_of v\<rfloor>"
  using valid_r_den(1) [of v] by (simp add: roundToInteger_def floorDivide_eq floor_rat_of)

lemma roundToInteger_ceil: "valid_r v \<Longrightarrow> roundToInteger v Ceil = Inr \<lceil>rat_of v\<rceil>"
  using valid_r_den(1) [of v] by (simp add: roundToInteger_def floorDivide_eq ceil_rat_of)

lemma roundToInteger_trunc:
  "valid_r v \<Longrightarrow> roundToInteger v Trunc = Inr (if rat_of v < 0 then \<lceil>rat_of v\<rceil> else \<lfloor>rat_of v\<rfloor>)"
  using valid_r_den(1) [of v] valid_r_integer [of v]
  by (cases "den v = 1")
    (simp_all add: roundToInteger_def floorDivide_eq ceil_rat_of floor_rat_of rat_of_neg)

lemma half_up_div:
  assumes "(0::int) < d"
  shows "(if n mod d * 2 \<ge> d then n div d + 1 else n div d) = (2 * n + d) div (2 * d)"
proof -
  define q r where "q = n div d" and "r = n mod d"
  have n: "n = d * q + r" and r: "0 \<le> r" "r < d"
    using assms by (auto simp: q_def r_def)
  have "(2 * n + d) div (2 * d) = (if r * 2 \<ge> d then q + 1 else q)"
  proof (cases "r * 2 \<ge> d")
    case True
    have "2 * n + d = 2 * d * (q + 1) + (2 * r - d)" by (simp add: n algebra_simps)
    then have "(2 * n + d) div (2 * d) = q + 1" by (rule int_div_pos_eq) (use True r in auto)
    with True show ?thesis by simp
  next
    case False
    have "2 * n + d = 2 * d * q + (2 * r + d)" by (simp add: n algebra_simps)
    then have "(2 * n + d) div (2 * d) = q" by (rule int_div_pos_eq) (use False r in auto)
    with False show ?thesis by simp
  qed
  then show ?thesis by (simp add: q_def r_def)
qed

lemma floor_half_up: "(0::int) < d \<Longrightarrow> \<lfloor>of_int n / of_int d + 1 / 2 :: rat\<rfloor> = (2 * n + d) div (2 * d)"
proof -
  assume d: "0 < d"
  then have "of_int n / of_int d + 1 / 2 = (of_int (2 * n + d) / of_int (2 * d) :: rat)"
    by (simp add: field_simps)
  then show ?thesis by (simp only: floor_divide_of_int_eq)
qed

lemma roundToInteger_nearest:
  assumes v: "valid_r v" and i: "roundToInteger v Nearest = Inr i"
  shows "of_int i = sgn (rat_of v) * of_int \<lfloor>\<bar>rat_of v\<bar> + 1 / 2\<rfloor>"
proof -
  have d: "den v > 0" using v by (rule valid_r_den)
  have absv: "\<bar>rat_of v\<bar> = of_int \<bar>num v\<bar> / of_int (den v)"
    using d by (simp add: rat_of_def)
  have "i = (if num v < 0 then -1 else 1) * ((2 * \<bar>num v\<bar> + den v) div (2 * den v))"
  proof (cases "den v = 1")
    case True
    with i show ?thesis by (auto simp: roundToInteger_def)
  next
    case False
    with i d have "i = (if num v < 0 then -1 else 1) *
        (if \<bar>num v\<bar> mod den v * 2 \<ge> den v then \<bar>num v\<bar> div den v + 1 else \<bar>num v\<bar> div den v)"
      by (auto simp: roundToInteger_def floorDivide_eq res_simps Let_def split: if_splits)
    then show ?thesis by (simp only: half_up_div [OF d])
  qed
  moreover have "\<lfloor>\<bar>rat_of v\<bar> + 1 / 2\<rfloor> = (2 * \<bar>num v\<bar> + den v) div (2 * den v)"
    using floor_half_up [OF d, of "\<bar>num v\<bar>"] by (simp only: absv)
  ultimately have "i = (if num v < 0 then -1 else 1) * \<lfloor>\<bar>rat_of v\<bar> + 1 / 2\<rfloor>" by simp
  then show ?thesis
  proof (cases "num v = 0")
    case False
    with v \<open>i = (if num v < 0 then -1 else 1) * \<lfloor>\<bar>rat_of v\<bar> + 1 / 2\<rfloor>\<close> show ?thesis
      by (simp add: sgn_if rat_of_pos rat_of_neg)
  qed (simp add: rat_of_def floor_eq_iff)
qed

lemma roundToInteger_int:
  assumes "valid_r v" and "rat_of v = of_int n"
  shows "roundToInteger v m = Inr n"
proof -
  from assms have "quotient_of (of_int n) = (num v, den v)" by (metis quotient_of_rat_of)
  then show ?thesis by (simp add: roundToInteger_def)
qed

lemma isInteger_iff: "valid_r v \<Longrightarrow> isInteger v \<longleftrightarrow> rat_of v \<in> \<int>"
proof
  assume "valid_r v" "rat_of v \<in> \<int>"
  then obtain n where "rat_of v = of_int n" by (auto elim: Ints_cases)
  with \<open>valid_r v\<close> have "quotient_of (of_int n) = (num v, den v)" by (metis quotient_of_rat_of)
  then show "isInteger v" by (simp add: isInteger_def)
qed (simp add: isInteger_def rat_of_def)

lemma compare_r_cases:
  assumes "valid_r a" and "valid_r b" and "compare_r a b = Inr s"
  shows "s \<le> 0 \<longleftrightarrow> rat_of a \<le> rat_of b" and "s \<ge> 0 \<longleftrightarrow> rat_of b \<le> rat_of a"
proof -
  have s: "of_int s = sgn (rat_of a - rat_of b)" by (rule compare_r_sound [OF assms])
  have "s \<le> 0 \<longleftrightarrow> of_int s \<le> (0::rat)" "s \<ge> 0 \<longleftrightarrow> of_int s \<ge> (0::rat)" by simp_all
  then show "s \<le> 0 \<longleftrightarrow> rat_of a \<le> rat_of b" "s \<ge> 0 \<longleftrightarrow> rat_of b \<le> rat_of a"
    by (auto simp only: s) (auto simp: sgn_if split: if_splits)
qed

lemma min_r_sound:
  "valid_r a \<Longrightarrow> valid_r b \<Longrightarrow> min_r a b = Inr c \<Longrightarrow> valid_r c \<and> rat_of c = min (rat_of a) (rat_of b)"
  using compare_r_cases [of a b] by (auto simp: min_r_def res_simps min_def)

lemma max_r_sound:
  "valid_r a \<Longrightarrow> valid_r b \<Longrightarrow> max_r a b = Inr c \<Longrightarrow> valid_r c \<and> rat_of c = max (rat_of a) (rat_of b)"
  using compare_r_cases [of a b] by (fastforce simp: max_r_def res_simps max_def)

lemma clamp_r_sound:
  assumes "valid_r x" and "valid_r a" and "valid_r b" and "clamp_r x a b = Inr c"
  shows "valid_r c \<and> rat_of c = max (rat_of a) (min (rat_of b) (rat_of x)) \<and> rat_of a \<le> rat_of b"
proof -
  from assms(4) obtain s m where s: "compare_r a b = Inr s" "\<not> s > 0"
    and m: "max_r x a = Inr m" "min_r m b = Inr c"
    by (auto simp: clamp_r_def res_simps split: if_splits)
  from compare_r_cases [OF assms(2,3) s(1)] s(2) have "rat_of a \<le> rat_of b" by auto
  moreover from max_r_sound [OF assms(1,2) m(1)] have "valid_r m" "rat_of m = max (rat_of x) (rat_of a)"
    by auto
  ultimately show ?thesis
    using min_r_sound [OF _ assms(3) m(2)] by (auto simp: max_def min_def)
qed

section \<open>The interface the timing code uses\<close>

text \<open>
  What \<open>video-timing.ts\<close> and \<open>studio-timing.ts\<close> rely on: a type of exact numbers with a meaning,
  canonical representations, and operations that return the exact result whenever it has a
  representation. Ticks and frames are products and quotients with the time base and the cadence.
\<close>

locale exact_rationals =
  fixes ok :: "'r \<Rightarrow> bool"
    and val :: "'r \<Rightarrow> rat"
    and mul :: "'r \<Rightarrow> 'r \<Rightarrow> 'e + 'r"
    and quo :: "'r \<Rightarrow> 'r \<Rightarrow> 'e + 'r"
    and ofint :: "int \<Rightarrow> 'e + 'r"
    and rnd :: "'r \<Rightarrow> rationalRounding \<Rightarrow> 'e + int"
  assumes mul_iff: "ok a \<Longrightarrow> ok b \<Longrightarrow> mul a b = Inr c \<longleftrightarrow> ok c \<and> val c = val a * val b"
    and quo_iff: "ok a \<Longrightarrow> ok b \<Longrightarrow> val b \<noteq> 0 \<Longrightarrow> quo a b = Inr c \<longleftrightarrow> ok c \<and> val c = val a / val b"
    and ofint_iff: "ofint n = Inr c \<longleftrightarrow> ok c \<and> val c = of_int n"
    and rnd_int: "ok a \<Longrightarrow> val a = of_int n \<Longrightarrow> rnd a m = Inr n"
    and rnd_floor: "ok a \<Longrightarrow> rnd a Floor = Inr \<lfloor>val a\<rfloor>"
begin

lemma ticks_value:
  "ok tb \<Longrightarrow> bindR (ofint t) (\<lambda>x. mul x tb) = Inr s \<Longrightarrow> ok s \<and> val s = of_int t * val tb"
  by (auto simp: bindR_eq_Inr ofint_iff mul_iff)

lemma ticks_roundtrip:
  assumes tb: "ok tb" "val tb \<noteq> 0" and s: "bindR (ofint t) (\<lambda>x. mul x tb) = Inr s"
  shows "bindR (quo s tb) (\<lambda>q. rnd q m) = Inr t"
proof -
  from s obtain x where x: "ofint t = Inr x" by (auto simp: bindR_eq_Inr)
  from tb s have "ok s" "val s = of_int t * val tb" using ticks_value by auto
  with x tb have "quo s tb = Inr x" by (simp add: quo_iff ofint_iff)
  with x show ?thesis by (simp add: ofint_iff rnd_int)
qed

lemma frame_roundtrip:
  assumes fr: "ok fr" "val fr \<noteq> 0" and s: "bindR (ofint i) (\<lambda>x. quo x fr) = Inr s"
  shows "bindR (mul s fr) (\<lambda>q. rnd q Floor) = Inr i"
proof -
  from s obtain x where x: "ofint i = Inr x" and q: "quo x fr = Inr s" by (auto simp: bindR_eq_Inr)
  with fr have "ok s" "val s = of_int i / val fr" by (auto simp: quo_iff ofint_iff)
  with x fr have "mul s fr = Inr x" by (simp add: mul_iff ofint_iff)
  with x show ?thesis by (simp add: ofint_iff rnd_int)
qed

lemma snap_value:
  assumes t: "ok t" and fr: "ok fr" "val fr > 0"
    and s: "bindR (bindR (mul t fr) (\<lambda>q. rnd q Floor)) (\<lambda>i. bindR (ofint i) (\<lambda>x. quo x fr)) = Inr s"
  shows "ok s" and "val s \<le> val t" and "val t < val s + 1 / val fr"
proof -
  from s obtain q i x where q: "mul t fr = Inr q" "rnd q Floor = Inr i"
    and x: "ofint i = Inr x" "quo x fr = Inr s"
    by (auto simp: bindR_eq_Inr)
  from t fr q have i: "i = \<lfloor>val t * val fr\<rfloor>" by (auto simp: mul_iff rnd_floor)
  from x fr show "ok s" by (auto simp: quo_iff ofint_iff)
  from x fr have v: "val s = of_int i / val fr" by (auto simp: quo_iff ofint_iff)
  have "of_int i \<le> val t * val fr" "val t * val fr < of_int i + 1"
    using floor_correct [of "val t * val fr"] by (auto simp: i)
  with fr(2) show "val s \<le> val t" "val t < val s + 1 / val fr"
    by (simp_all add: v pos_divide_le_eq pos_less_divide_eq add_divide_distrib [symmetric])
qed

end

interpretation exact: exact_rationals valid_r rat_of multiply divide_r fromInteger roundToInteger
  by unfold_locales
    (auto simp: multiply_iff divide_r_iff fromInteger_iff roundToInteger_int roundToInteger_floor)

lemma rescaleTicks_exact:
  assumes "valid_r tb" and "valid_r to" and "num to > 0" and "rescaleTicks t tb to mode = Inr (u, True)"
  shows "of_int u * rat_of to = of_int t * rat_of tb"
proof -
  from assms(4) obtain s q where s: "ticksToSeconds t tb = Inr s" and q: "divide_r s to = Inr q"
    and u: "roundToInteger q mode = Inr u" "isInteger q"
    by (auto simp: rescaleTicks_def res_simps)
  from s have sv: "valid_r s" "rat_of s = of_int t * rat_of tb"
    using exact.ticks_value [OF assms(1), of t s] by (auto simp: ticksToSeconds_def)
  have nz: "rat_of to \<noteq> 0" using assms(2,3) by simp
  from q sv nz assms(2) have qv: "valid_r q" "rat_of q = rat_of s / rat_of to"
    using divide_r_iff by auto
  then have "rat_of q = of_int u" using u by (simp add: isInteger_def roundToInteger_def rat_of_def)
  with qv sv nz show ?thesis by (simp add: field_simps)
qed

subsection \<open>Text\<close>

lemma parse_format: "valid_r r \<Longrightarrow> parseRational (formatRational r) = Inr r"
proof -
  assume r: "valid_r r"
  have "trim (formatRational r) = formatRational r"
    by (rule trim_id) (auto simp: formatRational_def show_int_nonspace dash_not_space)
  moreover have "split_at (CHR ''/'') (formatRational r) = (show_int (num r), Some (show_int (den r)))"
    by (simp add: formatRational_def split_at_append show_int_no_slash)
  ultimately show ?thesis
    using r by (simp add: parseRational_def rational_Inr_iff) (auto simp: valid_r_def rat_of_def)
qed

interpretation rational_text: codec formatRational "\<lambda>s. tryParseRational (Some s)" valid_r
proof
  fix r assume "valid_r r"
  then show "tryParseRational (Some (formatRational r)) = Some r"
    by (simp add: tryParseRational_def parse_format) (simp add: formatRational_def)
qed

lemma parseRational_sound: "parseRational s = Inr r \<Longrightarrow> valid_r r"
  by (auto simp: parseRational_def rational_Inr_iff split: prod.splits option.splits if_splits)

lemma coerceRational_valid: "coerceRational j = Some r \<Longrightarrow> valid_r r"
  by (cases j rule: coerceRational.cases)
    (auto simp: tryParseRational_def parseRational_sound rational_Inr_iff
      split: option.splits if_splits sum.splits)

lemma jsafe_int_of_int [simp]: "isSafeInteger n \<Longrightarrow> jsafe_int (JNum (of_int n)) = Some n"
  by simp

lemma coerceRational_wire:
  "valid_r r \<Longrightarrow>
     coerceRational (JObj [(''num'', JNum (of_int (num r))), (''den'', JNum (of_int (den r)))]) = Some r"
  using rational_of_reduced [of "num r" "den r"] by (simp add: valid_r_def)

subsection \<open>Decimal expansion\<close>

text \<open>The number a digit list denotes, most significant digit first.\<close>

fun digits_value :: "int list \<Rightarrow> int" where
  "digits_value [] = 0"
| "digits_value (d # ds) = d * 10 ^ length ds + digits_value ds"

lemma decimal_loop_spec:
  assumes "0 < d"
  shows "0 \<le> r \<Longrightarrow> r < d \<Longrightarrow> decimal_loop k d r = Inr (ds, r') \<Longrightarrow>
    length ds = k \<and> (\<forall>x \<in> set ds. 0 \<le> x \<and> x < 10) \<and> 0 \<le> r' \<and> r' < d \<and>
    r * 10 ^ k = digits_value ds * d + r'"
proof (induction k arbitrary: r ds)
  case (Suc k)
  define q where "q = r * 10 div d"
  have step: "r * 10 - q * d = r * 10 mod d" by (simp add: q_def minus_div_mult_eq_mod)
  from Suc.prems(3) obtain ds' where ds: "ds = q # ds'"
    and rest: "decimal_loop k d (r * 10 - q * d) = Inr (ds', r')"
    by (auto simp: res_simps Let_def q_def)
  have "q * d < 10 * d"
    using step Suc.prems(2) pos_mod_sign [OF assms, of "r * 10"] by linarith
  then have q: "0 \<le> q" "q < 10"
    using Suc.prems(1) assms by (auto simp: q_def pos_imp_zdiv_nonneg_iff)
  have IH: "length ds' = k \<and> (\<forall>x \<in> set ds'. 0 \<le> x \<and> x < 10) \<and> 0 \<le> r' \<and> r' < d \<and>
      (r * 10 - q * d) * 10 ^ k = digits_value ds' * d + r'"
    using Suc.IH [OF _ _ rest] assms by (simp add: step)
  then have "r * 10 ^ Suc k = (q * 10 ^ k + digits_value ds') * d + r'"
    by (simp add: algebra_simps)
  with IH q show ?case by (simp add: ds)
qed auto

lemma digits_value_snoc: "digits_value (xs @ [x]) = digits_value xs * 10 + x"
  by (induction xs) (auto simp: algebra_simps)

lemma carry_loop_spec:
  "\<forall>x \<in> set ds. 0 \<le> x \<and> x < 10 \<Longrightarrow> c \<in> {0, 1} \<Longrightarrow> carry_loop ds c = (ds', c') \<Longrightarrow>
    length ds' = length ds \<and> (\<forall>x \<in> set ds'. 0 \<le> x \<and> x < 10) \<and> c' \<in> {0, 1} \<and>
    c' * 10 ^ length ds + digits_value (rev ds') = digits_value (rev ds) + c"
proof (induction ds c arbitrary: ds' c' rule: carry_loop.induct)
  case (2 d ds c)
  show ?case
  proof (cases "c > 0")
    case False
    with 2 show ?thesis by auto
  next
    case True
    with 2 have c: "c = 1" by auto
    obtain e k where ek: "carry_loop ds (if d + 1 \<ge> 10 then 1 else 0) = (e, k)" by fastforce
    then have IH: "length e = length ds \<and> (\<forall>x \<in> set e. 0 \<le> x \<and> x < 10) \<and> k \<in> {0, 1} \<and>
        k * 10 ^ length ds + digits_value (rev e) = digits_value (rev ds) + (if d + 1 \<ge> 10 then 1 else 0)"
      using 2 True c by (intro "2.IH") auto
    have d: "0 \<le> d" "d < 10" using 2 by auto
    have out: "ds' = js_rem (d + 1) 10 # e" "c' = k" using 2(4) True c ek by auto
    show ?thesis
    proof (cases "d = 9")
      case True
      with IH show ?thesis by (auto simp: out c js_rem_nonneg digits_value_snoc algebra_simps)
    next
      case False
      with IH d show ?thesis by (auto simp: out c js_rem_nonneg digits_value_snoc algebra_simps)
    qed
  qed
qed auto

lemma decimal_parts_spec:
  assumes v: "valid_r v" and p: "decimal_parts v k = Inr (w, ds)"
  shows "length ds = nat k \<and> (\<forall>x \<in> set ds. 0 \<le> x \<and> x < 10) \<and>
    w * 10 ^ nat k + digits_value ds = \<lfloor>\<bar>rat_of v\<bar> * 10 ^ nat k + 1 / 2\<rfloor>"
proof -
  let ?n = "\<bar>num v\<bar>" and ?d = "den v" and ?k = "nat k"
  have d: "?d > 0" using v by (rule valid_r_den)
  from p obtain ds0 r where loop: "decimal_loop ?k ?d (?n mod ?d) = Inr (ds0, r)"
    and out: "(if r * 2 \<ge> ?d then case carry_loop (rev ds0) 1 of (x, c) \<Rightarrow> (?n div ?d + c, rev x)
               else (?n div ?d, ds0)) = (w, ds)"
    by (auto simp: decimal_parts_def floorDivide_eq [OF d] res_simps Let_def
        split: if_splits prod.splits)
  from decimal_loop_spec [OF d _ _ loop] d
  have L: "length ds0 = ?k" "\<forall>x \<in> set ds0. 0 \<le> x \<and> x < 10" "0 \<le> r" "r < ?d"
    and eq: "(?n mod ?d) * 10 ^ ?k = digits_value ds0 * ?d + r" by auto
  have "?n * 10 ^ ?k = (?n div ?d * ?d + ?n mod ?d) * 10 ^ ?k" by simp
  also have "\<dots> = ?d * (?n div ?d * 10 ^ ?k + digits_value ds0) + r"
    by (simp only: distrib_right eq) (simp add: algebra_simps)
  finally have n: "?n * 10 ^ ?k = ?d * (?n div ?d * 10 ^ ?k + digits_value ds0) + r" .
  with L d have dm: "?n * 10 ^ ?k div ?d = ?n div ?d * 10 ^ ?k + digits_value ds0"
      "?n * 10 ^ ?k mod ?d = r"
    by (auto intro: int_div_pos_eq int_mod_pos_eq)
  have "\<bar>rat_of v\<bar> * 10 ^ ?k = of_int (?n * 10 ^ ?k) / of_int ?d"
    using d by (simp add: rat_of_def)
  then have fl: "\<lfloor>\<bar>rat_of v\<bar> * 10 ^ ?k + 1 / 2\<rfloor> =
      (if r * 2 \<ge> ?d then ?n div ?d * 10 ^ ?k + digits_value ds0 + 1
       else ?n div ?d * 10 ^ ?k + digits_value ds0)"
    using half_up_div [OF d, of "?n * 10 ^ ?k"] floor_half_up [OF d, of "?n * 10 ^ ?k"]
    by (simp only: dm)
  show ?thesis
  proof (cases "r * 2 \<ge> ?d")
    case True
    obtain x c where xc: "carry_loop (rev ds0) 1 = (x, c)" by fastforce
    with carry_loop_spec [of "rev ds0" 1 x c] L(2)
    have "length x = length ds0" "\<forall>y \<in> set x. 0 \<le> y \<and> y < 10"
      "c * 10 ^ length ds0 + digits_value (rev x) = digits_value ds0 + 1" by auto
    with True out xc L(1) fl show ?thesis by (auto simp: algebra_simps)
  next
    case False
    with out L fl show ?thesis by auto
  qed
qed

section \<open>Properties\<close>

lemma valid_ntsc [simp]:
  "valid_r (mk_r 30000 1001)" "valid_r (mk_r 1 90000)" "valid_r (mk_r 1001 30000)" "valid_r (mk_r 5 2)"
  by code_simp+

text \<open>
  C34. Multiplication and division of time values are exact and fail only when they must: for
  well-formed operands, \<open>multiply\<close> returns a value exactly when the true product has a reduced
  safe-integer representation, and then returns that product; the same holds of \<open>divide_r\<close> and the
  true quotient for a nonzero divisor.
\<close>

theorem multiply_divide_exact:
  assumes "valid_r a" and "valid_r b"
  shows "(multiply a b = Inr c \<longleftrightarrow> valid_r c \<and> rat_of c = rat_of a * rat_of b) \<and>
    (num b \<noteq> 0 \<longrightarrow> (divide_r a b = Inr c \<longleftrightarrow> valid_r c \<and> rat_of c = rat_of a / rat_of b))"
  using multiply_iff [OF assms] divide_r_iff [OF assms] assms(2) by simp

theorem multiply_divide_exact_witness:
  "multiply (mk_r 30000 1001) (mk_r 1001 30000) = Inr (mk_r 1 1) \<and>
   divide_r (mk_r 5 2) (mk_r 1 90000) = Inr (mk_r 225000 1)"
proof -
  have "valid_r (mk_r 1 1)" "valid_r (mk_r 225000 1)" by code_simp+
  moreover have "rat_of (mk_r 1 1) = rat_of (mk_r 30000 1001) * rat_of (mk_r 1001 30000)"
    "rat_of (mk_r 225000 1) = rat_of (mk_r 5 2) / rat_of (mk_r 1 90000)"
    by (simp_all add: rat_of_def)
  ultimately show ?thesis
    using multiply_divide_exact [of "mk_r 30000 1001" "mk_r 1001 30000" "mk_r 1 1"]
      multiply_divide_exact [of "mk_r 5 2" "mk_r 1 90000" "mk_r 225000 1"] by simp
qed

text \<open>
  Whatever \<open>add_r\<close>, \<open>subtract\<close>, \<open>compare_r\<close>, \<open>min_r\<close>, \<open>max_r\<close> and \<open>clamp_r\<close> return is the exact
  answer: the sum and difference keep the representation invariant and have the exact value, the
  comparison is the sign of the exact difference, and a clamped value lies between its bounds.
\<close>

theorem add_compare_clamp_exact:
  assumes "valid_r a" and "valid_r b" and "valid_r x"
  shows "(\<forall>c. add_r a b = Inr c \<longrightarrow> valid_r c \<and> rat_of c = rat_of a + rat_of b) \<and>
    (\<forall>c. subtract a b = Inr c \<longrightarrow> valid_r c \<and> rat_of c = rat_of a - rat_of b) \<and>
    (\<forall>s. compare_r a b = Inr s \<longrightarrow> of_int s = sgn (rat_of a - rat_of b)) \<and>
    (\<forall>c. clamp_r x a b = Inr c \<longrightarrow>
      valid_r c \<and> rat_of c = max (rat_of a) (min (rat_of b) (rat_of x)) \<and> rat_of a \<le> rat_of b)"
  using add_r_sound [OF assms(1,2)] subtract_sound [OF assms(1,2)] compare_r_sound [OF assms(1,2)]
    clamp_r_sound [OF assms(3,1,2)] by blast

theorem add_compare_clamp_exact_witness:
  "add_r (mk_r 5 2) (mk_r 1001 30000) = Inr (mk_r 76001 30000) \<and>
   rat_of (mk_r 76001 30000) = rat_of (mk_r 5 2) + rat_of (mk_r 1001 30000) \<and>
   clamp_r (mk_r 5 2) (mk_r 1 90000) (mk_r 1001 30000) = Inr (mk_r 1001 30000)"
proof -
  have add: "add_r (mk_r 5 2) (mk_r 1001 30000) = Inr (mk_r 76001 30000)" by code_simp
  have "rat_of (mk_r 76001 30000) = rat_of (mk_r 5 2) + rat_of (mk_r 1001 30000)"
    using add_compare_clamp_exact [of "mk_r 5 2" "mk_r 1001 30000" "mk_r 5 2"] add valid_ntsc by blast
  moreover have "clamp_r (mk_r 5 2) (mk_r 1 90000) (mk_r 1001 30000) = Inr (mk_r 1001 30000)" by code_simp
  ultimately show ?thesis using add by blast
qed

text \<open>
  Collapsing a well-formed time onto an integer follows the named rule exactly: floor and ceiling
  of the exact value, truncation towards zero, and, for \<open>Nearest\<close>, the nearest integer with halves
  moving away from zero. The division behind it is exact whatever quotient the floating-point
  estimate started from.
\<close>

theorem roundToInteger_exact:
  assumes "valid_r v"
  shows "roundToInteger v Floor = Inr \<lfloor>rat_of v\<rfloor> \<and> roundToInteger v Ceil = Inr \<lceil>rat_of v\<rceil> \<and>
    roundToInteger v Trunc = Inr (if rat_of v < 0 then \<lceil>rat_of v\<rceil> else \<lfloor>rat_of v\<rfloor>) \<and>
    (\<forall>i. roundToInteger v Nearest = Inr i \<longrightarrow>
       of_int i = sgn (rat_of v) * of_int \<lfloor>\<bar>rat_of v\<bar> + 1 / 2\<rfloor>) \<and>
    (\<forall>est. floorDivide_from est (num v) (den v) = (num v div den v, num v mod den v))"
  using assms roundToInteger_floor roundToInteger_ceil roundToInteger_trunc roundToInteger_nearest
    floorDivide_from_eq valid_r_den(1) by blast

theorem roundToInteger_exact_witness:
  "roundToInteger (mk_r 5 2) Nearest = Inr 3 \<and> of_int 3 = sgn (rat_of (mk_r 5 2)) * of_int \<lfloor>\<bar>rat_of (mk_r 5 2)\<bar> + 1 / 2\<rfloor>
   \<and> floorDivide_from 7 5 2 = (2, 1)"
proof -
  have "roundToInteger (mk_r 5 2) Nearest = Inr 3" by code_simp
  then show ?thesis using roundToInteger_exact [of "mk_r 5 2"] by auto
qed

text \<open>
  Ticks survive the trip through seconds: in a well-formed positive time base, whenever a tick
  count has a duration in seconds, converting that duration back gives the same tick count under
  every rounding rule, and the duration is reported as exact in that time base. Rescaling between two
  time bases returns the exact tick count whenever it reports \<open>exact\<close>.
\<close>

theorem ticks_seconds_roundtrip:
  assumes "valid_r tb" and "num tb > 0" and "ticksToSeconds t tb = Inr s"
  shows "secondsToTicks s tb mode = Inr t \<and> isExactInTimeBase s tb = Inr True \<and>
    (\<forall>to u. valid_r to \<and> num to > 0 \<and> rescaleTicks t tb to mode = Inr (u, True) \<longrightarrow>
       of_int u * rat_of to = of_int t * rat_of tb)"
proof -
  have nz: "rat_of tb \<noteq> 0" using assms(1,2) by simp
  have s: "bindR (fromInteger t) (\<lambda>x. multiply x tb) = Inr s"
    using assms(3) by (simp add: ticksToSeconds_def)
  have sv: "valid_r s \<and> rat_of s = of_int t * rat_of tb" by (rule exact.ticks_value [OF assms(1) s])
  have rt: "bindR (divide_r s tb) (\<lambda>q. roundToInteger q mode) = Inr t"
    by (rule exact.ticks_roundtrip [OF assms(1) nz s])
  then obtain q where q: "divide_r s tb = Inr q" by (auto simp: res_simps)
  then have "valid_r q" "rat_of q = of_int t" using divide_r_iff [of s tb q] sv assms(1) nz by auto
  with q have ex: "isExactInTimeBase s tb = Inr True" by (simp add: isExactInTimeBase_def isInteger_iff)
  show ?thesis
    using rt ex rescaleTicks_exact [OF assms(1)] unfolding secondsToTicks_def by blast
qed

theorem ticks_seconds_roundtrip_witness:
  "ticksToSeconds 3003 (mk_r 1 90000) = Inr (mk_r 1001 30000) \<and>
   secondsToTicks (mk_r 1001 30000) (mk_r 1 90000) Nearest = Inr 3003"
proof -
  have t: "ticksToSeconds 3003 (mk_r 1 90000) = Inr (mk_r 1001 30000)" by code_simp
  show ?thesis using t ticks_seconds_roundtrip [OF _ _ t, of Nearest] by simp
qed

text \<open>
  Snapping to a frame: at a well-formed positive cadence the start time of frame \<open>i\<close> belongs to
  frame \<open>i\<close>, a snapped time is not after the time it came from and less than one frame before it, and
  snapping again changes nothing.
\<close>

theorem snapToFrame_correct:
  assumes "valid_r fr" and "num fr > 0"
  shows "(\<forall>i s. frameStartTime i fr = Inr s \<longrightarrow> frameIndexAt s fr = Inr i) \<and>
    (\<forall>t s. valid_r t \<and> snapToFrame t fr = Inr s \<longrightarrow>
       valid_r s \<and> rat_of s \<le> rat_of t \<and> rat_of t < rat_of s + 1 / rat_of fr \<and>
       snapToFrame s fr = Inr s)"
proof -
  have pos: "rat_of fr > 0" using assms by (simp add: rat_of_pos)
  then have nz: "rat_of fr \<noteq> 0" by simp
  have idx: "frameIndexAt s fr = Inr i" if "frameStartTime i fr = Inr s" for i s
    using exact.frame_roundtrip [OF assms(1) nz, of i s] that
    by (simp add: frameStartTime_def frameIndexAt_def)
  have snap: "valid_r s \<and> rat_of s \<le> rat_of t \<and> rat_of t < rat_of s + 1 / rat_of fr \<and>
      snapToFrame s fr = Inr s" if t: "valid_r t" and s: "snapToFrame t fr = Inr s" for t s
  proof -
    from s obtain i where i: "frameStartTime i fr = Inr s" by (auto simp: snapToFrame_def res_simps)
    then have "snapToFrame s fr = Inr s" by (simp add: snapToFrame_def idx)
    with exact.snap_value [OF t assms(1) pos, of s] s show ?thesis
      by (simp add: snapToFrame_def frameIndexAt_def frameStartTime_def)
  qed
  show ?thesis using idx snap by blast
qed

theorem snapToFrame_correct_witness:
  "snapToFrame (mk_r 5 2) (mk_r 30000 1001) = Inr (mk_r 37037 15000) \<and>
   snapToFrame (mk_r 37037 15000) (mk_r 30000 1001) = Inr (mk_r 37037 15000)"
proof -
  have s: "snapToFrame (mk_r 5 2) (mk_r 30000 1001) = Inr (mk_r 37037 15000)" by code_simp
  have "num (mk_r 30000 1001) > 0" by simp
  then show ?thesis
    using s snapToFrame_correct [OF valid_ntsc(1)] valid_ntsc(4) by blast
qed

text \<open>
  Text and transport: a well-formed rational printed by \<open>formatRational\<close> is read back unchanged
  by \<open>parseRational\<close>, an object with its two fields is accepted unchanged by \<open>coerceRational\<close>, and
  nothing \<open>coerceRational\<close> accepts breaks the representation invariant.
\<close>

theorem rational_text_roundtrip:
  "(\<forall>r. valid_r r \<longrightarrow> parseRational (formatRational r) = Inr r \<and>
      coerceRational (JObj [(''num'', JNum (of_int (num r))), (''den'', JNum (of_int (den r)))]) = Some r) \<and>
   (\<forall>r r'. valid_r r \<and> valid_r r' \<and> formatRational r = formatRational r' \<longrightarrow> r = r') \<and>
   (\<forall>j r. coerceRational j = Some r \<longrightarrow> valid_r r)"
  using parse_format coerceRational_wire coerceRational_valid rational_text.enc_inj by blast

theorem rational_text_roundtrip_witness:
  "formatRational (mk_r 30000 1001) = ''30000/1001'' \<and> parseRational ''30000/1001'' = Inr (mk_r 30000 1001)"
proof -
  have f: "formatRational (mk_r 30000 1001) = ''30000/1001''"
    by (simp add: formatRational_def show_int_def show_nat.simps digit_char_def)
  have "parseRational (formatRational (mk_r 30000 1001)) = Inr (mk_r 30000 1001)"
    using rational_text_roundtrip valid_ntsc(1) by blast
  with f show ?thesis by simp
qed

text \<open>
  The decimal expansion shown to people and passed to ffmpeg is correctly rounded: the whole part
  and the digits of a well-formed value, read as one integer, are the value's magnitude times the
  power of ten rounded to the nearest integer with halves up, with exactly as many digits as asked
  for, each between 0 and 9.
\<close>

theorem decimal_expansion_rounded:
  assumes "valid_r v" and "decimal_parts v k = Inr (w, ds)"
  shows "length ds = nat k \<and> (\<forall>x \<in> set ds. 0 \<le> x \<and> x < 10) \<and>
    w * 10 ^ nat k + digits_value ds = \<lfloor>\<bar>rat_of v\<bar> * 10 ^ nat k + 1 / 2\<rfloor>"
  using decimal_parts_spec [OF assms] .

theorem decimal_expansion_rounded_witness:
  "decimal_parts (mk_r 30000 1001) 2 = Inr (29, [9, 7]) \<and>
   29 * 10 ^ 2 + digits_value [9, 7] = \<lfloor>\<bar>rat_of (mk_r 30000 1001)\<bar> * 10 ^ 2 + 1 / 2\<rfloor> \<and>
   toDecimalString (mk_r 30000 1001) 2 = Inr ''29.97''"
proof -
  have p: "decimal_parts (mk_r 30000 1001) 2 = Inr (29, [9, 7])" by code_simp
  have "toDecimalString (mk_r 30000 1001) 2 = Inr ''29.97''" by code_simp
  with p decimal_expansion_rounded [OF valid_ntsc(1) p] show ?thesis by simp
qed

end
