(* ===== verification/VideoTiming.thy ===== *)
theory VideoTiming
  imports RationalTime
begin

text \<open>
  The original frame timestamp mapping of a video source: \<open>server/src/utils/video-timing.ts\<close>.

  The records hold the fields of \<open>VideoStreamInfo\<close> and \<open>VideoPacketInfo\<close> the mapping reads; the two
  rationals of a stream arrive as untrusted JSON values. \<open>null\<close> and an absent field are \<open>None\<close>.
  The timing map is built from the probe, converts between absolute source ticks and seconds relative
  to the stream origin, and decides the output cadence. The lemmas show that a built map has a usable
  exact time base and its origin at or before every keyframe, that ticks and timeline seconds
  correspond one to one, and exactly when an export keeps its timestamps, is resampled or is refused.
\<close>

record videoStreamInfo =
  vs_timeBase :: "int option"
  vs_timeBaseRational :: json
  vs_frameRateRational :: json

record videoPacketInfo =
  vp_totalDuration :: int
  vp_packetCount :: int
  vp_keyframePts :: "int list"
  vp_keyframeOwnDuration :: "int list"
  vp_startPts :: "int option"
  vp_variableFrameRate :: "bool option"

record videoTimingMap =
  timeBase :: timeBase
  originTicks :: int
  cadence :: "rational option"
  variableFrameRate :: bool
  keyframeTicks :: "int list"
  keyframeDurationTicks :: "int list"
  totalDurationTicks :: int
  packetCount :: int

datatype videoTimingError =
    NeedsSource
  | NeedsDeclaredCadence nat

definition resolveSourceTimeBase :: "videoStreamInfo \<Rightarrow> timeBase option" where
  "resolveSourceTimeBase vs =
     (let exact = coerceRational (vs_timeBaseRational vs);
          fallback =
            (case vs_timeBase vs of
               None \<Rightarrow> None
             | Some denominator \<Rightarrow>
                 if denominator \<noteq> 0 \<and> isSafeInteger denominator \<and> denominator > 0
                 then (case rational 1 denominator of Inl _ \<Rightarrow> None | Inr r \<Rightarrow> Some r)
                 else None)
      in case exact of
           Some e \<Rightarrow> if num e > 0 then Some e else fallback
         | None \<Rightarrow> fallback)"

definition resolveSourceCadence :: "videoStreamInfo \<Rightarrow> rational option" where
  "resolveSourceCadence vs =
     (case coerceRational (vs_frameRateRational vs) of
        Some exact \<Rightarrow> if num exact > 0 then Some exact else None
      | None \<Rightarrow> None)"

definition isVariableFrameRate :: "videoPacketInfo \<Rightarrow> bool" where
  "isVariableFrameRate packets =
     (case vp_variableFrameRate packets of
        Some flag \<Rightarrow> flag
      | None \<Rightarrow>
          let durations = vp_keyframeOwnDuration packets
          in list_ex (\<lambda>duration. duration \<noteq> durations ! 0) durations)"

definition resolveOriginTicks :: "videoPacketInfo \<Rightarrow> int" where
  "resolveOriginTicks packets =
     (case vp_startPts packets of
        Some start \<Rightarrow> start
      | None \<Rightarrow>
          let keyframePts = vp_keyframePts packets
          in foldl (\<lambda>origin pts. if pts < origin then pts else origin)
               (if length keyframePts > 0 then keyframePts ! 0 else 0) keyframePts)"

definition buildVideoTimingMap :: "videoStreamInfo \<Rightarrow> videoPacketInfo \<Rightarrow> videoTimingMap option" where
  "buildVideoTimingMap vs packets =
     (case resolveSourceTimeBase vs of
        None \<Rightarrow> None
      | Some tb \<Rightarrow> Some
          \<lparr>timeBase = tb,
           originTicks = resolveOriginTicks packets,
           cadence = resolveSourceCadence vs,
           variableFrameRate = isVariableFrameRate packets,
           keyframeTicks = vp_keyframePts packets,
           keyframeDurationTicks = vp_keyframeOwnDuration packets,
           totalDurationTicks = vp_totalDuration packets,
           packetCount = vp_packetCount packets\<rparr>)"

definition timingMapOrigin :: "videoTimingMap \<Rightarrow> rational_error + rational" where
  "timingMapOrigin m = ticksToSeconds (originTicks m) (timeBase m)"

definition timingMapDuration :: "videoTimingMap \<Rightarrow> rational_error + rational" where
  "timingMapDuration m = ticksToSeconds (totalDurationTicks m) (timeBase m)"

definition keyframeTimes :: "videoTimingMap \<Rightarrow> rational_error + rational list" where
  "keyframeTimes m =
     traverseR (\<lambda>ticks. ticksToSeconds (ticks - originTicks m) (timeBase m)) (keyframeTicks m)"

definition ticksToSourceTime :: "videoTimingMap \<Rightarrow> int \<Rightarrow> rational_error + rational" where
  "ticksToSourceTime m ticks = ticksToSeconds (ticks - originTicks m) (timeBase m)"

definition sourceTimeToTicks :: "videoTimingMap \<Rightarrow> rational \<Rightarrow> rational_error + int" where
  "sourceTimeToTicks m seconds =
     mapR (\<lambda>t. t + originTicks m) (secondsToTicks seconds (timeBase m) Nearest)"

definition timingMapTrackTimescale :: "videoTimingMap \<Rightarrow> rational_error + int" where
  "timingMapTrackTimescale m = toTrackTimescale (timeBase m)"

subsection \<open>Output cadence\<close>

datatype outputCadenceMode = Passthrough | Convert

record outputCadenceDecision =
  ocd_mode :: outputCadenceMode
  ocd_cadence :: "rational option"
  ocd_reason :: string

definition resolveOutputCadence ::
  "videoTimingMap list \<Rightarrow> rational option \<Rightarrow> videoTimingError + outputCadenceDecision" where
  "resolveOutputCadence sources declaredCadence =
     (case sources of
        [] \<Rightarrow> Inl NeedsSource
      | source # rest \<Rightarrow>
          if length sources > 1 then
            (case declaredCadence of
               None \<Rightarrow> Inl (NeedsDeclaredCadence (length sources))
             | Some c \<Rightarrow> Inr
                 \<lparr>ocd_mode = Convert, ocd_cadence = Some c,
                  ocd_reason = ''Composition of '' @ show_nat (length sources) @
                    '' sources onto the declared cadence '' @ formatRational c @ ''.''\<rparr>)
          else
            (case declaredCadence of
               None \<Rightarrow> Inr
                 \<lparr>ocd_mode = Passthrough, ocd_cadence = None,
                  ocd_reason =
                    (if variableFrameRate source
                     then ''Single variable-frame-rate source; its presentation timestamps are preserved.''
                     else ''Single source; its presentation timestamps are preserved.'')\<rparr>
             | Some c \<Rightarrow>
                 if \<not> variableFrameRate source \<and>
                    (case cadence source of None \<Rightarrow> False | Some own \<Rightarrow> equals own c)
                 then Inr
                   \<lparr>ocd_mode = Passthrough, ocd_cadence = None,
                    ocd_reason = ''Declared cadence '' @ formatRational c @
                      '' is the source's own; nothing is resampled.''\<rparr>
                 else Inr
                   \<lparr>ocd_mode = Convert, ocd_cadence = Some c,
                    ocd_reason =
                      (if variableFrameRate source
                       then ''A variable-frame-rate source is resampled onto the declared cadence '' @
                         formatRational c @
                         ''; the original timing is preserved only in the source file.''
                       else ''The source cadence is resampled onto the declared cadence '' @
                         formatRational c @ ''.'')\<rparr>))"

definition deriveCommonCadence :: "videoTimingMap list \<Rightarrow> rational option" where
  "deriveCommonCadence sources =
     (case sources of
        [] \<Rightarrow> None
      | first # rest \<Rightarrow>
          if variableFrameRate first then None
          else (case cadence first of
                  None \<Rightarrow> None
                | Some c \<Rightarrow>
                    if list_all (\<lambda>source. \<not> variableFrameRate source \<and>
                         (case cadence source of None \<Rightarrow> False | Some own \<Rightarrow> equals own c)) rest
                    then Some c else None))"

section \<open>Lemmas\<close>

definition timing_ok :: "videoTimingMap \<Rightarrow> bool" where
  "timing_ok m \<longleftrightarrow> valid_r (timeBase m) \<and> num (timeBase m) > 0 \<and>
     (case cadence m of None \<Rightarrow> True | Some c \<Rightarrow> valid_r c \<and> num c > 0)"

definition runs_at :: "videoTimingMap \<Rightarrow> rational \<Rightarrow> bool" where
  "runs_at m c \<longleftrightarrow> \<not> variableFrameRate m \<and> cadence m = Some c"

lemma equals_eq [simp]: "equals a b \<longleftrightarrow> a = b"
  by (auto simp: equals_def)

lemma smallest_le:
  "foldl (\<lambda>o' p. if p < o' then p else o') a xs \<le> a \<and>
   (\<forall>x \<in> set xs. foldl (\<lambda>o' p. if p < o' then p else o') a xs \<le> (x::int))"
  by (induction xs arbitrary: a) (force+)

lemma smallest_in:
  "foldl (\<lambda>o' p. if p < o' then p else o') a xs \<in> insert (a::int) (set xs)"
  by (induction xs arbitrary: a) force+

lemma resolveOriginTicks_keyframes:
  assumes "vp_startPts p = None" and "vp_keyframePts p \<noteq> []"
  shows "resolveOriginTicks p = Min (set (vp_keyframePts p))"
proof -
  let ?ks = "vp_keyframePts p"
  have o: "resolveOriginTicks p = foldl (\<lambda>o' p. if p < o' then p else o') (?ks ! 0) ?ks"
    using assms by (simp add: resolveOriginTicks_def Let_def)
  have "?ks ! 0 \<in> set ?ks" using assms(2) by (cases ?ks) auto
  then have "resolveOriginTicks p \<in> set ?ks" using smallest_in [of "?ks ! 0" ?ks] by (auto simp: o)
  moreover have "\<forall>k \<in> set ?ks. resolveOriginTicks p \<le> k" using smallest_le [of "?ks ! 0" ?ks] by (simp add: o)
  ultimately show ?thesis by (auto intro!: Min_eqI [symmetric])
qed

lemma resolveSourceTimeBase_ok:
  "resolveSourceTimeBase vs = Some tb \<Longrightarrow> valid_r tb \<and> num tb > 0"
  by (auto simp: resolveSourceTimeBase_def Let_def coerceRational_valid rational_Inr_iff
      simp flip: rat_of_pos split: option.splits if_splits sum.splits)

lemma buildVideoTimingMap_ok: "buildVideoTimingMap vs p = Some m \<Longrightarrow> timing_ok m"
  using resolveSourceTimeBase_ok [of vs]
  by (auto simp: buildVideoTimingMap_def timing_ok_def resolveSourceCadence_def coerceRational_valid
      split: option.splits if_splits)

lemma sourceTime_ticks:
  assumes "timing_ok m" and "ticksToSourceTime m t = Inr s"
  shows "sourceTimeToTicks m s = Inr t"
    and "valid_r s" and "rat_of s = of_int (t - originTicks m) * rat_of (timeBase m)"
proof -
  have tb: "valid_r (timeBase m)" "rat_of (timeBase m) \<noteq> 0" using assms(1) by (auto simp: timing_ok_def)
  have s: "bindR (fromInteger (t - originTicks m)) (\<lambda>x. multiply x (timeBase m)) = Inr s"
    using assms(2) by (simp add: ticksToSourceTime_def ticksToSeconds_def)
  show "sourceTimeToTicks m s = Inr t"
    using exact.ticks_roundtrip [OF tb s, of Nearest] by (simp add: sourceTimeToTicks_def secondsToTicks_def)
  show "valid_r s" "rat_of s = of_int (t - originTicks m) * rat_of (timeBase m)"
    using exact.ticks_value [OF tb(1) s] by auto
qed

lemma deriveCommonCadence_iff:
  "deriveCommonCadence sources = Some c \<longleftrightarrow> sources \<noteq> [] \<and> (\<forall>m \<in> set sources. runs_at m c)"
  by (cases sources) (auto simp: deriveCommonCadence_def runs_at_def list_all_iff split: option.splits)

section \<open>Properties\<close>

text \<open>
  A timing map built from a probe is usable: its time base is a well-formed positive rational,
  its cadence, when it has one, is too, and when the packet scan recorded no origin the map's origin
  is the earliest keyframe. A map is refused only when the stream declares no positive time base.
\<close>

theorem buildVideoTimingMap_usable:
  "(\<forall>m. buildVideoTimingMap vs p = Some m \<longrightarrow>
      timing_ok m \<and> keyframeTicks m = vp_keyframePts p \<and>
      (vp_startPts p = None \<and> vp_keyframePts p \<noteq> [] \<longrightarrow> originTicks m = Min (set (keyframeTicks m)))) \<and>
   (buildVideoTimingMap vs p = None \<longleftrightarrow> resolveSourceTimeBase vs = None)"
  using buildVideoTimingMap_ok [of vs p] resolveOriginTicks_keyframes [of p]
  by (auto simp: buildVideoTimingMap_def split: option.splits)

theorem buildVideoTimingMap_usable_witness:
  "let vs = \<lparr>vs_timeBase = Some 90000, vs_timeBaseRational = JUndefined,
        vs_frameRateRational = JObj [(''num'', JNum 30000), (''den'', JNum 1001)]\<rparr>;
      p = \<lparr>vp_totalDuration = 9009, vp_packetCount = 3, vp_keyframePts = [3003, 0, 6006],
        vp_keyframeOwnDuration = [3003, 3003, 3003], vp_startPts = None, vp_variableFrameRate = None\<rparr>
   in \<exists>m. buildVideoTimingMap vs p = Some m \<and> originTicks m = 0 \<and> cadence m = Some (mk_r 30000 1001)"
  (is "let vs = ?vs; p = ?p in _")
proof -
  have tb: "resolveSourceTimeBase ?vs = Some (mk_r 1 90000)" by code_simp
  have c: "resolveSourceCadence ?vs = Some (mk_r 30000 1001)" by code_simp
  obtain m where m: "buildVideoTimingMap ?vs ?p = Some m" and mc: "cadence m = Some (mk_r 30000 1001)"
    by (simp add: buildVideoTimingMap_def tb c)
  from buildVideoTimingMap_usable [of ?vs ?p] m have "originTicks m = Min (set (vp_keyframePts ?p))"
    by simp
  then have "originTicks m = 0" by simp
  with m mc show ?thesis by auto
qed

text \<open>
  Timeline seconds and absolute source ticks correspond one to one: in a usable map, whenever a
  source tick has a time relative to the origin, that time is exactly its distance from the origin in
  ticks times the time base, and converting it back gives the same tick, so a trim at zero lands on
  the stream's own origin.
\<close>

theorem sourceTime_roundtrip:
  assumes "timing_ok m"
  shows "(\<forall>t s. ticksToSourceTime m t = Inr s \<longrightarrow> sourceTimeToTicks m s = Inr t \<and>
      valid_r s \<and> rat_of s = of_int (t - originTicks m) * rat_of (timeBase m)) \<and>
    sourceTimeToTicks m RATIONAL_ZERO = Inr (originTicks m) \<and>
    (\<forall>ks. keyframeTimes m = Inr ks \<longrightarrow>
      list_all2 (\<lambda>t s. sourceTimeToTicks m s = Inr t) (keyframeTicks m) ks)"
proof -
  have zero: "ticksToSourceTime m (originTicks m) = Inr RATIONAL_ZERO"
  proof -
    have v: "valid_r (timeBase m)" using assms by (simp add: timing_ok_def)
    have z: "valid_r RATIONAL_ZERO" "rat_of RATIONAL_ZERO = 0"
      by (simp_all add: RATIONAL_ZERO_def valid_r_def isSafeInteger_def rat_of_def)
    have "fromInteger 0 = Inr RATIONAL_ZERO" using z by (simp add: fromInteger_iff)
    moreover have "multiply RATIONAL_ZERO (timeBase m) = Inr RATIONAL_ZERO"
      using z multiply_iff [OF z(1) v] by simp
    ultimately show ?thesis by (simp add: ticksToSourceTime_def ticksToSeconds_def)
  qed
  have each: "sourceTimeToTicks m s = Inr t" if "ticksToSourceTime m t = Inr s" for t s
    using sourceTime_ticks(1) [OF assms that] .
  then have "list_all2 (\<lambda>t s. sourceTimeToTicks m s = Inr t) (keyframeTicks m) ks"
    if "keyframeTimes m = Inr ks" for ks
    using that by (auto simp: keyframeTimes_def traverseR_eq_Inr ticksToSourceTime_def
        elim: list_all2_mono)
  then show ?thesis using sourceTime_ticks [OF assms] zero each by blast
qed

theorem sourceTime_roundtrip_witness:
  "let m = \<lparr>timeBase = mk_r 1 90000, originTicks = 900, cadence = None, variableFrameRate = True,
        keyframeTicks = [900, 3903], keyframeDurationTicks = [3003, 3003], totalDurationTicks = 6006,
        packetCount = 2\<rparr>
   in timing_ok m \<and> ticksToSourceTime m 3903 = Inr (mk_r 1001 30000) \<and>
      sourceTimeToTicks m (mk_r 1001 30000) = Inr 3903"
  (is "let m = ?m in _")
proof -
  have ok: "timing_ok ?m" by (simp add: timing_ok_def)
  have t: "ticksToSourceTime ?m 3903 = Inr (mk_r 1001 30000)" by code_simp
  show ?thesis using ok t sourceTime_roundtrip [OF ok] by (simp add: Let_def)
qed

text \<open>
  The output cadence is never chosen silently. An export is refused exactly when it has no
  source, or several sources and no declared cadence; it is resampled exactly when a cadence was
  declared that is not already the own constant cadence of its only source, and then onto the declared
  cadence; in every other case the source timestamps pass through unchanged.
\<close>

theorem resolveOutputCadence_never_silent:
  "(okR (resolveOutputCadence sources declared) \<longleftrightarrow>
      sources \<noteq> [] \<and> (length sources > 1 \<longrightarrow> declared \<noteq> None)) \<and>
   (\<forall>d. resolveOutputCadence sources declared = Inr d \<longrightarrow>
      (ocd_mode d = Convert \<longleftrightarrow> (\<exists>c. declared = Some c \<and> \<not> (length sources = 1 \<and> runs_at (hd sources) c))) \<and>
      ocd_cadence d = (if ocd_mode d = Convert then declared else None))"
  by (cases sources; cases declared)
    (auto simp: resolveOutputCadence_def runs_at_def split: option.splits if_splits)

theorem resolveOutputCadence_never_silent_witness:
  "let m = \<lparr>timeBase = mk_r 1 90000, originTicks = 0, cadence = Some (mk_r 30000 1001),
        variableFrameRate = True, keyframeTicks = [], keyframeDurationTicks = [],
        totalDurationTicks = 0, packetCount = 0\<rparr>
   in \<exists>d. resolveOutputCadence [m] (Some (mk_r 30000 1001)) = Inr d \<and> ocd_mode d = Convert"
  (is "let m = ?m in _")
proof -
  obtain d where d: "resolveOutputCadence [?m] (Some (mk_r 30000 1001)) = Inr d"
    using resolveOutputCadence_never_silent [of "[?m]" "Some (mk_r 30000 1001)"] by (auto simp: okR_iff)
  moreover have "ocd_mode d = Convert"
    using resolveOutputCadence_never_silent [of "[?m]" "Some (mk_r 30000 1001)"] d
    by (simp add: runs_at_def)
  ultimately show ?thesis by auto
qed

end
