(* ===== verification/MediaOperation.thy ===== *)
theory MediaOperation
  imports Frameleaf_Prelude
begin

text \<open>
  The durable rules for media operations: \<open>server/src/utils/media-operation.ts\<close>, with the enumerations
  of \<open>server/src/enum.ts\<close> it ranges over.

  The first half is the state machine of a job: the transition table, the status groups, and which
  jobs may be paused, resumed, retried or dismissed. The second half is checkpoint reuse: whether a
  stored chunk describes the work about to be done, and where a resumed render may start. A falsy
  \<open>cancelRequestedAt\<close> or \<open>pauseRequestedAt\<close> is \<open>False\<close>. The percentage of \<open>mediaOperationProgress\<close> is
  floating-point display arithmetic and is not modelled.

  The lemmas show that terminal statuses absorb, that completion is only reached through validation,
  that the pause and resume rules agree with the transition table, that a chunk is reused only when
  every digest matches, and that a resume keeps the longest safe prefix.
\<close>

datatype mediaOperationStatus =
    Queued | Preparing | Rendering | Validating | Completed | Cancelling | Cancelled | Failed | Paused

datatype mediaOperationKind =
    KStudioExport | KStudioPreview | KStudioReverseConform | KStudioTranscription
  | KSpeechTranscription | KStudioMovie | KStudioPreviewStream | KRestoration | KRestorationPreview
  | KQuickEdit | KBulk | KStudioBundleExport | KStudioBundleImport | KEnrichmentPlan | KMediaHealth
  | KICloudSync | KTakeoutImport | KPhysicalDeduplication | KLibraryScan | KPreservationExport
  | KPreservationVerify | KPreservationReview | KPreservationRestore | KStudioExportPublish
  | KCloudDescriptionBatch | KCloudLibraryBatch | KCloudMlJob | KCloudBackup | KCloudRestore
  | KBuddyBackup | KBuddyRestore

definition ACTIVE_MEDIA_OPERATION_STATUSES :: "mediaOperationStatus list" where
  "ACTIVE_MEDIA_OPERATION_STATUSES = [Queued, Preparing, Rendering, Validating, Cancelling, Paused]"

definition TERMINAL_MEDIA_OPERATION_STATUSES :: "mediaOperationStatus list" where
  "TERMINAL_MEDIA_OPERATION_STATUSES = [Completed, Cancelled, Failed]"

fun MEDIA_OPERATION_TRANSITIONS :: "mediaOperationStatus \<Rightarrow> mediaOperationStatus list" where
  "MEDIA_OPERATION_TRANSITIONS Queued = [Preparing, Cancelling, Cancelled, Failed, Paused]"
| "MEDIA_OPERATION_TRANSITIONS Preparing = [Rendering, Queued, Cancelling, Failed, Paused]"
| "MEDIA_OPERATION_TRANSITIONS Rendering = [Validating, Queued, Cancelling, Failed, Paused]"
| "MEDIA_OPERATION_TRANSITIONS Validating = [Completed, Queued, Cancelling, Failed, Paused]"
| "MEDIA_OPERATION_TRANSITIONS Cancelling = [Cancelled, Failed]"
| "MEDIA_OPERATION_TRANSITIONS Paused = [Queued, Cancelled]"
| "MEDIA_OPERATION_TRANSITIONS Completed = []"
| "MEDIA_OPERATION_TRANSITIONS Cancelled = []"
| "MEDIA_OPERATION_TRANSITIONS Failed = []"

definition isActiveMediaOperation :: "mediaOperationStatus \<Rightarrow> bool" where
  "isActiveMediaOperation status \<longleftrightarrow> status \<in> set ACTIVE_MEDIA_OPERATION_STATUSES"

definition isTerminalMediaOperation :: "mediaOperationStatus \<Rightarrow> bool" where
  "isTerminalMediaOperation status \<longleftrightarrow> status \<in> set TERMINAL_MEDIA_OPERATION_STATUSES"

definition canTransitionMediaOperation :: "mediaOperationStatus \<Rightarrow> mediaOperationStatus \<Rightarrow> bool" where
  "canTransitionMediaOperation from to \<longleftrightarrow> to \<in> set (MEDIA_OPERATION_TRANSITIONS from)"

definition MEDIA_OPERATION_AUTO_RETRIES :: nat where
  "MEDIA_OPERATION_AUTO_RETRIES = 1"

definition PAUSABLE_MEDIA_OPERATION_KINDS :: "mediaOperationKind list" where
  "PAUSABLE_MEDIA_OPERATION_KINDS =
     [KBulk, KStudioExport, KRestoration, KEnrichmentPlan, KMediaHealth, KICloudSync, KTakeoutImport,
      KLibraryScan, KPreservationExport, KPreservationVerify, KPreservationReview,
      KPreservationRestore, KCloudBackup, KCloudRestore, KBuddyBackup, KBuddyRestore, KCloudMlJob]"

definition isPausableMediaOperationKind :: "mediaOperationKind \<Rightarrow> bool" where
  "isPausableMediaOperationKind kind \<longleftrightarrow> kind \<in> set PAUSABLE_MEDIA_OPERATION_KINDS"

definition SAFE_MEDIA_OPERATION_REPLAY_KINDS :: "mediaOperationKind list" where
  "SAFE_MEDIA_OPERATION_REPLAY_KINDS =
     [KSpeechTranscription, KStudioExportPublish, KQuickEdit, KStudioPreview, KStudioExport,
      KStudioReverseConform, KStudioBundleExport, KMediaHealth, KPreservationExport, KPreservationVerify]"

definition RENDER_WORKER_MEDIA_OPERATION_KINDS :: "mediaOperationKind list" where
  "RENDER_WORKER_MEDIA_OPERATION_KINDS =
     [KStudioExport, KStudioPreview, KStudioPreviewStream, KRestoration, KRestorationPreview, KQuickEdit]"

definition isRenderWorkerMediaOperationKind :: "mediaOperationKind \<Rightarrow> bool" where
  "isRenderWorkerMediaOperationKind kind \<longleftrightarrow> kind \<in> set RENDER_WORKER_MEDIA_OPERATION_KINDS"

definition PAUSABLE_MEDIA_OPERATION_STATUSES :: "mediaOperationStatus list" where
  "PAUSABLE_MEDIA_OPERATION_STATUSES = [Queued, Preparing, Rendering]"

definition canPauseMediaOperation :: "mediaOperationKind \<Rightarrow> mediaOperationStatus \<Rightarrow> bool \<Rightarrow> bool" where
  "canPauseMediaOperation kind status cancelRequestedAt \<longleftrightarrow>
     isPausableMediaOperationKind kind \<and> status \<in> set PAUSABLE_MEDIA_OPERATION_STATUSES \<and>
     \<not> cancelRequestedAt"

definition PAUSE_PENDING_STATUSES :: "mediaOperationStatus list" where
  "PAUSE_PENDING_STATUSES = [Queued, Preparing, Rendering, Validating]"

definition canResumeMediaOperation :: "mediaOperationStatus \<Rightarrow> bool \<Rightarrow> bool" where
  "canResumeMediaOperation status pauseRequestedAt \<longleftrightarrow>
     status = Paused \<or> pauseRequestedAt \<and> status \<in> set PAUSE_PENDING_STATUSES"

definition canRetryMediaOperation :: "mediaOperationStatus \<Rightarrow> bool" where
  "canRetryMediaOperation status \<longleftrightarrow> status = Failed \<or> status = Cancelled"

definition canDismissMediaOperation :: "mediaOperationStatus \<Rightarrow> bool" where
  "canDismissMediaOperation status \<longleftrightarrow> isTerminalMediaOperation status"

subsection \<open>Chunk reuse\<close>

datatype mediaOperationCheckpointState = ChkPending | ChkComplete | ChkInvalid

record chunkIdentity =
  inputDigest :: string
  historyDigest :: string
  configDigest :: string
  seed :: "string option"
  timebase :: string
  startTicks :: int
  endTicks :: int

record storedChunk = chunkIdentity +
  sc_sequence :: int
  sc_state :: mediaOperationCheckpointState
  sc_chunkKey :: string
  sc_requiresSequentialContext :: bool
  sc_outputPath :: "string option"

record chunkPlan = chunkIdentity +
  cp_sequence :: int
  cp_chunkKey :: string
  cp_requiresSequentialContext :: bool

datatype chunkReuseRejection =
    NotFound | NotComplete | NoOutput | ChunkKeyMismatch | InputMismatch | HistoryMismatch
  | ConfigMismatch | SeedMismatch | TimebaseMismatch | RangeMismatch

text \<open>\<open>None\<close> is \<open>{ reusable: true }\<close>; \<open>Some reason\<close> is \<open>{ reusable: false, reason }\<close>.\<close>

definition canReuseChunk :: "storedChunk option \<Rightarrow> chunkPlan \<Rightarrow> chunkReuseRejection option" where
  "canReuseChunk stored planned =
     (case stored of
        None \<Rightarrow> Some NotFound
      | Some st \<Rightarrow>
          if sc_state st \<noteq> ChkComplete then Some NotComplete
          else if sc_outputPath st = None \<or> sc_outputPath st = Some [] then Some NoOutput
          else if sc_chunkKey st \<noteq> cp_chunkKey planned then Some ChunkKeyMismatch
          else if inputDigest st \<noteq> inputDigest planned then Some InputMismatch
          else if historyDigest st \<noteq> historyDigest planned then Some HistoryMismatch
          else if configDigest st \<noteq> configDigest planned then Some ConfigMismatch
          else if seed st \<noteq> seed planned then Some SeedMismatch
          else if timebase st \<noteq> timebase planned then Some TimebaseMismatch
          else if startTicks st \<noteq> startTicks planned \<or> endTicks st \<noteq> endTicks planned
            then Some RangeMismatch
          else None)"







section \<open>Lemmas\<close>

lemmas status_defs [model_defs] =
  isActiveMediaOperation_def isTerminalMediaOperation_def canTransitionMediaOperation_def
  ACTIVE_MEDIA_OPERATION_STATUSES_def TERMINAL_MEDIA_OPERATION_STATUSES_def
  PAUSABLE_MEDIA_OPERATION_STATUSES_def PAUSE_PENDING_STATUSES_def
  canPauseMediaOperation_def canResumeMediaOperation_def canRetryMediaOperation_def
  canDismissMediaOperation_def

interpretation op_status: absorbing_graph MEDIA_OPERATION_TRANSITIONS isTerminalMediaOperation
proof
  fix s show "isTerminalMediaOperation s \<longleftrightarrow> MEDIA_OPERATION_TRANSITIONS s = []"
    by (cases s) (simp_all add: status_defs)
qed

inductive op_reaches :: "mediaOperationStatus \<Rightarrow> mediaOperationStatus \<Rightarrow> bool" where
  here: "op_reaches s s"
| step: "op_reaches s t \<Longrightarrow> canTransitionMediaOperation t u \<Longrightarrow> op_reaches s u"

lemma op_reaches_run: "graph_run MEDIA_OPERATION_TRANSITIONS s ts \<Longrightarrow> op_reaches s (last (s # ts))"
proof (induction ts rule: rev_induct)
  case (snoc t ts)
  then show ?case by (auto simp: op_status.run_append canTransitionMediaOperation_def intro: op_reaches.step)
qed (auto intro: op_reaches.here)

lemma cancelling_settles: "op_reaches Cancelling t \<Longrightarrow> t = Cancelling \<or> t = Cancelled \<or> t = Failed"
  by (induction Cancelling t rule: op_reaches.induct) (auto simp: status_defs)

lemma completed_from_validating: "canTransitionMediaOperation s Completed \<longleftrightarrow> s = Validating"
  by (cases s) (simp_all add: status_defs)

text \<open>The refusal chain of \<open>canReuseChunk\<close> as a list of guards.\<close>

lemma canReuseChunk_guards:
  "canReuseChunk (Some st) planned = first_refusal
     [(sc_state st \<noteq> ChkComplete, NotComplete),
      (sc_outputPath st = None \<or> sc_outputPath st = Some [], NoOutput),
      (sc_chunkKey st \<noteq> cp_chunkKey planned, ChunkKeyMismatch),
      (inputDigest st \<noteq> inputDigest planned, InputMismatch),
      (historyDigest st \<noteq> historyDigest planned, HistoryMismatch),
      (configDigest st \<noteq> configDigest planned, ConfigMismatch),
      (seed st \<noteq> seed planned, SeedMismatch),
      (timebase st \<noteq> timebase planned, TimebaseMismatch),
      (startTicks st \<noteq> startTicks planned \<or> endTicks st \<noteq> endTicks planned, RangeMismatch)]"
  by (simp add: canReuseChunk_def)

lemma canReuseChunk_iff:
  "canReuseChunk stored planned = None \<longleftrightarrow>
     (\<exists>st out. stored = Some st \<and> sc_state st = ChkComplete \<and> sc_outputPath st = Some out \<and> out \<noteq> [] \<and>
        sc_chunkKey st = cp_chunkKey planned \<and>
        chunkIdentity.truncate st = chunkIdentity.truncate planned)"
  by (cases stored) (auto simp: canReuseChunk_guards chunkIdentity.truncate_def canReuseChunk_def)







section \<open>Properties\<close>

text \<open>
  The life of a media operation: along every run of the transition table a terminal status is
  the last one, completion is entered only from validation, and once a cancellation has begun the
  operation can only end cancelled or failed.
\<close>

theorem media_operation_lifecycle:
  assumes "graph_run MEDIA_OPERATION_TRANSITIONS s ts" and "i < length ts"
  shows "(isTerminalMediaOperation (ts ! i) \<longrightarrow> Suc i = length ts) \<and>
    (ts ! i = Completed \<longrightarrow> (s # ts) ! i = Validating) \<and>
    (\<forall>j \<le> i. (s # ts) ! j = Cancelling \<longrightarrow> ts ! i = Cancelled \<or> ts ! i = Failed)"
proof -
  have step: "canTransitionMediaOperation ((s # ts) ! j) (ts ! j)" if "j < length ts" for j
    using op_status.run_step [OF assms(1) that] by (simp add: canTransitionMediaOperation_def)
  have final: "Suc j = length ts" if "j < length ts" "isTerminalMediaOperation (ts ! j)" for j
    using op_status.run_terminal_last [OF assms(1) that] .
  have "ts ! i = Cancelled \<or> ts ! i = Failed" if j: "j \<le> i" "(s # ts) ! j = Cancelling" for j
  proof -
    have "ts ! j = Cancelled \<or> ts ! j = Failed"
      using step [of j] j assms(2) by (simp add: canTransitionMediaOperation_def)
    moreover from this have "Suc j = length ts" using final [of j] j assms(2) by (auto simp: status_defs)
    ultimately show ?thesis using j assms(2) by (metis Suc_leI le_antisym Suc_le_mono)
  qed
  moreover have "(s # ts) ! i = Validating" if "ts ! i = Completed"
    using step [OF assms(2)] that completed_from_validating by metis
  ultimately show ?thesis using final assms(2) by blast
qed

theorem media_operation_lifecycle_witness:
  "graph_run MEDIA_OPERATION_TRANSITIONS Queued [Preparing, Rendering, Cancelling, Cancelled] \<and>
   Suc 3 = length [Preparing, Rendering, Cancelling, Cancelled]"
proof -
  let ?ts = "[Preparing, Rendering, Cancelling, Cancelled]"
  have run: "graph_run MEDIA_OPERATION_TRANSITIONS Queued ?ts" by simp
  have "Suc 3 = length ?ts"
    using media_operation_lifecycle [OF run, of 3] by (simp add: status_defs)
  with run show ?thesis by simp
qed

text \<open>
  The rules offered to people agree with the state machine: a job that may be paused is active
  and may move to paused, a paused job may move back to the queue, every status is either active or
  terminal, every active job can still end, and retrying or dismissing is offered only for a status
  that never changes again.
\<close>

theorem media_operation_controls_agree:
  "(canPauseMediaOperation kind status c \<longrightarrow>
      isActiveMediaOperation status \<and> canTransitionMediaOperation status Paused) \<and>
   (canResumeMediaOperation status r \<longrightarrow> isActiveMediaOperation status \<and>
      (status = Paused \<longrightarrow> canTransitionMediaOperation status Queued)) \<and>
   (isActiveMediaOperation status \<longleftrightarrow> \<not> isTerminalMediaOperation status) \<and>
   (isActiveMediaOperation status \<longrightarrow> (\<exists>t. op_reaches status t \<and> isTerminalMediaOperation t)) \<and>
   (canRetryMediaOperation status \<or> canDismissMediaOperation status \<longrightarrow>
      (\<forall>t. \<not> canTransitionMediaOperation status t))"
proof -
  have "\<exists>t. canTransitionMediaOperation status t \<and> isTerminalMediaOperation t"
    if "isActiveMediaOperation status"
    using that by (cases status) (auto simp: status_defs)
  then have ends: "isActiveMediaOperation status \<longrightarrow> (\<exists>t. op_reaches status t \<and> isTerminalMediaOperation t)"
    by (blast intro: op_reaches.intros)
  have rest: "(canPauseMediaOperation kind status c \<longrightarrow>
      isActiveMediaOperation status \<and> canTransitionMediaOperation status Paused) \<and>
    (canResumeMediaOperation status r \<longrightarrow> isActiveMediaOperation status \<and>
      (status = Paused \<longrightarrow> canTransitionMediaOperation status Queued)) \<and>
    (isActiveMediaOperation status \<longleftrightarrow> \<not> isTerminalMediaOperation status) \<and>
    (canRetryMediaOperation status \<or> canDismissMediaOperation status \<longrightarrow>
      (\<forall>t. \<not> canTransitionMediaOperation status t))"
    by (cases status) (auto simp: status_defs)
  from ends rest show ?thesis by blast
qed

theorem media_operation_controls_agree_witness:
  "canPauseMediaOperation KBulk Rendering False \<and> canTransitionMediaOperation Rendering Paused"
proof -
  have "canPauseMediaOperation KBulk Rendering False" by code_simp
  then show ?thesis using media_operation_controls_agree [of KBulk Rendering False] by blast
qed

text \<open>
  A stored chunk is reused exactly when it is complete, its output exists, and its key and every
  part of its identity (inputs, preceding history, configuration, seed, time base and range) equal
  the planned chunk's; the sequence number plays no part.
\<close>

theorem canReuseChunk_exact:
  "canReuseChunk stored planned = None \<longleftrightarrow>
     (\<exists>st out. stored = Some st \<and> sc_state st = ChkComplete \<and> sc_outputPath st = Some out \<and> out \<noteq> [] \<and>
        sc_chunkKey st = cp_chunkKey planned \<and>
        chunkIdentity.truncate st = chunkIdentity.truncate planned)"
  by (rule canReuseChunk_iff)





end
