(* ===== verification/MimeTypes.thy ===== *)
theory MimeTypes
  imports Frameleaf_Prelude
begin

text \<open>
  File types by extension: \<open>server/src/utils/mime-types.ts\<close>, with \<open>getFilenameExtension\<close> of
  \<open>server/src/utils/file.ts\<close>.

  The tables are association lists in the order the source writes them; a later spread overrides an
  earlier one, so the merged tables list the later part first. \<open>extname\<close> is Node's POSIX
  \<open>path.extname\<close>, \<open>toLowerCase\<close> acts on the code units below 256.

  The lemmas show that the tables of images, videos and sidecars do not overlap and that the type an
  upload is given is the type of the one table that has its extension.
\<close>

type_synonym mimeTable = "(string \<times> string list) list"

definition toLowerCase_char :: "char \<Rightarrow> char" where
  "toLowerCase_char c =
     (let n = (of_char c :: nat)
      in if 65 \<le> n \<and> n \<le> 90 \<or> 192 \<le> n \<and> n \<le> 222 \<and> n \<noteq> 215 then char_of (n + 32) else c)"

definition toLowerCase :: "string \<Rightarrow> string" where
  "toLowerCase s = map toLowerCase_char s"

definition baseSegment :: "string \<Rightarrow> string" where
  "baseSegment p = rev (takeWhile (\<lambda>c. c \<noteq> CHR ''/'') (dropWhile (\<lambda>c. c = CHR ''/'') (rev p)))"

definition extname :: "string \<Rightarrow> string" where
  "extname p =
     (let b = baseSegment p;
          after = takeWhile (\<lambda>c. c \<noteq> CHR ''.'') (rev b);
          before = drop (Suc (length after)) (rev b)
      in if before = [] \<or> b = ''..'' then [] else CHR ''.'' # rev after)"

definition getFilenameExtension :: "string \<Rightarrow> string" where
  "getFilenameExtension path =
     (let extension = extname path
      in if extension = [] \<and> take 1 path = ''.'' \<and> CHR ''.'' \<notin> set (drop 1 path) then path
         else extension)"

definition raw_types :: mimeTable where
  "raw_types =
     [(''.3fr'', [''image/3fr'', ''image/x-hasselblad-3fr'']),
     (''.ari'', [''image/ari'', ''image/x-arriflex-ari'']),
     (''.arw'', [''image/arw'', ''image/x-sony-arw'']),
     (''.cap'', [''image/cap'', ''image/x-phaseone-cap'']),
     (''.cin'', [''image/cin'', ''image/x-phantom-cin'']),
     (''.cr2'', [''image/cr2'', ''image/x-canon-cr2'']),
     (''.cr3'', [''image/cr3'', ''image/x-canon-cr3'']),
     (''.crw'', [''image/crw'', ''image/x-canon-crw'']),
     (''.dcr'', [''image/dcr'', ''image/x-kodak-dcr'']),
     (''.dng'', [''image/dng'', ''image/x-adobe-dng'']),
     (''.erf'', [''image/erf'', ''image/x-epson-erf'']),
     (''.fff'', [''image/fff'', ''image/x-hasselblad-fff'']),
     (''.iiq'', [''image/iiq'', ''image/x-phaseone-iiq'']),
     (''.k25'', [''image/k25'', ''image/x-kodak-k25'']),
     (''.kdc'', [''image/kdc'', ''image/x-kodak-kdc'']),
     (''.mrw'', [''image/mrw'', ''image/x-minolta-mrw'']),
     (''.nef'', [''image/nef'', ''image/x-nikon-nef'']),
     (''.nrw'', [''image/nrw'', ''image/x-nikon-nrw'']),
     (''.orf'', [''image/orf'', ''image/x-olympus-orf'']),
     (''.ori'', [''image/ori'', ''image/x-olympus-ori'']),
     (''.pef'', [''image/pef'', ''image/x-pentax-pef'']),
     (''.psd'', [''image/psd'', ''image/vnd.adobe.photoshop'']),
     (''.raf'', [''image/raf'', ''image/x-fuji-raf'']),
     (''.raw'', [''image/raw'', ''image/x-panasonic-raw'']),
     (''.rw2'', [''image/rw2'', ''image/x-panasonic-rw2'']),
     (''.rwl'', [''image/rwl'', ''image/x-leica-rwl'']), (''.sr2'', [''image/sr2'', ''image/x-sony-sr2'']),
     (''.srf'', [''image/srf'', ''image/x-sony-srf'']),
     (''.srw'', [''image/srw'', ''image/x-samsung-srw'']),
     (''.x3f'', [''image/x3f'', ''image/x-sigma-x3f''])]"

definition webSupportedImage :: mimeTable where
  "webSupportedImage =
     [(''.avif'', [''image/avif'']), (''.bmp'', [''image/bmp'']), (''.gif'', [''image/gif'']),
     (''.jpeg'', [''image/jpeg'']), (''.jpg'', [''image/jpeg'']),
     (''.png'', [''image/png'', ''image/apng'']), (''.webp'', [''image/webp''])]"

definition webUnsupportedImage :: mimeTable where
  "webUnsupportedImage =
     [(''.heic'', [''image/heic'']), (''.heif'', [''image/heif'']), (''.hif'', [''image/hif'']),
     (''.insp'', [''image/jpeg'']), (''.jp2'', [''image/jp2'']), (''.jpe'', [''image/jpeg'']),
     (''.jxl'', [''image/jxl'']), (''.mpo'', [''image/jpeg'']), (''.svg'', [''image/svg'']),
     (''.tif'', [''image/tiff'']), (''.tiff'', [''image/tiff''])] @ raw_types"

definition image_types :: mimeTable where
  "image_types = webUnsupportedImage @ webSupportedImage"

definition possiblyAnimatedImageExtensions :: "string list" where
  "possiblyAnimatedImageExtensions = [''.avif'', ''.gif'', ''.heic'', ''.heif'', ''.jxl'', ''.png'', ''.webp'']"

definition heifImageExtensions :: "string list" where
  "heifImageExtensions = [''.avif'', ''.heic'', ''.heif'', ''.hif'']"

definition transparentCapableExtensions :: "string list" where
  "transparentCapableExtensions = [''.avif'', ''.bmp'', ''.gif'', ''.heic'', ''.heif'', ''.hif'', ''.jxl'', ''.png'', ''.svg'', ''.tif'',
     ''.tiff'', ''.webp'']"

definition heicExtensions :: "string list" where
  "heicExtensions = [''.heic'', ''.heif'', ''.hif'']"

definition profileExtensions :: "string list" where
  "profileExtensions = [''.avif'', ''.dng'', ''.heic'', ''.heif'', ''.jpeg'', ''.jpg'', ''.png'', ''.webp'', ''.svg'']"

definition profile_types :: mimeTable where
  "profile_types = filter (\<lambda>(key, _). key \<in> set profileExtensions) image_types"

definition video_types :: mimeTable where
  "video_types =
     [(''.3gp'', [''video/3gpp'']), (''.3gpp'', [''video/3gpp'']),
     (''.avi'', [''video/avi'', ''video/msvideo'', ''video/vnd.avi'', ''video/x-msvideo'']),
     (''.flv'', [''video/x-flv'']), (''.insv'', [''video/mp4'']), (''.m2t'', [''video/mp2t'']),
     (''.m2ts'', [''video/mp2t'']), (''.m4v'', [''video/x-m4v'']), (''.mkv'', [''video/x-matroska'']),
     (''.mov'', [''video/quicktime'']), (''.mp4'', [''video/mp4'']), (''.mpe'', [''video/mpeg'']),
     (''.mpeg'', [''video/mpeg'']), (''.mpg'', [''video/mpeg'']), (''.mts'', [''video/mp2t'']),
     (''.mxf'', [''application/mxf'']), (''.ts'', [''video/mp2t'']), (''.vob'', [''video/mpeg'']),
     (''.webm'', [''video/webm'']), (''.wmv'', [''video/x-ms-wmv''])]"

definition sidecar_types :: mimeTable where
  "sidecar_types =
     [(''.xmp'', [''application/xml'', ''text/xml''])]"

definition types_all :: mimeTable where
  "types_all = sidecar_types @ video_types @ image_types"

definition ext_of :: "string \<Rightarrow> string" where
  "ext_of filename = toLowerCase (getFilenameExtension filename)"

definition isType :: "string \<Rightarrow> mimeTable \<Rightarrow> bool" where
  "isType filename r = (map_of r (ext_of filename) \<noteq> None)"

definition lookup_type :: "string \<Rightarrow> string" where
  "lookup_type filename =
     (case map_of types_all (ext_of filename) of
        Some (t # _) \<Rightarrow> t
      | _ \<Rightarrow> ''application/octet-stream'')"

definition isAsset :: "string \<Rightarrow> bool" where
  "isAsset filename =
     (let extension = ext_of filename
      in map_of image_types extension \<noteq> None \<or> map_of video_types extension \<noteq> None)"

definition isImage :: "string \<Rightarrow> bool" where
  "isImage filename = isType filename image_types"

definition isWebSupportedImage :: "string \<Rightarrow> bool" where
  "isWebSupportedImage filename = isType filename webSupportedImage"

definition isHeifImage :: "string \<Rightarrow> bool" where
  "isHeifImage filename = (ext_of filename \<in> set heifImageExtensions)"

definition isPossiblyAnimatedImage :: "string \<Rightarrow> bool" where
  "isPossiblyAnimatedImage filename = (ext_of filename \<in> set possiblyAnimatedImageExtensions)"

definition isProfile :: "string \<Rightarrow> bool" where
  "isProfile filename = isType filename profile_types"

definition isSidecar :: "string \<Rightarrow> bool" where
  "isSidecar filename = isType filename sidecar_types"

definition isVideo :: "string \<Rightarrow> bool" where
  "isVideo filename = isType filename video_types"

definition canBeTransparent :: "string \<Rightarrow> bool" where
  "canBeTransparent filename = (ext_of filename \<in> set transparentCapableExtensions)"

definition isRaw :: "string \<Rightarrow> bool" where
  "isRaw filename = isType filename raw_types"

definition isHeic :: "string \<Rightarrow> bool" where
  "isHeic filename = (ext_of filename \<in> set heicExtensions)"

datatype assetType = Image | Video | Audio | Other

definition mime_assetType :: "string \<Rightarrow> assetType" where
  "mime_assetType filename =
     (let contentType = lookup_type filename
      in if startsWith contentType ''image/'' then Image
         else if contentType = ''application/mxf'' \<or> startsWith contentType ''video/'' then Video
         else Other)"

definition getSupportedFileExtensions :: "string list" where
  "getSupportedFileExtensions = map fst webSupportedImage @ map fst raw_types @
     map fst (take (length webUnsupportedImage - length raw_types) webUnsupportedImage) @ map fst video_types"

section \<open>Lemmas\<close>

lemmas mime_tables = types_all_def image_types_def webUnsupportedImage_def webSupportedImage_def
  raw_types_def video_types_def sidecar_types_def

lemma map_of_checked:
  assumes "list_all (\<lambda>(k, v). P k v) xs" and "map_of xs k = Some v"
  shows "P k v"
  using assms by (auto simp: list_all_iff dest: map_of_SomeD)

text \<open>Each table is disjoint from the others, and its content types say which table it is.\<close>

lemma image_rows:
  "list_all (\<lambda>(k, v). (case v of t # _ \<Rightarrow> startsWith t ''image/'' | [] \<Rightarrow> False) \<and>
     map_of video_types k = None \<and> map_of sidecar_types k = None) image_types"
  by code_simp

lemma video_rows:
  "list_all (\<lambda>(k, v). (case v of t # _ \<Rightarrow> \<not> startsWith t ''image/'' \<and> (t = ''application/mxf'' \<or> startsWith t ''video/'')
     | [] \<Rightarrow> False) \<and> map_of sidecar_types k = None) video_types"
  by code_simp

lemma sidecar_rows:
  "list_all (\<lambda>(k, v). (case v of t # _ \<Rightarrow> \<not> startsWith t ''image/'' \<and> t \<noteq> ''application/mxf'' \<and>
     \<not> startsWith t ''video/'' | [] \<Rightarrow> False)) sidecar_types"
  by code_simp

lemma raw_rows:
  "list_all (\<lambda>(k, v). map_of image_types k = Some v \<and> map_of webSupportedImage k = None) raw_types"
  by code_simp

lemma web_rows: "list_all (\<lambda>(k, v). map_of image_types k = Some v) webSupportedImage"
  by code_simp

lemma extension_sets:
  "list_all (\<lambda>k. map_of image_types k \<noteq> None \<and> k \<notin> set (map fst raw_types)) heicExtensions"
  "list_all (\<lambda>k. map_of image_types k \<noteq> None) (heifImageExtensions @ possiblyAnimatedImageExtensions @
     transparentCapableExtensions @ profileExtensions)"
  by code_simp+

lemma types_all_split:
  "map_of types_all e =
     (case map_of image_types e of Some v \<Rightarrow> Some v
      | None \<Rightarrow> (case map_of video_types e of Some v \<Rightarrow> Some v | None \<Rightarrow> map_of sidecar_types e))"
  using map_of_checked [OF image_rows, of e] map_of_checked [OF video_rows, of e]
  by (auto simp: types_all_def map_add_def split: option.splits)

lemma mime_assetType_cases:
  "mime_assetType f =
     (if map_of image_types (ext_of f) \<noteq> None then Image
      else if map_of video_types (ext_of f) \<noteq> None then Video else Other)"
  using map_of_checked [OF image_rows, of "ext_of f"] map_of_checked [OF video_rows, of "ext_of f"]
    map_of_checked [OF sidecar_rows, of "ext_of f"]
  by (auto simp: mime_assetType_def lookup_type_def types_all_split startsWith_def
      split: option.splits list.splits)

text \<open>
  The type an upload is given by its extension is decided by one table: it is an image exactly when
  the image table has the extension, a video exactly when the video table has it, and anything that is
  not an asset (a sidecar included) is other. A RAW or HEIC file is an image, a RAW file is never one a
  browser shows, and RAW and HEIC never overlap.
\<close>

theorem assetType_by_table:
  "(mime_assetType f = Image \<longleftrightarrow> isImage f) \<and> (mime_assetType f = Video \<longleftrightarrow> isVideo f) \<and>
   (isAsset f \<longleftrightarrow> mime_assetType f \<noteq> Other) \<and> \<not> (isImage f \<and> isVideo f) \<and> \<not> (isAsset f \<and> isSidecar f) \<and>
   (if isRaw f then isImage f \<and> \<not> isWebSupportedImage f \<and> \<not> isHeic f else True) \<and>
   (if isHeic f \<or> isHeifImage f \<or> isWebSupportedImage f \<or> canBeTransparent f then isImage f else True)"
proof -
  let ?e = "ext_of f"
  have raw: "map_of image_types ?e \<noteq> None \<and> map_of webSupportedImage ?e = None \<and> ?e \<notin> set heicExtensions"
    if r: "map_of raw_types ?e \<noteq> None"
  proof -
    from r obtain v where "map_of raw_types ?e = Some v" by auto
    with map_of_checked [OF raw_rows, of ?e] extension_sets(1) show ?thesis
      by (auto simp: list_all_iff dest!: map_of_SomeD)
  qed
  have web: "map_of image_types ?e \<noteq> None" if "map_of webSupportedImage ?e \<noteq> None"
    using that map_of_checked [OF web_rows, of ?e] by auto
  have sets: "map_of image_types ?e \<noteq> None"
    if "?e \<in> set heicExtensions \<union> set heifImageExtensions \<union> set transparentCapableExtensions"
    using that extension_sets unfolding list_all_iff by auto
  have dis: "\<not> (map_of image_types ?e \<noteq> None \<and> (map_of video_types ?e \<noteq> None \<or> map_of sidecar_types ?e \<noteq> None))"
    using map_of_checked [OF image_rows, of ?e] by (cases "map_of image_types ?e") auto
  have dis2: "\<not> (map_of video_types ?e \<noteq> None \<and> map_of sidecar_types ?e \<noteq> None)"
    using map_of_checked [OF video_rows, of ?e] by (cases "map_of video_types ?e") auto
  show ?thesis
    using raw web sets dis dis2
    unfolding mime_assetType_cases isImage_def isVideo_def isAsset_def isSidecar_def isRaw_def isType_def
      isWebSupportedImage_def isHeic_def isHeifImage_def canBeTransparent_def Let_def
    by auto
qed

end
