(* ===== verification/DuplicateReview.thy ===== *)
theory DuplicateReview
  imports MimeTypes "HOL-Library.List_Lexorder" "HOL-Library.Char_ord" "HOL-Library.Multiset"
begin

text \<open>
  Duplicate groups, decisions and their batches: \<open>server/src/utils/duplicate-review.ts\<close> and
  \<open>server/src/utils/duplicate.ts\<close>.

  A job carries one decision per duplicate group. The model has the reading of groups out of a stored
  payload, what a decision trashes, why a submission is refused, the index from a photo to its group,
  and the batch size that never splits a group. A JavaScript \<open>Set\<close> that only collects what was seen is
  a list; the index is a partial map. Then how a group is presented: copies, burst or look-alikes, the
  suggested keeper, the quality evidence and what a suggestion must not discard. \<open>Date.parse\<close> is an
  argument of the definitions that read capture times; the EXIF block is the JSON object it is.

  The lemmas show that an accepted job works on exactly the photos of its groups, that a decision never
  trashes a photo it keeps nor every photo of a group, that every batch ends on a group boundary, and
  that the suggested keeper depends on the photos alone, not on their order.
\<close>

datatype duplicateDecisionKind = Keepers | KeepAll | StackDecision

fun decisionOfText :: "string \<Rightarrow> duplicateDecisionKind option" where
  "decisionOfText t =
     (if t = ''keepers'' then Some Keepers
      else if t = ''keep-all'' then Some KeepAll
      else if t = ''stack'' then Some StackDecision
      else None)"

record duplicateGroupDecision =
  duplicateId :: string
  decision :: duplicateDecisionKind
  memberIds :: "string list"
  keepAssetIds :: "string list"
  decisionId :: "string option"

definition DUPLICATE_DECISION_MAX_GROUPS :: nat where
  "DUPLICATE_DECISION_MAX_GROUPS = 5000"

fun isRecord :: "json \<Rightarrow> bool" where
  "isRecord (JObj _) = True"
| "isRecord _ = False"

fun asStringArray :: "json \<Rightarrow> string list" where
  "asStringArray (JArr xs) =
     concat (map (\<lambda>x. case x of JStr s \<Rightarrow> if length s > 0 then [s] else [] | _ \<Rightarrow> []) xs)"
| "asStringArray _ = []"

definition parseDuplicateGroup :: "json \<Rightarrow> duplicateGroupDecision list" where
  "parseDuplicateGroup g =
     (case (jget g ''duplicateId'', jget g ''decision'') of
        (JStr i, JStr d) \<Rightarrow>
          (case decisionOfText d of
             None \<Rightarrow> []
           | Some k \<Rightarrow>
               [\<lparr>duplicateId = i, decision = k,
                 memberIds = uniq (asStringArray (jget g ''memberIds'')),
                 keepAssetIds = uniq (asStringArray (jget g ''keepAssetIds'')),
                 decisionId = (case jget g ''decisionId'' of
                                 JStr s \<Rightarrow> if s \<noteq> [] then Some s else None
                               | _ \<Rightarrow> None)\<rparr>])
      | _ \<Rightarrow> [])"

fun parseDuplicateGroups :: "json \<Rightarrow> duplicateGroupDecision list" where
  "parseDuplicateGroups (JArr xs) = concat (map parseDuplicateGroup (filter isRecord xs))"
| "parseDuplicateGroups _ = []"

definition duplicateTrashIds :: "duplicateGroupDecision \<Rightarrow> string list" where
  "duplicateTrashIds g =
     (if decision g \<noteq> Keepers then []
      else filter (\<lambda>aid. aid \<notin> set (keepAssetIds g)) (memberIds g))"

definition duplicateStackPrimary :: "duplicateGroupDecision \<Rightarrow> string option" where
  "duplicateStackPrimary g =
     (case find_first (\<lambda>aid. aid \<in> set (memberIds g)) (keepAssetIds g) of
        Some aid \<Rightarrow> Some aid
      | None \<Rightarrow> (case memberIds g of [] \<Rightarrow> None | aid # _ \<Rightarrow> Some aid))"

definition duplicateGroupProblem :: "duplicateGroupDecision \<Rightarrow> string option" where
  "duplicateGroupProblem g =
     (if length (memberIds g) < 2 then Some ''A duplicate group needs at least two photos''
      else if list_ex (\<lambda>aid. aid \<notin> set (memberIds g)) (keepAssetIds g)
        then Some ''Keepers must be photos of the same group''
      else if decision g = Keepers \<and> length (keepAssetIds g) = 0
        then Some ''Choose at least one photo to keep''
      else None)"

definition duplicateGroupAssetIds :: "duplicateGroupDecision list \<Rightarrow> string list" where
  "duplicateGroupAssetIds groups = concat (map memberIds groups)"

text \<open>The two nested loops of \<open>duplicateDecisionProblem\<close>, with the sets they have seen so far.\<close>

fun memberLoop :: "string list \<Rightarrow> string list \<Rightarrow> string + string list" where
  "memberLoop [] seenAssets = Inr seenAssets"
| "memberLoop (aid # ids) seenAssets =
     (if aid \<in> set seenAssets then Inl ''A photo can only belong to one duplicate group''
      else memberLoop ids (aid # seenAssets))"

fun groupLoop :: "bool \<Rightarrow> duplicateGroupDecision list \<Rightarrow> string list \<Rightarrow> string list \<Rightarrow> string option" where
  "groupLoop undo [] seenGroups seenAssets = None"
| "groupLoop undo (g # groups) seenGroups seenAssets =
     (if duplicateId g \<in> set seenGroups
      then Some ''Each duplicate group can only be decided once in a job''
      else case duplicateGroupProblem g of
             Some problem \<Rightarrow> Some problem
           | None \<Rightarrow>
               if undo \<and> (decisionId g = None \<or> decisionId g = Some [])
               then Some ''Undo needs the decision it reverses''
               else (case memberLoop (memberIds g) seenAssets of
                       Inl problem \<Rightarrow> Some problem
                     | Inr seen \<Rightarrow> groupLoop undo groups (duplicateId g # seenGroups) seen))"

definition duplicateDecisionProblem ::
  "duplicateGroupDecision list \<Rightarrow> string list \<Rightarrow> bool \<Rightarrow> string option" where
  "duplicateDecisionProblem groups assetIds undo =
     (if length groups = 0 then Some ''At least one duplicate group is required for this action''
      else if length groups > DUPLICATE_DECISION_MAX_GROUPS
        then Some (''At most '' @ show_nat DUPLICATE_DECISION_MAX_GROUPS @
                   '' duplicate groups can be decided at once'')
      else case groupLoop undo groups [] [] of
             Some problem \<Rightarrow> Some problem
           | None \<Rightarrow>
               let ordered = duplicateGroupAssetIds groups
               in if length ordered \<noteq> length assetIds \<or>
                     list_ex (\<lambda>index. ordered ! index \<noteq> assetIds ! index) [0..<length ordered]
                  then Some ''The photos of the job must be the photos of its groups, group by group''
                  else None)"

definition duplicateGroupIndex :: "duplicateGroupDecision list \<Rightarrow> string \<rightharpoonup> string" where
  "duplicateGroupIndex groups =
     foldl (\<lambda>index g. foldl (\<lambda>m aid. m(aid \<mapsto> duplicateId g)) index (memberIds g))
       Map.empty groups"

function alignEnd :: "string list \<Rightarrow> (string \<rightharpoonup> string) \<Rightarrow> string option \<Rightarrow> nat \<Rightarrow> nat" where
  "alignEnd ids groupOf lastGroup e =
     (if lastGroup \<noteq> None \<and> e < length ids \<and> groupOf (ids ! e) = lastGroup
      then alignEnd ids groupOf lastGroup (e + 1) else e)"
  by pat_completeness auto
termination
  by (relation "measure (\<lambda>(ids, g, l, e). length ids - e)") auto

declare alignEnd.simps [simp del]

definition groupAlignedBatchSize :: "string list \<Rightarrow> nat \<Rightarrow> nat \<Rightarrow> (string \<rightharpoonup> string) \<Rightarrow> nat" where
  "groupAlignedBatchSize ids start batchSize groupOf =
     (if start \<ge> length ids then 0
      else
        let e = min (length ids) (start + max 1 batchSize)
        in alignEnd ids groupOf (groupOf (ids ! (e - 1))) e - start)"

subsection \<open>How a group reads\<close>

record reviewAsset =
  asset_id :: string
  asset_type :: assetType
  localDateTime :: string
  originalFileName :: string
  exifInfo :: json
  asset_checksum :: "string option"
  isEdited :: bool
  livePhotoVideoId :: "string option"

fun numberOr0 :: "json \<Rightarrow> rat" where
  "numberOr0 (JNum q) = q"
| "numberOr0 _ = 0"

definition getExifCount :: "reviewAsset \<Rightarrow> nat" where
  "getExifCount a = length (filter truthy (objectValues (exifInfo a)))"

definition getFormatRank :: "reviewAsset \<Rightarrow> int" where
  "getFormatRank a =
     (if isRaw (originalFileName a) then 2 else if isHeic (originalFileName a) then 1 else 0)"

definition fileBytes :: "reviewAsset \<Rightarrow> rat" where
  "fileBytes a = numberOr0 (jget (exifInfo a) ''fileSizeInByte'')"

definition pixels :: "reviewAsset \<Rightarrow> rat" where
  "pixels a = numberOr0 (jget (exifInfo a) ''exifImageWidth'') * numberOr0 (jget (exifInfo a) ''exifImageHeight'')"

definition suggestComparison :: "reviewAsset \<Rightarrow> reviewAsset \<Rightarrow> rat" where
  "suggestComparison best a =
     (let c1 = of_int (getFormatRank best - getFormatRank a);
          c2 = fileBytes best - fileBytes a;
          c3 = of_int (int (getExifCount best) - int (getExifCount a));
          c4 = (if asset_id a < asset_id best then -1 else if asset_id a > asset_id best then 1 else 0)
      in if c1 \<noteq> 0 then c1 else if c2 \<noteq> 0 then c2 else if c3 \<noteq> 0 then c3 else c4)"

fun suggestLoop :: "reviewAsset \<Rightarrow> reviewAsset list \<Rightarrow> reviewAsset" where
  "suggestLoop best [] = best"
| "suggestLoop best (a # assets) =
     (if suggestComparison best a < 0 then suggestLoop a assets else suggestLoop best assets)"

fun suggestDuplicate :: "reviewAsset list \<Rightarrow> reviewAsset option" where
  "suggestDuplicate [] = None"
| "suggestDuplicate (a # assets) = Some (suggestLoop a assets)"

definition suggestDuplicateKeepAssetIds :: "reviewAsset list \<Rightarrow> string list" where
  "suggestDuplicateKeepAssetIds assets =
     (case suggestDuplicate assets of Some a \<Rightarrow> [asset_id a] | None \<Rightarrow> [])"

definition duplicateDisposalReasons :: "reviewAsset list \<Rightarrow> string list \<Rightarrow> string list \<Rightarrow> string list" where
  "duplicateDisposalReasons assets keepIds historyIds =
     (let keepers = filter (\<lambda>a. asset_id a \<in> set keepIds) assets
      in uniq (concat (map (\<lambda>a.
           if asset_id a \<in> set keepIds then []
           else (if isEdited a then [''edited-copy''] else []) @
                (if asset_id a \<in> set historyIds then [''develop-history''] else []) @
                (if livePhotoVideoId a \<notin> {None, Some []} \<and>
                    list_all (\<lambda>keeper. livePhotoVideoId keeper \<noteq> livePhotoVideoId a) keepers
                 then [''distinct-motion''] else [])) assets)))"

definition captureTime :: "(string \<Rightarrow> int option) \<Rightarrow> reviewAsset \<Rightarrow> int option" where
  "captureTime dateParse a =
     (let v = (case jget (exifInfo a) ''dateTimeOriginal'' of JStr t \<Rightarrow> t | _ \<Rightarrow> localDateTime a)
      in if v \<noteq> [] then dateParse v else None)"

definition DUPLICATE_BURST_SECONDS :: int where
  "DUPLICATE_BURST_SECONDS = 20"

datatype duplicateReviewKind = Copies | BurstKind | LookAlike

datatype duplicateGroupKind = Duplicates | Burst

definition reviewKindOf :: "(string \<Rightarrow> int option) \<Rightarrow> reviewAsset list \<Rightarrow> duplicateReviewKind" where
  "reviewKindOf dateParse assets =
     (if length assets < 2 \<or> list_ex (\<lambda>a. asset_type a \<noteq> Image) assets then Copies
      else
        let checksum = asset_checksum (hd assets)
        in if checksum \<notin> {None, Some []} \<and> list_all (\<lambda>a. asset_checksum a = checksum) assets then Copies
           else
             let times = map (captureTime dateParse) assets
             in if None \<in> set times then Copies
                else
                  let vals = map the times
                  in if length (uniq vals) \<noteq> length vals then Copies
                     else
                       let span = foldl max (hd vals) vals - foldl min (hd vals) vals
                       in if span \<le> DUPLICATE_BURST_SECONDS * 1000 then BurstKind else LookAlike)"

definition classifyDuplicateGroup :: "(string \<Rightarrow> int option) \<Rightarrow> reviewAsset list \<Rightarrow> duplicateGroupKind" where
  "classifyDuplicateGroup dateParse assets =
     (if reviewKindOf dateParse assets = BurstKind then Burst else Duplicates)"

datatype duplicateQualityReason =
    OriginalFormat | LargestFile | HighestResolution | MostMetadata | CompressedCopy | LowerResolution

definition maxOf :: "'a::linorder list \<Rightarrow> 'a" where
  "maxOf xs = foldl max (hd xs) xs"

definition minOf :: "'a::linorder list \<Rightarrow> 'a" where
  "minOf xs = foldl min (hd xs) xs"

definition qualityReasonsOf :: "reviewAsset list \<Rightarrow> reviewAsset \<Rightarrow> duplicateQualityReason list" where
  "qualityReasonsOf assets a =
     (let ranks = map getFormatRank assets; sizes = map fileBytes assets;
          areas = map pixels assets; counts = map getExifCount assets
      in (if maxOf ranks \<noteq> minOf ranks
          then [if getFormatRank a = maxOf ranks then OriginalFormat else CompressedCopy] else []) @
         (if pixels a > 0 \<and> minOf areas \<noteq> maxOf areas
          then [if pixels a = maxOf areas then HighestResolution else LowerResolution] else []) @
         (if fileBytes a > 0 \<and> fileBytes a = maxOf sizes \<and> minOf sizes \<noteq> maxOf sizes
          then [LargestFile] else []) @
         (if getExifCount a = maxOf counts \<and> minOf counts \<noteq> maxOf counts then [MostMetadata] else []))"

definition duplicateQualityReasons :: "reviewAsset list \<Rightarrow> string \<rightharpoonup> duplicateQualityReason list" where
  "duplicateQualityReasons assets =
     (let reasons = foldl (\<lambda>m a. m(asset_id a \<mapsto> [])) Map.empty assets
      in if length assets < 2 then reasons
         else foldl (\<lambda>m a. m(asset_id a \<mapsto> the (m (asset_id a)) @ qualityReasonsOf assets a)) reasons assets)"

section \<open>Lemmas\<close>

definition group_ok :: "duplicateGroupDecision \<Rightarrow> bool" where
  "group_ok g \<longleftrightarrow> length (memberIds g) \<ge> 2 \<and> set (keepAssetIds g) \<subseteq> set (memberIds g) \<and>
     (decision g = Keepers \<longrightarrow> keepAssetIds g \<noteq> [])"

lemma duplicateGroupProblem_None: "duplicateGroupProblem g = None \<longleftrightarrow> group_ok g"
  by (auto simp: duplicateGroupProblem_def group_ok_def list_ex_iff)

lemma memberLoop_eq:
  "memberLoop ids seen =
     (if distinct ids \<and> set ids \<inter> set seen = {} then Inr (rev ids @ seen)
      else Inl ''A photo can only belong to one duplicate group'')"
  by (induction ids arbitrary: seen) auto

lemma groupLoop_None:
  "groupLoop undo groups sg sa = None \<longleftrightarrow>
     distinct (map duplicateId groups) \<and> set (map duplicateId groups) \<inter> set sg = {} \<and>
     (\<forall>g \<in> set groups. group_ok g \<and> (undo \<longrightarrow> decisionId g \<noteq> None \<and> decisionId g \<noteq> Some [])) \<and>
     distinct (concat (map memberIds groups)) \<and> set (concat (map memberIds groups)) \<inter> set sa = {}"
proof (induction groups arbitrary: sg sa)
  case (Cons g groups)
  show ?case
  proof (cases "duplicateGroupProblem g")
    case None
    then have ok: "group_ok g" by (simp add: duplicateGroupProblem_None)
    let ?undo = "undo \<and> (decisionId g = None \<or> decisionId g = Some [])"
      and ?fresh = "distinct (memberIds g) \<and> set (memberIds g) \<inter> set sa = {}"
    show ?thesis
    proof (cases "duplicateId g \<in> set sg \<or> ?undo \<or> \<not> ?fresh")
      case True
      then have "groupLoop undo (g # groups) sg sa \<noteq> None" by (auto simp: None memberLoop_eq)
      moreover from True have "\<not> (distinct (map duplicateId (g # groups)) \<and>
          set (map duplicateId (g # groups)) \<inter> set sg = {} \<and>
          (\<forall>g \<in> set (g # groups). group_ok g \<and> (undo \<longrightarrow> decisionId g \<noteq> None \<and> decisionId g \<noteq> Some [])) \<and>
          distinct (concat (map memberIds (g # groups))) \<and>
          set (concat (map memberIds (g # groups))) \<inter> set sa = {})"
        by (simp del: not_None_eq) blast
      ultimately show ?thesis by (simp only: simp_thms)
    next
      case False
      then have "groupLoop undo (g # groups) sg sa =
          groupLoop undo groups (duplicateId g # sg) (rev (memberIds g) @ sa)"
        by (auto simp: None memberLoop_eq)
      then show ?thesis using False ok by (simp only: Cons.IH) auto
    qed
  next
    case (Some p)
    then have "\<not> group_ok g" by (simp flip: duplicateGroupProblem_None)
    with Some show ?thesis by auto
  qed
qed simp

lemma duplicateDecisionProblem_None:
  assumes "duplicateDecisionProblem groups assetIds undo = None"
  shows "assetIds = concat (map memberIds groups)" and "groups \<noteq> []" and "distinct assetIds"
    and "distinct (map duplicateId groups)" and "\<forall>g \<in> set groups. group_ok g"
proof -
  from assms have loop: "groupLoop undo groups [] [] = None" and ne: "groups \<noteq> []"
    and len: "length (concat (map memberIds groups)) = length assetIds"
    and same: "\<forall>i < length assetIds. concat (map memberIds groups) ! i = assetIds ! i"
    by (auto simp: duplicateDecisionProblem_def duplicateGroupAssetIds_def Let_def list_ex_iff
        split: if_splits option.splits)
  show ids: "assetIds = concat (map memberIds groups)"
    using len same by (auto intro: nth_equalityI)
  show "groups \<noteq> []" by (rule ne)
  show "distinct assetIds" "distinct (map duplicateId groups)" "\<forall>g \<in> set groups. group_ok g"
    using loop by (auto simp: groupLoop_None ids)
qed

text \<open>The index sends a photo to its group.\<close>

lemma foldl_update_const: "foldl (\<lambda>m i. m(i \<mapsto> d)) m0 xs x = (if x \<in> set xs then Some d else m0 x)"
  by (induction xs arbitrary: m0) auto

lemma duplicateGroupIndex_from:
  "distinct (concat (map memberIds groups)) \<Longrightarrow> g \<in> set groups \<Longrightarrow> x \<in> set (memberIds g) \<Longrightarrow>
     foldl (\<lambda>index g. foldl (\<lambda>m i. m(i \<mapsto> duplicateId g)) index (memberIds g)) m0 groups x =
       Some (duplicateId g)"
proof (induction groups arbitrary: m0 rule: rev_induct)
  case (snoc h groups)
  then show ?case
    by (cases "g = h") (auto simp: foldl_update_const simp del: fun_upd_apply)
qed simp

lemma duplicateGroupIndex_member:
  "distinct (concat (map memberIds groups)) \<Longrightarrow> g \<in> set groups \<Longrightarrow> x \<in> set (memberIds g) \<Longrightarrow>
     duplicateGroupIndex groups x = Some (duplicateId g)"
  unfolding duplicateGroupIndex_def by (rule duplicateGroupIndex_from)

text \<open>Offsets of the groups in the job's asset list.\<close>

definition offset :: "'a list list \<Rightarrow> nat \<Rightarrow> nat" where
  "offset xss k = length (concat (take k xss))"

lemma offset_Suc: "k < length xss \<Longrightarrow> offset xss (Suc k) = offset xss k + length (xss ! k)"
  by (simp add: offset_def take_Suc_conv_app_nth)

lemma offset_length: "offset xss (length xss) = length (concat xss)"
  by (simp add: offset_def)

lemma nth_concat_offset:
  assumes "k < length xss" and "j < length (xss ! k)"
  shows "concat xss ! (offset xss k + j) = xss ! k ! j"
proof -
  have "concat xss = concat (take k xss) @ xss ! k @ concat (drop (Suc k) xss)"
    using assms(1) by (metis append_take_drop_id concat.simps(2) concat_append id_take_nth_drop)
  then show ?thesis using assms(2) by (simp add: offset_def nth_append)
qed

lemma position_in_group:
  "i < length (concat xss) \<Longrightarrow> \<exists>k < length xss. offset xss k \<le> i \<and> i < offset xss (Suc k)"
proof (induction xss arbitrary: i rule: rev_induct)
  case (snoc xs xss)
  show ?case
  proof (cases "i < length (concat xss)")
    case True
    then obtain k where "k < length xss" "offset xss k \<le> i" "i < offset xss (Suc k)" using snoc.IH by blast
    then show ?thesis by (intro exI [of _ k]) (simp add: offset_def)
  next
    case False
    with snoc.prems show ?thesis by (intro exI [of _ "length xss"]) (simp add: offset_def)
  qed
qed simp

lemma offset_mono: "k \<le> l \<Longrightarrow> offset xss k \<le> offset xss l"
proof -
  assume "k \<le> l"
  then have "take l xss = take k xss @ take (l - k) (drop k xss)" by (metis le_add_diff_inverse take_add)
  then show ?thesis by (simp add: offset_def)
qed

text \<open>From any position inside a group, alignment runs to the end of that group.\<close>

lemma alignEnd_group:
  assumes mem: "\<And>k j. k < length xss \<Longrightarrow> j < length (xss ! k) \<Longrightarrow> groupOf (xss ! k ! j) = Some (gid k)"
    and gid: "\<And>k l. k < length xss \<Longrightarrow> l < length xss \<Longrightarrow> gid k = gid l \<Longrightarrow> k = l"
    and ne: "\<And>k. k < length xss \<Longrightarrow> xss ! k \<noteq> []"
    and k: "k < length xss"
  shows "offset xss k \<le> e \<Longrightarrow> e \<le> offset xss (Suc k) \<Longrightarrow>
    alignEnd (concat xss) groupOf (Some (gid k)) e = offset xss (Suc k)"
proof (induction "offset xss (Suc k) - e" arbitrary: e)
  case 0
  then have e: "e = offset xss (Suc k)" by simp
  have "groupOf (concat xss ! e) \<noteq> Some (gid k)" if "e < length (concat xss)"
  proof -
    have l: "Suc k < length xss"
      using that e offset_mono [of "length xss" "Suc k" xss] k
      by (metis Suc_lessI less_irrefl offset_length)
    then have "concat xss ! e = xss ! Suc k ! 0"
      using nth_concat_offset [of "Suc k" xss 0] ne [of "Suc k"] by (simp add: e)
    then show ?thesis using mem [of "Suc k" 0] ne [of "Suc k"] gid [of k "Suc k"] l k by auto
  qed
  then show ?case by (subst alignEnd.simps) (auto simp: e)
next
  case (Suc d)
  then have lt: "e < offset xss (Suc k)" by simp
  then have j: "e - offset xss k < length (xss ! k)" using Suc.prems k by (simp add: offset_Suc)
  have "concat xss ! e = xss ! k ! (e - offset xss k)"
    using nth_concat_offset [OF k j] Suc.prems by simp
  then have "groupOf (concat xss ! e) = Some (gid k)" using mem [OF k j] by simp
  moreover have "e < length (concat xss)"
    using lt offset_mono [of "Suc k" "length xss" xss] k by (simp add: offset_length)
  moreover have "alignEnd (concat xss) groupOf (Some (gid k)) (Suc e) = offset xss (Suc k)"
    using Suc by (intro Suc.hyps) auto
  ultimately show ?case by (subst alignEnd.simps) simp
qed

lemma groupAlignedBatchSize_boundary:
  assumes ok: "duplicateDecisionProblem groups assetIds undo = None"
    and k: "k < length groups" and start: "start = offset (map memberIds groups) k"
  obtains l where "k < l" and "l \<le> length groups"
    and "start + groupAlignedBatchSize assetIds start batchSize (duplicateGroupIndex groups) =
      offset (map memberIds groups) l"
    and "min (length assetIds) (start + max 1 batchSize) \<le> offset (map memberIds groups) l"
proof -
  let ?xss = "map memberIds groups" and ?g = "duplicateGroupIndex groups"
  note d = duplicateDecisionProblem_None [OF ok]
  have ne: "?xss ! i \<noteq> []" if "i < length ?xss" for i
  proof -
    from that have "groups ! i \<in> set groups" by simp
    with d(5) have "group_ok (groups ! i)" by blast
    with that show ?thesis by (auto simp: group_ok_def)
  qed
  have mem: "?g (?xss ! i ! j) = Some (duplicateId (groups ! i))"
    if "i < length ?xss" "j < length (?xss ! i)" for i j
    using that d(1,3) by (intro duplicateGroupIndex_member) auto
  have inj: "i = j" if "i < length ?xss" "j < length ?xss" "duplicateId (groups ! i) = duplicateId (groups ! j)" for i j
    using that d(4) by (simp add: distinct_conv_nth) (metis)
  have "0 < length (?xss ! k)" using k ne [of k] by simp
  moreover have "offset ?xss (Suc k) = offset ?xss k + length (?xss ! k)" using k by (intro offset_Suc) simp
  moreover have "offset ?xss (Suc k) \<le> length (concat ?xss)"
    unfolding offset_length [symmetric] using k by (intro offset_mono) simp
  ultimately have lt: "start < length assetIds" unfolding start d(1) by linarith
  define e where "e = min (length assetIds) (start + max 1 batchSize)"
  have e: "start < e" "e \<le> length assetIds" using lt by (auto simp: e_def)
  then have "e - 1 < length (concat ?xss)" by (simp add: d(1))
  then obtain m where m: "m < length ?xss" "offset ?xss m \<le> e - 1" "e - 1 < offset ?xss (Suc m)"
    using position_in_group by blast
  define j where "j = e - 1 - offset ?xss m"
  have j: "e - 1 = offset ?xss m + j" "j < length (?xss ! m)"
    using m by (simp_all only: j_def offset_Suc)
  have "?g (assetIds ! (e - 1)) = Some (duplicateId (groups ! m))"
    unfolding j(1) d(1) nth_concat_offset [OF m(1) j(2)] by (rule mem [OF m(1) j(2)])
  moreover have "alignEnd assetIds ?g (Some (duplicateId (groups ! m))) e = offset ?xss (Suc m)"
    unfolding d(1)
    by (rule alignEnd_group [where gid = "\<lambda>i. duplicateId (groups ! i)", OF mem inj ne m(1)])
      (use m e in auto)
  ultimately have size: "groupAlignedBatchSize assetIds start batchSize ?g = offset ?xss (Suc m) - start"
    using lt by (simp add: groupAlignedBatchSize_def Let_def e_def)
  have "e \<le> offset ?xss (Suc m)" using m by simp
  moreover have "k < Suc m"
  proof (rule ccontr)
    assume "\<not> k < Suc m"
    then have "offset ?xss (Suc m) \<le> start" unfolding start by (intro offset_mono) simp
    with m e show False by simp
  qed
  moreover have "start + groupAlignedBatchSize assetIds start batchSize ?g = offset ?xss (Suc m)"
    using size m e by simp
  ultimately show ?thesis using m(1) by (intro that [of "Suc m"]) (simp_all add: e_def)
qed

lemma trash_never_all:
  assumes "group_ok g"
  shows "set (duplicateTrashIds g) \<noteq> set (memberIds g)"
proof (cases "decision g = Keepers")
  case True
  with assms obtain x where "x \<in> set (keepAssetIds g)" "x \<in> set (memberIds g)"
    by (cases "keepAssetIds g") (auto simp: group_ok_def)
  then show ?thesis by (auto simp: duplicateTrashIds_def)
next
  case False
  with assms show ?thesis by (auto simp: duplicateTrashIds_def group_ok_def)
qed

lemma stack_primary_member:
  assumes "group_ok g"
  shows "\<exists>p \<in> set (memberIds g). duplicateStackPrimary g = Some p"
proof (cases "find_first (\<lambda>aid. aid \<in> set (memberIds g)) (keepAssetIds g)")
  case None
  obtain p ps where m: "memberIds g = p # ps"
    using assms by (cases "memberIds g") (auto simp: group_ok_def)
  have "duplicateStackPrimary g = Some p" unfolding duplicateStackPrimary_def None by (simp add: m)
  then show ?thesis by (simp add: m)
next
  case (Some p)
  then have "p \<in> set (memberIds g)" by (auto dest: find_first_Some)
  with Some show ?thesis by (auto simp: duplicateStackPrimary_def)
qed

lemma take_between_offsets:
  assumes "k \<le> l" and "offset xss k + n = offset xss l"
  shows "take n (drop (offset xss k) (concat xss)) = concat (take (l - k) (drop k xss))"
proof -
  have "drop (offset xss k) (concat xss) = concat (drop k xss)"
    by (metis append_eq_conv_conj append_take_drop_id concat_append offset_def)
  moreover have "concat (drop k xss) = concat (take (l - k) (drop k xss)) @ concat (drop l xss)"
    using assms(1) by (metis append_take_drop_id concat_append drop_drop le_add_diff_inverse2)
  moreover have "take l xss = take k xss @ take (l - k) (drop k xss)"
    using assms(1) by (metis le_add_diff_inverse take_add)
  then have "n = length (concat (take (l - k) (drop k xss)))"
    using assms(2) by (simp add: offset_def)
  ultimately show ?thesis by simp
qed

subsection \<open>The suggested keeper\<close>

lemma foldl_max_ge: "a \<le> foldl max a (xs :: 'a::linorder list) \<and> (\<forall>x \<in> set xs. x \<le> foldl max a xs)"
  by (induction xs arbitrary: a) (auto, (meson max.cobounded1 max.cobounded2 order_trans)+)

lemma foldl_min_le: "foldl min a (xs :: 'a::linorder list) \<le> a \<and> (\<forall>x \<in> set xs. foldl min a xs \<le> x)"
  by (induction xs arbitrary: a) (auto, (meson min.cobounded1 min.cobounded2 order_trans)+)

lemma foldl_max_in: "foldl max a (xs :: 'a::linorder list) \<in> insert a (set xs)"
  by (induction xs arbitrary: a) (auto simp: max_def)

lemma foldl_min_in: "foldl min a (xs :: 'a::linorder list) \<in> insert a (set xs)"
  by (induction xs arbitrary: a) (auto simp: min_def)

lemma maxOf_minOf:
  assumes "xs \<noteq> []"
  shows "maxOf xs \<in> set xs" and "minOf xs \<in> set xs"
    and "x \<in> set xs \<Longrightarrow> x \<le> maxOf xs" and "x \<in> set xs \<Longrightarrow> minOf xs \<le> x"
  using foldl_max_ge [of "hd xs" xs] foldl_min_le [of "hd xs" xs] foldl_max_in [of "hd xs" xs]
    foldl_min_in [of "hd xs" xs] assms
  by (auto simp: maxOf_def minOf_def)

lemma span_le:
  assumes "(xs :: int list) \<noteq> []"
  shows "maxOf xs - minOf xs \<le> d \<longleftrightarrow> (\<forall>x \<in> set xs. \<forall>y \<in> set xs. x - y \<le> d)"
proof
  assume "maxOf xs - minOf xs \<le> d"
  then show "\<forall>x \<in> set xs. \<forall>y \<in> set xs. x - y \<le> d" using maxOf_minOf(3,4) [OF assms] by fastforce
next
  assume "\<forall>x \<in> set xs. \<forall>y \<in> set xs. x - y \<le> d"
  then show "maxOf xs - minOf xs \<le> d" using maxOf_minOf(1,2) [OF assms] by blast
qed

lemma uniq_length_distinct: "length (uniq xs) = length xs \<longleftrightarrow> distinct xs"
  by (metis card_distinct distinct_card distinct_uniq set_uniq uniq_distinct)

text \<open>\<open>beats a b\<close>: \<open>a\<close> replaces \<open>b\<close> as the best copy. It is a strict order, total on distinct ids.\<close>

definition beats :: "reviewAsset \<Rightarrow> reviewAsset \<Rightarrow> bool" where
  "beats a b \<longleftrightarrow> suggestComparison b a < 0"

lemma beats_iff:
  "beats a b \<longleftrightarrow>
     getFormatRank b < getFormatRank a \<or> getFormatRank b = getFormatRank a \<and>
       (fileBytes b < fileBytes a \<or> fileBytes b = fileBytes a \<and>
         (getExifCount b < getExifCount a \<or> getExifCount b = getExifCount a \<and> asset_id a < asset_id b))"
  by (auto simp: beats_def suggestComparison_def Let_def)

lemma beats_trans: "beats a b \<Longrightarrow> beats b c \<Longrightarrow> beats a c"
  unfolding beats_iff by (elim disjE conjE) (auto dest: less_trans)

lemma beats_irrefl: "\<not> beats a a"
  by (simp add: beats_iff)

lemma beats_total: "asset_id a \<noteq> asset_id b \<Longrightarrow> beats a b \<or> beats b a"
  unfolding beats_iff by (metis linorder_neqE)

lemma suggestLoop_best:
  "suggestLoop b xs \<in> set (b # xs) \<and> (suggestLoop b xs = b \<or> beats (suggestLoop b xs) b) \<and>
   (\<forall>x \<in> set (b # xs). \<not> beats x (suggestLoop b xs))"
proof (induction xs arbitrary: b)
  case (Cons a xs)
  show ?case
  proof (cases "beats a b")
    case True
    with Cons.IH [of a] show ?thesis
      by (auto simp: beats_def [symmetric]) (metis beats_trans beats_irrefl)+
  next
    case False
    with Cons.IH [of b] show ?thesis
      by (auto simp: beats_def [symmetric]) (metis beats_trans beats_irrefl)+
  qed
qed (simp add: beats_irrefl)

lemma suggestDuplicate_best:
  assumes "suggestDuplicate xs = Some b"
  shows "b \<in> set xs" and "x \<in> set xs \<Longrightarrow> \<not> beats x b"
  using assms suggestLoop_best by (cases xs; auto)+


subsection \<open>Decisions and batches\<close>

text \<open>
  C33. A duplicate job that is accepted works on exactly the photos of its groups, group by group and
  each once. Every photo finds its own group in the index, a decision trashes only members it does not
  keep, and no group ever loses all its photos; the cover of a stack is a member.
\<close>

theorem duplicate_decision_safe:
  assumes "duplicateDecisionProblem groups assetIds undo = None"
  shows "assetIds = duplicateGroupAssetIds groups \<and> distinct assetIds \<and> distinct (map duplicateId groups) \<and>
    (\<forall>g \<in> set groups.
       set (duplicateTrashIds g) \<subseteq> set (memberIds g) - set (keepAssetIds g) \<and>
       set (duplicateTrashIds g) \<noteq> set (memberIds g) \<and>
       (\<exists>p \<in> set (memberIds g). duplicateStackPrimary g = Some p) \<and>
       (\<forall>x \<in> set (memberIds g). duplicateGroupIndex groups x = Some (duplicateId g)))"
proof (intro conjI ballI)
  note d = duplicateDecisionProblem_None [OF assms]
  show "assetIds = duplicateGroupAssetIds groups" "distinct assetIds" "distinct (map duplicateId groups)"
    using d by (simp_all add: duplicateGroupAssetIds_def)
  fix g assume g: "g \<in> set groups"
  with d(5) have ok: "group_ok g" by blast
  show "set (duplicateTrashIds g) \<subseteq> set (memberIds g) - set (keepAssetIds g)"
    by (auto simp: duplicateTrashIds_def)
  show "set (duplicateTrashIds g) \<noteq> set (memberIds g)" by (rule trash_never_all [OF ok])
  show "\<exists>p \<in> set (memberIds g). duplicateStackPrimary g = Some p" by (rule stack_primary_member [OF ok])
  show "duplicateGroupIndex groups x = Some (duplicateId g)" if "x \<in> set (memberIds g)" for x
    using duplicateGroupIndex_member [OF _ g that] d by simp
qed

definition exampleGroups :: "duplicateGroupDecision list" where
  "exampleGroups =
     [\<lparr>duplicateId = ''g1'', decision = Keepers, memberIds = [''a'', ''b'', ''c''], keepAssetIds = [''b''], decisionId = None\<rparr>,
      \<lparr>duplicateId = ''g2'', decision = StackDecision, memberIds = [''d'', ''e''], keepAssetIds = [], decisionId = None\<rparr>]"

lemma exampleGroups_ok:
  "duplicateDecisionProblem exampleGroups [''a'', ''b'', ''c'', ''d'', ''e''] False = None"
  by (simp add: duplicateDecisionProblem_def exampleGroups_def DUPLICATE_DECISION_MAX_GROUPS_def
      duplicateGroupProblem_def duplicateGroupAssetIds_def upt_rec)

theorem duplicate_decision_safe_witness:
  "set (duplicateTrashIds (hd exampleGroups)) \<noteq> set (memberIds (hd exampleGroups)) \<and>
   duplicateGroupIndex exampleGroups ''c'' = Some ''g1''"
proof -
  have "hd exampleGroups \<in> set exampleGroups" "''c'' \<in> set (memberIds (hd exampleGroups))"
    "duplicateId (hd exampleGroups) = ''g1''"
    by (simp_all add: exampleGroups_def)
  then show ?thesis using duplicate_decision_safe [OF exampleGroups_ok] by metis
qed

text \<open>
  Batches end on group boundaries and always advance. From the start of any group of an accepted
  job, the next batch takes whole groups, at least one of them, and at least the batch size unless the
  job ends first.
\<close>

theorem batch_ends_on_group:
  assumes "duplicateDecisionProblem groups assetIds undo = None" and "k < length groups"
    and "start = length (duplicateGroupAssetIds (take k groups))"
  shows "\<exists>l. k < l \<and> l \<le> length groups \<and>
    take (groupAlignedBatchSize assetIds start batchSize (duplicateGroupIndex groups)) (drop start assetIds) =
      duplicateGroupAssetIds (take (l - k) (drop k groups)) \<and>
    min (length assetIds) (start + max 1 batchSize) \<le>
      start + groupAlignedBatchSize assetIds start batchSize (duplicateGroupIndex groups)"
proof -
  let ?xss = "map memberIds groups" and ?n = "groupAlignedBatchSize assetIds start batchSize (duplicateGroupIndex groups)"
  have start: "start = offset ?xss k"
    using assms(3) by (simp add: offset_def duplicateGroupAssetIds_def take_map)
  obtain l where l: "k < l" "l \<le> length groups" "start + ?n = offset ?xss l"
    "min (length assetIds) (start + max 1 batchSize) \<le> offset ?xss l"
    by (rule groupAlignedBatchSize_boundary [OF assms(1,2) start])
  have "take ?n (drop start assetIds) = concat (take (l - k) (drop k ?xss))"
    using take_between_offsets [of k l ?xss ?n] l start
    by (simp add: duplicateDecisionProblem_None(1) [OF assms(1), symmetric])
  then show ?thesis using l
    by (intro exI [of _ l]) (simp add: duplicateGroupAssetIds_def take_map drop_map)
qed

theorem batch_ends_on_group_witness:
  "\<exists>l. 0 < l \<and> l \<le> length exampleGroups \<and>
    take (groupAlignedBatchSize [''a'', ''b'', ''c'', ''d'', ''e''] 0 2 (duplicateGroupIndex exampleGroups))
      (drop 0 [''a'', ''b'', ''c'', ''d'', ''e'']) = duplicateGroupAssetIds (take (l - 0) (drop 0 exampleGroups))"
  using batch_ends_on_group [OF exampleGroups_ok, of 0 0 2]
  by (auto simp: exampleGroups_def duplicateGroupAssetIds_def)


subsection \<open>How a group reads\<close>

text \<open>
  The suggested keeper depends on the photos alone. Whatever the order in which a group lists its
  photos, the same one is suggested, and no photo of the group has a preferred format, or the same
  format and more bytes, than the one suggested.
\<close>

theorem suggestion_order_independent:
  assumes "mset assets = mset assets'" and "distinct (map asset_id assets)"
  shows "suggestDuplicateKeepAssetIds assets = suggestDuplicateKeepAssetIds assets' \<and>
    (\<forall>b. suggestDuplicate assets = Some b \<longrightarrow> b \<in> set assets \<and>
      (\<forall>x \<in> set assets. getFormatRank x < getFormatRank b \<or>
         getFormatRank x = getFormatRank b \<and> fileBytes x \<le> fileBytes b))"
proof -
  have same: "set assets = set assets'" using assms(1) by (metis set_mset_mset)
  have eq: "suggestDuplicate assets = suggestDuplicate assets'"
  proof (cases "suggestDuplicate assets")
    case None
    then have "assets = []" by (cases assets) auto
    with assms(1) show ?thesis by simp
  next
    case (Some b)
    then have "assets' \<noteq> []" using assms(1) by (cases assets) auto
    then obtain c where c: "suggestDuplicate assets' = Some c" by (cases assets') auto
    have "\<not> beats b c" "\<not> beats c b" "b \<in> set assets" "c \<in> set assets"
      using suggestDuplicate_best [OF Some] suggestDuplicate_best [OF c] same by auto
    then have "b = c" using beats_total [of b c] assms(2) by (auto simp: distinct_map dest: inj_onD)
    with Some c show ?thesis by simp
  qed
  have "getFormatRank x < getFormatRank b \<or> getFormatRank x = getFormatRank b \<and> fileBytes x \<le> fileBytes b"
    if "suggestDuplicate assets = Some b" "x \<in> set assets" for b x
    using suggestDuplicate_best(2) [OF that] unfolding beats_iff by (auto simp: not_less)
  with eq show ?thesis
    using suggestDuplicate_best(1) by (auto simp: suggestDuplicateKeepAssetIds_def)
qed

definition exampleAsset :: "string \<Rightarrow> string \<Rightarrow> reviewAsset" where
  "exampleAsset aid name =
     \<lparr>asset_id = aid, asset_type = Image, localDateTime = [], originalFileName = name,
      exifInfo = JObj [(''fileSizeInByte'', JNum 10)], asset_checksum = None, isEdited = False,
      livePhotoVideoId = None\<rparr>"

theorem suggestion_order_independent_witness:
  "suggestDuplicateKeepAssetIds [exampleAsset ''1'' ''a.jpg'', exampleAsset ''2'' ''a.nef''] =
   suggestDuplicateKeepAssetIds [exampleAsset ''2'' ''a.nef'', exampleAsset ''1'' ''a.jpg'']"
  by (rule conjunct1 [OF suggestion_order_independent]) (simp_all add: exampleAsset_def)

text \<open>
  A group reads as a burst or as look-alikes only when it holds several photos, no video, whose capture
  times are all known and all different; a burst has every two of them within twenty seconds, and
  look-alikes have two further apart.
\<close>

theorem reviewKindOf_evidence:
  assumes "reviewKindOf dateParse assets \<noteq> Copies"
  shows "length assets \<ge> 2 \<and> (\<forall>a \<in> set assets. asset_type a = Image) \<and>
    (\<exists>t. map (captureTime dateParse) assets = map Some t \<and> distinct t \<and>
      (reviewKindOf dateParse assets = BurstKind \<longleftrightarrow> (\<forall>x \<in> set t. \<forall>y \<in> set t. x - y \<le> 20000)))"
proof -
  let ?times = "map (captureTime dateParse) assets"
  let ?t = "map the ?times"
  from assms have two: "length assets \<ge> 2" and img: "\<forall>a \<in> set assets. asset_type a = Image"
    and known: "None \<notin> set ?times" and uniq: "length (uniq ?t) = length ?t"
    by (auto simp: reviewKindOf_def Let_def list_ex_iff split: if_splits)
  have kind: "reviewKindOf dateParse assets = BurstKind \<longleftrightarrow> maxOf ?t - minOf ?t \<le> 20000"
    using assms by (auto simp: reviewKindOf_def Let_def maxOf_def minOf_def DUPLICATE_BURST_SECONDS_def split: if_splits)
  have "?times = map Some ?t" using known by (auto simp: image_iff)
  moreover have "distinct ?t" using uniq by (simp only: uniq_length_distinct)
  moreover have "?t \<noteq> []" using two by auto
  then have "maxOf ?t - minOf ?t \<le> 20000 \<longleftrightarrow> (\<forall>x \<in> set ?t. \<forall>y \<in> set ?t. x - y \<le> 20000)"
    by (rule span_le)
  ultimately show ?thesis using two img kind by blast
qed

definition exampleBurst :: "reviewAsset list" where
  "exampleBurst = [(exampleAsset ''1'' ''a.jpg'')\<lparr>localDateTime := ''1''\<rparr>, (exampleAsset ''2'' ''b.jpg'')\<lparr>localDateTime := ''22''\<rparr>]"

theorem reviewKindOf_evidence_witness:
  "\<exists>t. map (captureTime (\<lambda>s. Some (int (length s)))) exampleBurst = map Some t \<and> distinct t"
proof -
  have "reviewKindOf (\<lambda>s. Some (int (length s))) exampleBurst = BurstKind"
    by (simp add: reviewKindOf_def exampleBurst_def exampleAsset_def captureTime_def uniq_def
        DUPLICATE_BURST_SECONDS_def)
  then show ?thesis using reviewKindOf_evidence [of "\<lambda>s. Some (int (length s))" exampleBurst] by auto
qed

end
