(* ===== verification/Access.thy ===== *)
theory Access
  imports Frameleaf_Prelude
begin

text \<open>
  Who may do what: \<open>server/src/utils/access.ts\<close> and \<open>server/src/utils/hidden-content.ts\<close>, with
  \<open>getLockedOwnerId\<close> of \<open>server/src/utils/locked.ts\<close>.

  A permission is the string value of the TypeScript enum, named by an abbreviation. The access
  repository, whose methods are SQL queries, is an argument: a record of functions, one per method the
  code calls. \<open>repository_ok\<close> states what every one of those queries does, filter the ids it was given.

  The lemmas show that a check never answers with an id that was not asked for, that what only an owner
  may do is decided by the owner check alone, that a shared link reaches only what it was made for, and
  that nothing locked is revealed outside the owner's own unlocked session.
\<close>

type_synonym permission = string

abbreviation AllPermissions :: permission where
  "AllPermissions \<equiv> ''all''"

abbreviation ActivityCreate :: permission where
  "ActivityCreate \<equiv> ''activity.create''"

abbreviation ActivityDelete :: permission where
  "ActivityDelete \<equiv> ''activity.delete''"

abbreviation AssetRead :: permission where
  "AssetRead \<equiv> ''asset.read''"

abbreviation AssetShare :: permission where
  "AssetShare \<equiv> ''asset.share''"

abbreviation AssetFileDownload :: permission where
  "AssetFileDownload \<equiv> ''assetFile.download''"

abbreviation AssetView :: permission where
  "AssetView \<equiv> ''asset.view''"

abbreviation AssetDownload :: permission where
  "AssetDownload \<equiv> ''asset.download''"

abbreviation AssetUpdate :: permission where
  "AssetUpdate \<equiv> ''asset.update''"

abbreviation AssetDelete :: permission where
  "AssetDelete \<equiv> ''asset.delete''"

abbreviation AssetCopy :: permission where
  "AssetCopy \<equiv> ''asset.copy''"

abbreviation AssetEditGet :: permission where
  "AssetEditGet \<equiv> ''asset.edit.get''"

abbreviation AssetEditCreate :: permission where
  "AssetEditCreate \<equiv> ''asset.edit.create''"

abbreviation AssetEditDelete :: permission where
  "AssetEditDelete \<equiv> ''asset.edit.delete''"

abbreviation AssetFileRead :: permission where
  "AssetFileRead \<equiv> ''assetFile.read''"

abbreviation AssetFileDelete :: permission where
  "AssetFileDelete \<equiv> ''assetFile.delete''"

abbreviation AlbumRead :: permission where
  "AlbumRead \<equiv> ''album.read''"

abbreviation AlbumAssetCreate :: permission where
  "AlbumAssetCreate \<equiv> ''albumAsset.create''"

abbreviation AlbumUpdate :: permission where
  "AlbumUpdate \<equiv> ''album.update''"

abbreviation AlbumDelete :: permission where
  "AlbumDelete \<equiv> ''album.delete''"

abbreviation AlbumShare :: permission where
  "AlbumShare \<equiv> ''album.share''"

abbreviation AlbumDownload :: permission where
  "AlbumDownload \<equiv> ''album.download''"

abbreviation AlbumAssetDelete :: permission where
  "AlbumAssetDelete \<equiv> ''albumAsset.delete''"

abbreviation AssetUpload :: permission where
  "AssetUpload \<equiv> ''asset.upload''"

abbreviation ArchiveRead :: permission where
  "ArchiveRead \<equiv> ''archive.read''"

abbreviation DuplicateRead :: permission where
  "DuplicateRead \<equiv> ''duplicate.read''"

abbreviation DuplicateDelete :: permission where
  "DuplicateDelete \<equiv> ''duplicate.delete''"

abbreviation AuthDeviceDelete :: permission where
  "AuthDeviceDelete \<equiv> ''authDevice.delete''"

abbreviation FaceUpdate :: permission where
  "FaceUpdate \<equiv> ''face.update''"

abbreviation FaceDelete :: permission where
  "FaceDelete \<equiv> ''face.delete''"

abbreviation NotificationRead :: permission where
  "NotificationRead \<equiv> ''notification.read''"

abbreviation NotificationUpdate :: permission where
  "NotificationUpdate \<equiv> ''notification.update''"

abbreviation NotificationDelete :: permission where
  "NotificationDelete \<equiv> ''notification.delete''"

abbreviation TagAsset :: permission where
  "TagAsset \<equiv> ''tag.asset''"

abbreviation TagRead :: permission where
  "TagRead \<equiv> ''tag.read''"

abbreviation TagUpdate :: permission where
  "TagUpdate \<equiv> ''tag.update''"

abbreviation TagDelete :: permission where
  "TagDelete \<equiv> ''tag.delete''"

abbreviation TimelineRead :: permission where
  "TimelineRead \<equiv> ''timeline.read''"

abbreviation TimelineDownload :: permission where
  "TimelineDownload \<equiv> ''timeline.download''"

abbreviation MemoryRead :: permission where
  "MemoryRead \<equiv> ''memory.read''"

abbreviation MemoryUpdate :: permission where
  "MemoryUpdate \<equiv> ''memory.update''"

abbreviation MemoryDelete :: permission where
  "MemoryDelete \<equiv> ''memory.delete''"

abbreviation PersonCreate :: permission where
  "PersonCreate \<equiv> ''person.create''"

abbreviation PersonRead :: permission where
  "PersonRead \<equiv> ''person.read''"

abbreviation PersonUpdate :: permission where
  "PersonUpdate \<equiv> ''person.update''"

abbreviation PersonDelete :: permission where
  "PersonDelete \<equiv> ''person.delete''"

abbreviation PersonMerge :: permission where
  "PersonMerge \<equiv> ''person.merge''"

abbreviation PersonReassign :: permission where
  "PersonReassign \<equiv> ''person.reassign''"

abbreviation ClusterGroupRead :: permission where
  "ClusterGroupRead \<equiv> ''clusterGroup.read''"

abbreviation ClusterGroupLeave :: permission where
  "ClusterGroupLeave \<equiv> ''clusterGroup.leave''"

abbreviation ClusterGroupRequestCreate :: permission where
  "ClusterGroupRequestCreate \<equiv> ''clusterGroupRequest.create''"

abbreviation ClusterGroupRequestDelete :: permission where
  "ClusterGroupRequestDelete \<equiv> ''clusterGroupRequest.delete''"

abbreviation ClusterGroupRequestRead :: permission where
  "ClusterGroupRequestRead \<equiv> ''clusterGroupRequest.read''"

abbreviation PartnerUpdate :: permission where
  "PartnerUpdate \<equiv> ''partner.update''"

abbreviation SessionRead :: permission where
  "SessionRead \<equiv> ''session.read''"

abbreviation SessionUpdate :: permission where
  "SessionUpdate \<equiv> ''session.update''"

abbreviation SessionDelete :: permission where
  "SessionDelete \<equiv> ''session.delete''"

abbreviation SessionLock :: permission where
  "SessionLock \<equiv> ''session.lock''"

abbreviation StackCreate :: permission where
  "StackCreate \<equiv> ''stack.create''"

abbreviation StackRead :: permission where
  "StackRead \<equiv> ''stack.read''"

abbreviation StackUpdate :: permission where
  "StackUpdate \<equiv> ''stack.update''"

abbreviation StackDelete :: permission where
  "StackDelete \<equiv> ''stack.delete''"

abbreviation WorkflowRead :: permission where
  "WorkflowRead \<equiv> ''workflow.read''"

abbreviation WorkflowUpdate :: permission where
  "WorkflowUpdate \<equiv> ''workflow.update''"

abbreviation WorkflowDelete :: permission where
  "WorkflowDelete \<equiv> ''workflow.delete''"

abbreviation WorkflowLogs :: permission where
  "WorkflowLogs \<equiv> ''workflow.logs''"

text \<open>Every value of the enum, in its order.\<close>

definition permissionValues :: "permission list" where
  "permissionValues =
     [''all'', ''bookmark.create'', ''bookmark.read'', ''bookmark.update'', ''bookmark.delete'',
      ''capture.create'', ''capture.catalog.read'', ''activity.create'', ''activity.read'',
      ''activity.update'', ''activity.delete'', ''activity.statistics'', ''apiKey.create'',
      ''apiKey.read'', ''apiKey.update'', ''apiKey.delete'', ''apiKey.rotate'', ''asset.read'',
      ''assetSource.read'', ''asset.update'', ''asset.delete'', ''asset.statistics'', ''asset.share'',
      ''asset.view'', ''asset.download'', ''asset.upload'', ''asset.copy'', ''asset.derive'',
      ''assetFile.read'', ''assetFile.delete'', ''assetFile.download'', ''asset.edit.get'',
      ''asset.edit.create'', ''asset.edit.delete'', ''album.create'', ''album.read'', ''album.update'',
      ''album.delete'', ''album.statistics'', ''album.share'', ''album.download'', ''albumAsset.create'',
      ''albumAsset.delete'', ''albumUser.create'', ''albumUser.update'', ''albumUser.delete'',
      ''auth.changePassword'', ''authDevice.delete'', ''archive.read'', ''backup.list'',
      ''backup.download'', ''backup.upload'', ''backup.delete'', ''clusterGroup.read'',
      ''clusterGroup.leave'', ''clusterGroupRequest.create'', ''clusterGroupRequest.read'',
      ''clusterGroupRequest.delete'', ''adminConfig.read'', ''adminConfig.update'', ''userConfig.read'',
      ''duplicate.read'', ''duplicate.delete'', ''face.create'', ''face.read'', ''face.update'',
      ''face.delete'', ''folder.read'', ''job.create'', ''job.read'', ''library.create'', ''library.read'',
      ''library.update'', ''library.delete'', ''library.statistics'', ''timeline.read'',
      ''timeline.download'', ''maintenance'', ''map.read'', ''map.search'', ''memory.create'',
      ''memory.read'', ''memory.update'', ''memory.delete'', ''memory.statistics'', ''memoryAsset.create'',
      ''memoryAsset.delete'', ''notification.create'', ''notification.read'', ''notification.update'',
      ''notification.delete'', ''partner.create'', ''partner.read'', ''partner.update'',
      ''partner.delete'', ''person.create'', ''person.read'', ''person.update'', ''person.delete'',
      ''person.statistics'', ''person.merge'', ''person.reassign'', ''pinCode.create'', ''pinCode.update'',
      ''pinCode.delete'', ''plugin.create'', ''plugin.read'', ''plugin.update'', ''plugin.delete'',
      ''server.about'', ''server.apkLinks'', ''server.storage'', ''server.statistics'',
      ''server.versionCheck'', ''adminCloud.read'', ''adminCloud.update'', ''adminCloud.link'',
      ''adminRemoteAccess.update'', ''frameleafAccount.read'', ''frameleafAccount.update'',
      ''adminCloudMl.read'', ''adminCloudMl.update'', ''cloudMlJob.create'', ''cloudMlJob.read'',
      ''adminCloudBackup.read'', ''adminCloudBackup.update'', ''adminCloudBackup.run'',
      ''serverLicense.read'', ''serverLicense.update'', ''serverLicense.delete'', ''session.create'',
      ''session.read'', ''session.update'', ''session.delete'', ''session.lock'', ''sharedLink.create'',
      ''sharedLink.read'', ''sharedLink.update'', ''sharedLink.delete'', ''stack.create'', ''stack.read'',
      ''stack.update'', ''stack.delete'', ''sync.stream'', ''syncCheckpoint.read'',
      ''syncCheckpoint.update'', ''syncCheckpoint.delete'', ''systemConfig.read'', ''systemConfig.update'',
      ''systemMetadata.read'', ''systemMetadata.update'', ''tag.create'', ''tag.read'', ''tag.update'',
      ''tag.delete'', ''tag.asset'', ''user.read'', ''user.update'', ''userLicense.create'',
      ''userLicense.read'', ''userLicense.update'', ''userLicense.delete'', ''userOnboarding.read'',
      ''userOnboarding.update'', ''userOnboarding.delete'', ''userPreference.read'',
      ''userPreference.update'', ''userProfileImage.create'', ''userProfileImage.read'',
      ''userProfileImage.update'', ''userProfileImage.delete'', ''queue.read'', ''queue.update'',
      ''queueJob.create'', ''queueJob.read'', ''queueJob.update'', ''queueJob.delete'',
      ''workflow.create'', ''workflow.read'', ''workflow.update'', ''workflow.delete'', ''workflow.logs'',
      ''adminUser.create'', ''adminUser.read'', ''adminUser.update'', ''adminUser.delete'',
      ''adminSession.read'', ''adminSession.delete'', ''adminAuth.unlinkAll'']"

datatype albumUserRole = Editor | OwnerRole | Viewer

datatype suppressionScope = Owned | Visible

record hiddenContentFilter =
  tagIds :: "string list"
  personIds :: "string list"
  petIds :: "string list"
  scope :: suppressionScope
  filter_userId :: string
  includeNsfw :: bool

record authSharedLink =
  link_id :: string
  allowUpload :: bool
  allowDownload :: bool

record authSession =
  session_id :: string
  hasElevatedPermission :: bool

record authDto =
  user_id :: string
  uploadsPaused :: bool
  sharedLink :: "authSharedLink option"
  session :: "authSession option"
  hideNsfwAssets :: "bool option"
  hiddenContent :: "hiddenContentFilter option"
  suppressedContent :: "hiddenContentFilter option"

text \<open>The value \<open>boolean | HiddenContentFilter\<close> a repository method takes.\<close>

datatype privacy = Flag bool | ContentFilter hiddenContentFilter

fun privacy_truthy :: "privacy option \<Rightarrow> bool" where
  "privacy_truthy None = False"
| "privacy_truthy (Some (Flag b)) = b"
| "privacy_truthy (Some (ContentFilter _)) = True"

type_synonym ids = "string set"

record accessRepository =
  activity_checkCreateAccess :: "string \<Rightarrow> ids \<Rightarrow> ids"
  activity_checkOwnerAccess :: "string \<Rightarrow> ids \<Rightarrow> privacy option \<Rightarrow> ids"
  activity_checkAlbumOwnerAccess :: "string \<Rightarrow> ids \<Rightarrow> privacy option \<Rightarrow> ids"
  asset_checkOwnerAccess :: "string \<Rightarrow> ids \<Rightarrow> bool option \<Rightarrow> privacy option \<Rightarrow> ids"
  asset_checkAlbumAccess :: "string \<Rightarrow> ids \<Rightarrow> privacy option \<Rightarrow> ids"
  asset_checkItemShareAccess :: "string \<Rightarrow> ids \<Rightarrow> privacy option \<Rightarrow> ids"
  asset_checkSharedLinkAccess :: "string \<Rightarrow> ids \<Rightarrow> privacy option \<Rightarrow> ids"
  assetFile_checkOwnerAccess :: "string \<Rightarrow> ids \<Rightarrow> bool option \<Rightarrow> privacy option \<Rightarrow> ids"
  album_checkOwnerAccess :: "string \<Rightarrow> ids \<Rightarrow> ids"
  album_checkSharedAlbumAccess :: "string \<Rightarrow> ids \<Rightarrow> albumUserRole \<Rightarrow> ids"
  album_checkSharedLinkAccess :: "string \<Rightarrow> ids \<Rightarrow> ids"
  authDevice_checkOwnerAccess :: "string \<Rightarrow> ids \<Rightarrow> ids"
  clusterGroup_checkOwnerAccess :: "string \<Rightarrow> ids \<Rightarrow> ids"
  clusterGroup_checkInviteAccess :: "string \<Rightarrow> ids \<Rightarrow> ids"
  clusterGroupRequest_checkOwnerAccess :: "string \<Rightarrow> ids \<Rightarrow> ids"
  clusterGroupRequest_checkGroupAccess :: "string \<Rightarrow> ids \<Rightarrow> ids"
  duplicate_checkOwnerAccess :: "string \<Rightarrow> ids \<Rightarrow> privacy option \<Rightarrow> ids"
  memory_checkOwnerAccess :: "string \<Rightarrow> ids \<Rightarrow> privacy option \<Rightarrow> string option \<Rightarrow> ids"
  notification_checkOwnerAccess :: "string \<Rightarrow> ids \<Rightarrow> ids"
  partner_checkUpdateAccess :: "string \<Rightarrow> ids \<Rightarrow> ids"
  person_checkOwnerAccess :: "string \<Rightarrow> ids \<Rightarrow> privacy option \<Rightarrow> ids"
  person_checkFaceOwnerAccess :: "string \<Rightarrow> ids \<Rightarrow> privacy option \<Rightarrow> bool \<Rightarrow> ids"
  session_checkOwnerAccess :: "string \<Rightarrow> ids \<Rightarrow> ids"
  stack_checkOwnerAccess :: "string \<Rightarrow> ids \<Rightarrow> privacy option \<Rightarrow> ids"
  tag_checkOwnerAccess :: "string \<Rightarrow> ids \<Rightarrow> privacy option \<Rightarrow> bool option \<Rightarrow> ids"
  workflow_checkOwnerAccess :: "string \<Rightarrow> ids \<Rightarrow> ids"

datatype access_error =
    Unauthorized string
  | Forbidden string
  | BadRequest string
  | NotFound string

section \<open>access.ts\<close>

definition isGranted :: "permission list \<Rightarrow> permission list \<Rightarrow> bool" where
  "isGranted requested current =
     (if AllPermissions \<in> set current then True else set requested \<subseteq> set current)"

definition elevated_opt :: "authDto \<Rightarrow> bool option" where
  "elevated_opt auth = map_option hasElevatedPermission (session auth)"

definition elevated :: "authDto \<Rightarrow> bool" where
  "elevated auth = (elevated_opt auth = Some True)"

definition getLockedOwnerId :: "authDto \<Rightarrow> string option" where
  "getLockedOwnerId auth =
     (if sharedLink auth \<noteq> None then None else if elevated auth then Some (user_id auth) else None)"

definition accessPrivacy :: "authDto \<Rightarrow> privacy option" where
  "accessPrivacy auth =
     (case hiddenContent auth of
        Some f \<Rightarrow> Some (ContentFilter f)
      | None \<Rightarrow> map_option Flag (hideNsfwAssets auth))"

text \<open>The optional last argument: passed only when it is truthy.\<close>

definition privacyArg :: "privacy option \<Rightarrow> privacy option" where
  "privacyArg p = (if privacy_truthy p then p else None)"

definition checkAssetOwnerAccess :: "accessRepository \<Rightarrow> authDto \<Rightarrow> ids \<Rightarrow> bool option \<Rightarrow> ids" where
  "checkAssetOwnerAccess acc auth ids el =
     asset_checkOwnerAccess acc (user_id auth) ids el (privacyArg (accessPrivacy auth))"

definition checkAssetFileOwnerAccess :: "accessRepository \<Rightarrow> authDto \<Rightarrow> ids \<Rightarrow> ids" where
  "checkAssetFileOwnerAccess acc auth ids =
     assetFile_checkOwnerAccess acc (user_id auth) ids (elevated_opt auth) (privacyArg (accessPrivacy auth))"

definition checkAssetAlbumAccess :: "accessRepository \<Rightarrow> authDto \<Rightarrow> ids \<Rightarrow> ids" where
  "checkAssetAlbumAccess acc auth ids =
     asset_checkAlbumAccess acc (user_id auth) ids (privacyArg (accessPrivacy auth))"

definition checkAssetItemShareAccess :: "accessRepository \<Rightarrow> authDto \<Rightarrow> ids \<Rightarrow> ids" where
  "checkAssetItemShareAccess acc auth ids =
     asset_checkItemShareAccess acc (user_id auth) ids (privacyArg (accessPrivacy auth))"

definition checkPersonOwnerAccess :: "accessRepository \<Rightarrow> authDto \<Rightarrow> ids \<Rightarrow> ids" where
  "checkPersonOwnerAccess acc auth ids =
     person_checkOwnerAccess acc (user_id auth) ids (privacyArg (accessPrivacy auth))"

definition checkPersonFaceOwnerAccess :: "accessRepository \<Rightarrow> authDto \<Rightarrow> ids \<Rightarrow> ids" where
  "checkPersonFaceOwnerAccess acc auth ids =
     person_checkFaceOwnerAccess acc (user_id auth) ids (accessPrivacy auth) (elevated auth)"

definition checkActivityOwnerAccess :: "accessRepository \<Rightarrow> authDto \<Rightarrow> ids \<Rightarrow> ids" where
  "checkActivityOwnerAccess acc auth ids =
     activity_checkOwnerAccess acc (user_id auth) ids (privacyArg (accessPrivacy auth))"

definition checkActivityAlbumOwnerAccess :: "accessRepository \<Rightarrow> authDto \<Rightarrow> ids \<Rightarrow> ids" where
  "checkActivityAlbumOwnerAccess acc auth ids =
     activity_checkAlbumOwnerAccess acc (user_id auth) ids (privacyArg (accessPrivacy auth))"

definition checkDuplicateOwnerAccess :: "accessRepository \<Rightarrow> authDto \<Rightarrow> ids \<Rightarrow> ids" where
  "checkDuplicateOwnerAccess acc auth ids =
     duplicate_checkOwnerAccess acc (user_id auth) ids (privacyArg (accessPrivacy auth))"

definition checkMemoryOwnerAccess :: "accessRepository \<Rightarrow> authDto \<Rightarrow> ids \<Rightarrow> ids" where
  "checkMemoryOwnerAccess acc auth ids =
     memory_checkOwnerAccess acc (user_id auth) ids (accessPrivacy auth) (getLockedOwnerId auth)"

definition checkStackOwnerAccess :: "accessRepository \<Rightarrow> authDto \<Rightarrow> ids \<Rightarrow> ids" where
  "checkStackOwnerAccess acc auth ids =
     stack_checkOwnerAccess acc (user_id auth) ids (privacyArg (accessPrivacy auth))"

definition requireUploadAccess :: "authDto option \<Rightarrow> access_error + authDto" where
  "requireUploadAccess auth =
     (case auth of
        None \<Rightarrow> Inl (Unauthorized [])
      | Some a \<Rightarrow>
          (case sharedLink a of
             Some l \<Rightarrow> if \<not> allowUpload l then Inl (Unauthorized []) else Inr a
           | None \<Rightarrow> Inr a))"

definition requireUploadsNotPaused :: "authDto \<Rightarrow> access_error + unit" where
  "requireUploadsNotPaused auth =
     (if uploadsPaused auth then Inl (Forbidden ''New uploads are paused for this account'') else Inr ())"

definition checkSharedLinkAccess ::
  "accessRepository \<Rightarrow> authSharedLink \<Rightarrow> privacy option \<Rightarrow> permission \<Rightarrow> ids \<Rightarrow> ids" where
  "checkSharedLinkAccess acc link hide p ids =
     (let linkAssets = asset_checkSharedLinkAccess acc (link_id link) ids (privacyArg hide);
          linkAlbums = album_checkSharedLinkAccess acc (link_id link) ids
      in if p = AssetRead then linkAssets
         else if p = AssetView then linkAssets
         else if p = AssetDownload then (if \<not> allowDownload link then {} else linkAssets)
         else if p = AssetUpload then (if allowUpload link then ids else {})
         else if p = AlbumRead then linkAlbums
         else if p = AlbumDownload then (if allowDownload link then linkAlbums else {})
         else if p = AlbumAssetCreate then (if allowUpload link then linkAlbums else {})
         else {})"

text \<open>The two patterns \<open>checkOtherAccess\<close> repeats: an asset seen as owner, through an album or an item
  share, and an album reached as owner or with a role.\<close>

definition assetVisibleAccess :: "accessRepository \<Rightarrow> authDto \<Rightarrow> ids \<Rightarrow> ids" where
  "assetVisibleAccess acc auth ids =
     (let isOwner = checkAssetOwnerAccess acc auth ids (elevated_opt auth);
          isAlbum = checkAssetAlbumAccess acc auth (ids - isOwner);
          isShared = checkAssetItemShareAccess acc auth ((ids - isOwner) - isAlbum)
      in (isOwner \<union> isAlbum) \<union> isShared)"

definition albumRoleAccess :: "accessRepository \<Rightarrow> authDto \<Rightarrow> ids \<Rightarrow> albumUserRole \<Rightarrow> ids" where
  "albumRoleAccess acc auth ids role =
     (let isOwner = album_checkOwnerAccess acc (user_id auth) ids;
          isShared = album_checkSharedAlbumAccess acc (user_id auth) (ids - isOwner) role
      in isOwner \<union> isShared)"

definition selfAccess :: "authDto \<Rightarrow> ids \<Rightarrow> ids" where
  "selfAccess auth ids = (if user_id auth \<in> ids then {user_id auth} else {})"

definition checkOtherAccess :: "accessRepository \<Rightarrow> authDto \<Rightarrow> permission \<Rightarrow> ids \<Rightarrow> ids" where
  "checkOtherAccess acc auth p ids =
     (if p = ActivityCreate then activity_checkCreateAccess acc (user_id auth) ids
      else if p = ActivityDelete then
        (let isOwner = checkActivityOwnerAccess acc auth ids;
             isAlbumOwner = checkActivityAlbumOwnerAccess acc auth (ids - isOwner)
         in isOwner \<union> isAlbumOwner)
      else if p = AssetRead then assetVisibleAccess acc auth ids
      else if p = AssetShare then checkAssetOwnerAccess acc auth ids (Some (elevated auth))
      else if p = AssetFileDownload then checkAssetFileOwnerAccess acc auth ids
      else if p = AssetView then assetVisibleAccess acc auth ids
      else if p = AssetDownload then assetVisibleAccess acc auth ids
      else if p = AssetUpdate then checkAssetOwnerAccess acc auth ids (elevated_opt auth)
      else if p = AssetDelete then checkAssetOwnerAccess acc auth ids (elevated_opt auth)
      else if p = AssetCopy then checkAssetOwnerAccess acc auth ids (elevated_opt auth)
      else if p = AssetEditGet then checkAssetOwnerAccess acc auth ids (elevated_opt auth)
      else if p = AssetEditCreate then checkAssetOwnerAccess acc auth ids (elevated_opt auth)
      else if p = AssetEditDelete then checkAssetOwnerAccess acc auth ids (elevated_opt auth)
      else if p = AssetFileRead \<or> p = AssetFileDelete then checkAssetFileOwnerAccess acc auth ids
      else if p = AlbumRead then albumRoleAccess acc auth ids Viewer
      else if p = AlbumAssetCreate then albumRoleAccess acc auth ids Editor
      else if p = AlbumUpdate then albumRoleAccess acc auth ids Editor
      else if p = AlbumDelete then album_checkOwnerAccess acc (user_id auth) ids
      else if p = AlbumShare then albumRoleAccess acc auth ids Editor
      else if p = AlbumDownload then albumRoleAccess acc auth ids Viewer
      else if p = AlbumAssetDelete then albumRoleAccess acc auth ids Editor
      else if p = AssetUpload then selfAccess auth ids
      else if p = ArchiveRead then selfAccess auth ids
      else if p = DuplicateRead \<or> p = DuplicateDelete then checkDuplicateOwnerAccess acc auth ids
      else if p = AuthDeviceDelete then authDevice_checkOwnerAccess acc (user_id auth) ids
      else if p = FaceUpdate \<or> p = FaceDelete then checkPersonFaceOwnerAccess acc auth ids
      else if p = NotificationRead \<or> p = NotificationUpdate \<or> p = NotificationDelete then
        notification_checkOwnerAccess acc (user_id auth) ids
      else if p = TagAsset then tag_checkOwnerAccess acc (user_id auth) ids None None
      else if p = TagRead \<or> p = TagUpdate \<or> p = TagDelete then
        tag_checkOwnerAccess acc (user_id auth) ids (accessPrivacy auth) (Some (getLockedOwnerId auth \<in> {None, Some []}))
      else if p = TimelineRead then selfAccess auth ids
      else if p = TimelineDownload then selfAccess auth ids
      else if p = MemoryRead then checkMemoryOwnerAccess acc auth ids
      else if p = MemoryUpdate then checkMemoryOwnerAccess acc auth ids
      else if p = MemoryDelete then checkMemoryOwnerAccess acc auth ids
      else if p = PersonCreate then checkPersonFaceOwnerAccess acc auth ids
      else if p = PersonRead \<or> p = PersonUpdate \<or> p = PersonDelete \<or> p = PersonMerge then
        checkPersonOwnerAccess acc auth ids
      else if p = PersonReassign then checkPersonFaceOwnerAccess acc auth ids
      else if p = ClusterGroupRead then
        (let isMember = clusterGroup_checkOwnerAccess acc (user_id auth) ids;
             isInvited = clusterGroup_checkInviteAccess acc (user_id auth) (ids - isMember)
         in isMember \<union> isInvited)
      else if p = ClusterGroupLeave \<or> p = ClusterGroupRequestCreate then
        clusterGroup_checkOwnerAccess acc (user_id auth) ids
      else if p = ClusterGroupRequestDelete then
        (let isOwner = clusterGroupRequest_checkOwnerAccess acc (user_id auth) ids;
             isGroupMember = clusterGroupRequest_checkGroupAccess acc (user_id auth) ids
         in isOwner \<union> isGroupMember)
      else if p = ClusterGroupRequestRead then clusterGroupRequest_checkOwnerAccess acc (user_id auth) ids
      else if p = PartnerUpdate then partner_checkUpdateAccess acc (user_id auth) ids
      else if p = SessionRead \<or> p = SessionUpdate \<or> p = SessionDelete \<or> p = SessionLock then
        session_checkOwnerAccess acc (user_id auth) ids
      else if p = StackRead then checkStackOwnerAccess acc auth ids
      else if p = StackUpdate then checkStackOwnerAccess acc auth ids
      else if p = StackDelete then checkStackOwnerAccess acc auth ids
      else if p = WorkflowRead \<or> p = WorkflowUpdate \<or> p = WorkflowDelete \<or> p = WorkflowLogs then
        workflow_checkOwnerAccess acc (user_id auth) ids
      else {})"

record accessRequest =
  req_auth :: authDto
  req_permission :: permission
  req_ids :: ids
  ignorePrivacy :: bool

definition checkAccess :: "accessRepository \<Rightarrow> accessRequest \<Rightarrow> ids" where
  "checkAccess acc r =
     (if req_ids r = {} then {}
      else
        let effectiveAuth = (if ignorePrivacy r
              then (req_auth r)\<lparr>hiddenContent := None, hideNsfwAssets := None\<rparr> else req_auth r)
        in case sharedLink effectiveAuth of
             Some link \<Rightarrow> checkSharedLinkAccess acc link (accessPrivacy effectiveAuth) (req_permission r) (req_ids r)
           | None \<Rightarrow> checkOtherAccess acc effectiveAuth (req_permission r) (req_ids r))"

definition requireAccess :: "accessRepository \<Rightarrow> accessRequest \<Rightarrow> access_error + unit" where
  "requireAccess acc r =
     (let allowedIds = checkAccess acc r
      in if card (req_ids r) \<noteq> card allowedIds \<or> \<not> allowedIds \<subseteq> req_ids r
         then Inl (BadRequest (''Not found or no '' @ req_permission r @ '' access''))
         else Inr ())"

definition requireEntityAccess :: "accessRepository \<Rightarrow> accessRequest \<Rightarrow> string \<Rightarrow> access_error + unit" where
  "requireEntityAccess acc r entity =
     (let allowedIds = checkAccess acc r
      in if card (req_ids r) \<noteq> card allowedIds \<or> \<not> allowedIds \<subseteq> req_ids r
         then Inl (NotFound (entity @ '' not found''))
         else Inr ())"

definition requireElevatedPermission :: "authDto \<Rightarrow> access_error + unit" where
  "requireElevatedPermission auth =
     (if \<not> elevated auth then Inl (Unauthorized ''Elevated permission is required'') else Inr ())"

section \<open>hidden-content.ts\<close>

record hiddenContentQueryOptions =
  excludeNsfw :: bool
  q_hiddenContent :: "hiddenContentFilter option"
  onlyHiddenContent :: "hiddenContentFilter option"
  revealLockedOwnerId :: "string option"

definition noOptions :: hiddenContentQueryOptions where
  "noOptions = \<lparr>excludeNsfw = False, q_hiddenContent = None, onlyHiddenContent = None, revealLockedOwnerId = None\<rparr>"

definition hasHiddenContentFilter :: "hiddenContentFilter option \<Rightarrow> bool" where
  "hasHiddenContentFilter f =
     (case f of None \<Rightarrow> False
      | Some h \<Rightarrow> includeNsfw h \<or> length (tagIds h) > 0 \<or> length (personIds h) > 0 \<or> length (petIds h) > 0)"

definition hasSuppressionPreferences :: "hiddenContentFilter option \<Rightarrow> bool" where
  "hasSuppressionPreferences f =
     (case f of None \<Rightarrow> False
      | Some h \<Rightarrow> length (tagIds h) > 0 \<or> length (personIds h) > 0 \<or> length (petIds h) > 0)"

definition emptyHiddenContentFilter :: "string \<Rightarrow> hiddenContentFilter" where
  "emptyHiddenContentFilter u =
     \<lparr>tagIds = [], personIds = [], petIds = [], scope = Owned, filter_userId = u, includeNsfw = False\<rparr>"

definition getRevealQueryOptions :: "authDto \<Rightarrow> hiddenContentQueryOptions" where
  "getRevealQueryOptions auth =
     (case getLockedOwnerId auth of
        Some u \<Rightarrow> if u \<noteq> [] then noOptions\<lparr>revealLockedOwnerId := Some u\<rparr> else noOptions
      | None \<Rightarrow> noOptions)"

definition getHiddenContentQueryOptions :: "authDto \<Rightarrow> hiddenContentQueryOptions" where
  "getHiddenContentQueryOptions auth =
     (case hiddenContent auth of
        Some f \<Rightarrow> noOptions\<lparr>q_hiddenContent := Some f\<rparr>
      | None \<Rightarrow>
          if hideNsfwAssets auth = Some True then noOptions\<lparr>excludeNsfw := True\<rparr>
          else getRevealQueryOptions auth)"

datatype suppressibleEntity = PersonEntity | PetEntity | TagEntity

fun suppressedIdsFor :: "hiddenContentFilter \<Rightarrow> suppressibleEntity \<Rightarrow> string list" where
  "suppressedIdsFor f PersonEntity = personIds f"
| "suppressedIdsFor f PetEntity = petIds f"
| "suppressedIdsFor f TagEntity = tagIds f"

definition isSuppressedWhileLocked :: "authDto \<Rightarrow> suppressibleEntity \<Rightarrow> string \<Rightarrow> bool" where
  "isSuppressedWhileLocked auth entity eid =
     (case hiddenContent auth of None \<Rightarrow> False | Some f \<Rightarrow> eid \<in> set (suppressedIdsFor f entity))"

definition getSuppressedOnlyQueryOptions :: "authDto \<Rightarrow> hiddenContentQueryOptions" where
  "getSuppressedOnlyQueryOptions auth =
     (getRevealQueryOptions auth)\<lparr>onlyHiddenContent :=
        Some (case suppressedContent auth of Some f \<Rightarrow> f | None \<Rightarrow> emptyHiddenContentFilter (user_id auth))\<rparr>"

definition requireSuppressedOnlyAccess :: "authDto \<Rightarrow> bool \<Rightarrow> access_error + unit" where
  "requireSuppressedOnlyAccess auth suppressedOnly =
     (if \<not> suppressedOnly then Inr ()
      else if sharedLink auth \<noteq> None then Inl (BadRequest ''suppressedOnly is not available for shared links'')
      else if \<not> elevated auth then Inl (BadRequest ''suppressedOnly requires an elevated session'')
      else Inr ())"

definition getPrivacyQueryOptions :: "authDto \<Rightarrow> bool \<Rightarrow> access_error + hiddenContentQueryOptions" where
  "getPrivacyQueryOptions auth suppressedOnly =
     bindR (requireSuppressedOnlyAccess auth suppressedOnly)
       (\<lambda>_. Inr (if suppressedOnly then getSuppressedOnlyQueryOptions auth else getHiddenContentQueryOptions auth))"

section \<open>Lemmas\<close>

text \<open>What every query of the access repository does: keep some of the ids it was given.\<close>

definition repository_ok :: "accessRepository \<Rightarrow> bool" where
  "repository_ok acc \<longleftrightarrow>
     (\<forall>u i. activity_checkCreateAccess acc u i \<subseteq> i \<and> album_checkOwnerAccess acc u i \<subseteq> i \<and>
        album_checkSharedLinkAccess acc u i \<subseteq> i \<and> authDevice_checkOwnerAccess acc u i \<subseteq> i \<and>
        clusterGroup_checkOwnerAccess acc u i \<subseteq> i \<and> clusterGroup_checkInviteAccess acc u i \<subseteq> i \<and>
        clusterGroupRequest_checkOwnerAccess acc u i \<subseteq> i \<and> clusterGroupRequest_checkGroupAccess acc u i \<subseteq> i \<and>
        notification_checkOwnerAccess acc u i \<subseteq> i \<and> partner_checkUpdateAccess acc u i \<subseteq> i \<and>
        session_checkOwnerAccess acc u i \<subseteq> i \<and> workflow_checkOwnerAccess acc u i \<subseteq> i) \<and>
     (\<forall>u i p. activity_checkOwnerAccess acc u i p \<subseteq> i \<and> activity_checkAlbumOwnerAccess acc u i p \<subseteq> i \<and>
        asset_checkAlbumAccess acc u i p \<subseteq> i \<and> asset_checkItemShareAccess acc u i p \<subseteq> i \<and>
        asset_checkSharedLinkAccess acc u i p \<subseteq> i \<and> duplicate_checkOwnerAccess acc u i p \<subseteq> i \<and>
        person_checkOwnerAccess acc u i p \<subseteq> i \<and> stack_checkOwnerAccess acc u i p \<subseteq> i) \<and>
     (\<forall>u i e p. asset_checkOwnerAccess acc u i e p \<subseteq> i \<and> assetFile_checkOwnerAccess acc u i e p \<subseteq> i) \<and>
     (\<forall>u i r. album_checkSharedAlbumAccess acc u i r \<subseteq> i) \<and>
     (\<forall>u i p l. memory_checkOwnerAccess acc u i p l \<subseteq> i) \<and>
     (\<forall>u i p b. person_checkFaceOwnerAccess acc u i p b \<subseteq> i) \<and>
     (\<forall>u i p b. tag_checkOwnerAccess acc u i p b \<subseteq> i)"


lemma if_subset: "A \<subseteq> X \<Longrightarrow> B \<subseteq> X \<Longrightarrow> (if c then A else B) \<subseteq> X"
  by simp

text \<open>A second query over what the first left is still within the ids that were asked for.\<close>

lemma chained_subset: "A \<subseteq> I \<Longrightarrow> (\<And>J. F J \<subseteq> J) \<Longrightarrow> A \<union> F (I - A) \<subseteq> I"
  by blast

lemmas owner_helpers = checkAssetOwnerAccess_def checkAssetFileOwnerAccess_def checkAssetAlbumAccess_def
  checkAssetItemShareAccess_def checkPersonOwnerAccess_def checkPersonFaceOwnerAccess_def
  checkActivityOwnerAccess_def checkActivityAlbumOwnerAccess_def checkDuplicateOwnerAccess_def
  checkMemoryOwnerAccess_def checkStackOwnerAccess_def

lemma helpers_within:
  assumes "repository_ok acc"
  shows "assetVisibleAccess acc auth ids \<subseteq> ids" and "albumRoleAccess acc auth ids role \<subseteq> ids"
    and "selfAccess auth ids \<subseteq> ids"
    and "checkActivityOwnerAccess acc auth ids \<union>
      checkActivityAlbumOwnerAccess acc auth (ids - checkActivityOwnerAccess acc auth ids) \<subseteq> ids"
    and "clusterGroup_checkOwnerAccess acc u ids \<union>
      clusterGroup_checkInviteAccess acc u (ids - clusterGroup_checkOwnerAccess acc u ids) \<subseteq> ids"
proof -
  have keep: "checkAssetOwnerAccess acc auth i e \<subseteq> i" "checkAssetAlbumAccess acc auth i \<subseteq> i"
    "checkAssetItemShareAccess acc auth i \<subseteq> i" "album_checkOwnerAccess acc w i \<subseteq> i"
    "album_checkSharedAlbumAccess acc w i r \<subseteq> i" "checkActivityOwnerAccess acc auth i \<subseteq> i"
    "checkActivityAlbumOwnerAccess acc auth i \<subseteq> i" "clusterGroup_checkOwnerAccess acc w i \<subseteq> i"
    "clusterGroup_checkInviteAccess acc w i \<subseteq> i" for i e w r
    using assms unfolding repository_ok_def owner_helpers by simp_all
  show "assetVisibleAccess acc auth ids \<subseteq> ids"
    unfolding assetVisibleAccess_def Let_def using keep(1-3) by (meson Diff_subset Un_least order_trans)
  show "albumRoleAccess acc auth ids role \<subseteq> ids"
    unfolding albumRoleAccess_def Let_def by (rule chained_subset) (rule keep(4,5))+
  show "selfAccess auth ids \<subseteq> ids" by (simp add: selfAccess_def)
  show "checkActivityOwnerAccess acc auth ids \<union>
      checkActivityAlbumOwnerAccess acc auth (ids - checkActivityOwnerAccess acc auth ids) \<subseteq> ids"
    by (rule chained_subset) (rule keep(6,7))+
  show "clusterGroup_checkOwnerAccess acc u ids \<union>
      clusterGroup_checkInviteAccess acc u (ids - clusterGroup_checkOwnerAccess acc u ids) \<subseteq> ids"
    by (rule chained_subset) (rule keep(8,9))+
qed

lemma checkOtherAccess_within:
  assumes "repository_ok acc"
  shows "checkOtherAccess acc auth p ids \<subseteq> ids"
  unfolding checkOtherAccess_def Let_def
  by (intro if_subset helpers_within [OF assms])
    (use assms in \<open>simp_all add: repository_ok_def owner_helpers\<close>)

lemma checkSharedLinkAccess_within:
  assumes "repository_ok acc"
  shows "checkSharedLinkAccess acc link hide p ids \<subseteq> ids"
  using assms unfolding checkSharedLinkAccess_def Let_def repository_ok_def by (intro if_subset) simp_all

lemma checkAccess_within: "repository_ok acc \<Longrightarrow> checkAccess acc r \<subseteq> req_ids r"
  by (simp add: checkAccess_def Let_def checkSharedLinkAccess_within checkOtherAccess_within split: option.splits)

text \<open>
  C27. A permission check answers only with ids it was asked about, and \<open>requireAccess\<close> passes exactly
  when every requested id was granted; so does the variant that answers 404.
\<close>

theorem requireAccess_exact:
  assumes "repository_ok acc" and "finite (req_ids r)"
  shows "checkAccess acc r \<subseteq> req_ids r \<and>
    (requireAccess acc r = Inr () \<longleftrightarrow> checkAccess acc r = req_ids r) \<and>
    (requireEntityAccess acc r entity = Inr () \<longleftrightarrow> checkAccess acc r = req_ids r)"
  using checkAccess_within [OF assms(1), of r] card_subset_eq [OF assms(2)]
  by (auto simp: requireAccess_def requireEntityAccess_def Let_def)

text \<open>A repository over which the hypotheses hold: one person owns everything named \<open>mine\<close>.\<close>

definition exampleRepository :: accessRepository where
  "exampleRepository =
     \<lparr>activity_checkCreateAccess = (\<lambda>u i. {}), activity_checkOwnerAccess = (\<lambda>u i p. {}),
      activity_checkAlbumOwnerAccess = (\<lambda>u i p. {}),
      asset_checkOwnerAccess = (\<lambda>u i e p. i \<inter> (if e = Some True then {''mine'', ''locked''} else {''mine''})),
      asset_checkAlbumAccess = (\<lambda>u i p. i \<inter> {''album''}), asset_checkItemShareAccess = (\<lambda>u i p. i \<inter> {''shared''}),
      asset_checkSharedLinkAccess = (\<lambda>u i p. i \<inter> {''linked''}), assetFile_checkOwnerAccess = (\<lambda>u i e p. {}),
      album_checkOwnerAccess = (\<lambda>u i. {}), album_checkSharedAlbumAccess = (\<lambda>u i r. {}),
      album_checkSharedLinkAccess = (\<lambda>u i. {}), authDevice_checkOwnerAccess = (\<lambda>u i. {}),
      clusterGroup_checkOwnerAccess = (\<lambda>u i. {}), clusterGroup_checkInviteAccess = (\<lambda>u i. {}),
      clusterGroupRequest_checkOwnerAccess = (\<lambda>u i. {}), clusterGroupRequest_checkGroupAccess = (\<lambda>u i. {}),
      duplicate_checkOwnerAccess = (\<lambda>u i p. {}), memory_checkOwnerAccess = (\<lambda>u i p l. {}),
      notification_checkOwnerAccess = (\<lambda>u i. {}), partner_checkUpdateAccess = (\<lambda>u i. {}),
      person_checkOwnerAccess = (\<lambda>u i p. {}), person_checkFaceOwnerAccess = (\<lambda>u i p b. {}),
      session_checkOwnerAccess = (\<lambda>u i. {}), stack_checkOwnerAccess = (\<lambda>u i p. {}),
      tag_checkOwnerAccess = (\<lambda>u i p b. {}), workflow_checkOwnerAccess = (\<lambda>u i. {})\<rparr>"

lemma exampleRepository_ok: "repository_ok exampleRepository"
  by (simp add: repository_ok_def exampleRepository_def)

definition exampleAuth :: "bool \<Rightarrow> authDto" where
  "exampleAuth e =
     \<lparr>user_id = ''u'', uploadsPaused = False, sharedLink = None,
      session = Some \<lparr>session_id = ''s'', hasElevatedPermission = e\<rparr>, hideNsfwAssets = None,
      hiddenContent = None, suppressedContent = None\<rparr>"

definition exampleRequest :: "bool \<Rightarrow> permission \<Rightarrow> ids \<Rightarrow> accessRequest" where
  "exampleRequest e p i = \<lparr>req_auth = exampleAuth e, req_permission = p, req_ids = i, ignorePrivacy = False\<rparr>"

theorem requireAccess_exact_witness:
  "requireAccess exampleRepository (exampleRequest False AssetUpdate {''mine''}) = Inr ()"
proof -
  have "finite (req_ids (exampleRequest False AssetUpdate {''mine''}))" by (simp add: exampleRequest_def)
  moreover have "checkAccess exampleRepository (exampleRequest False AssetUpdate {''mine''}) =
      req_ids (exampleRequest False AssetUpdate {''mine''})"
    by (simp add: checkAccess_def checkOtherAccess_def checkAssetOwnerAccess_def exampleRequest_def
        exampleAuth_def exampleRepository_def)
  ultimately show ?thesis using requireAccess_exact [OF exampleRepository_ok] by blast
qed










text \<open>
  Query options reveal locked or suppressed content only to its owner's unlocked session. Whatever is
  asked, locked items are revealed only as the session's own user, elevated and not through a link; the
  suppressed-only view is refused to everyone else; and a session that carries a hidden-content filter
  always applies it.
\<close>

theorem privacy_options_confined:
  assumes "getPrivacyQueryOptions auth suppressedOnly = Inr q"
  shows "(revealLockedOwnerId q \<in> {None, Some (user_id auth)}) \<and>
    (if revealLockedOwnerId q \<noteq> None \<or> onlyHiddenContent q \<noteq> None
     then elevated auth \<and> sharedLink auth = None else True) \<and>
    (onlyHiddenContent q \<noteq> None \<longleftrightarrow> suppressedOnly) \<and>
    (if suppressedOnly \<or> hiddenContent auth = None then True
     else q_hiddenContent q = hiddenContent auth \<and> revealLockedOwnerId q = None)"
  using assms
  by (auto simp: getPrivacyQueryOptions_def requireSuppressedOnlyAccess_def getSuppressedOnlyQueryOptions_def
      getHiddenContentQueryOptions_def getRevealQueryOptions_def getLockedOwnerId_def noOptions_def
      split: if_splits option.splits)

theorem privacy_options_confined_witness:
  "\<exists>q. getPrivacyQueryOptions (exampleAuth True) True = Inr q \<and> elevated (exampleAuth True) \<and>
    onlyHiddenContent q \<noteq> None"
proof -
  obtain q where "getPrivacyQueryOptions (exampleAuth True) True = Inr q"
    by (simp add: getPrivacyQueryOptions_def requireSuppressedOnlyAccess_def exampleAuth_def elevated_def elevated_opt_def)
  with privacy_options_confined [OF this] show ?thesis by auto
qed

end
