(* ===== verification/BulkOperation.thy ===== *)
theory BulkOperation
  imports DuplicateReview Access
begin

text \<open>
  Durable bulk operations: \<open>server/src/utils/bulk-operation.ts\<close>, and the pass over a frozen set that
  \<open>BulkOperationService.run\<close> makes (\<open>server/src/services/bulk-operation.service.ts\<close>).

  A row holds the frozen request (\<open>bulkOperationSnapshot\<close>), what happened so far
  (\<open>bulkOperationResult\<close>) and the count of answered items. Counts read back from the row are whatever
  finite number it holds, so they are rationals. A \<open>Record\<close> of starting dates is an association list.
  A payload is the JSON object the column stores. \<open>Date.parse\<close>, \<open>Date.toISOString\<close> and the time-zone
  check of \<open>Intl\<close> are arguments.

  The step relation \<open>bulk_step\<close> has one rule per durable write of a worker: a claim, a batch of the
  first pass, a batch marked in flight and lost, the planning of the retry pass and a batch of it. The
  history component records the last answer each item was given. The lemmas show, over every reachable
  row, that the counts are exact, that what a retry covers is exactly what is not done, that each item
  is tried at most twice, that a starting date once recorded never changes, and that the passes end.
\<close>

datatype bulkAction =
    Favorite | Unfavorite | Archive | Unarchive | AddToAlbum | RemoveFromAlbum | Tag | Untag
  | ChangeDate | ChangeDescription | ChangeLocation | MarkSensitive | UnmarkSensitive
  | Delete | DeletePermanently | Restore | StackAction | Unstack
  | RefreshThumbnails | RefreshMetadata | RefreshEncoded | RefreshFaces
  | RelinkLivePhoto | ResolveDuplicates | UndoDuplicates
  | RelinkMissingMedia | RecoverDamagedMedia | TrashDamagedMedia | ApplyClassificationRule

fun actionText :: "bulkAction \<Rightarrow> string" where
  "actionText Favorite = ''favorite''"
| "actionText Unfavorite = ''unfavorite''"
| "actionText Archive = ''archive''"
| "actionText Unarchive = ''unarchive''"
| "actionText AddToAlbum = ''add-to-album''"
| "actionText RemoveFromAlbum = ''remove-from-album''"
| "actionText Tag = ''tag''"
| "actionText Untag = ''untag''"
| "actionText ChangeDate = ''change-date''"
| "actionText ChangeDescription = ''change-description''"
| "actionText ChangeLocation = ''change-location''"
| "actionText MarkSensitive = ''mark-sensitive''"
| "actionText UnmarkSensitive = ''unmark-sensitive''"
| "actionText Delete = ''delete''"
| "actionText DeletePermanently = ''delete-permanently''"
| "actionText Restore = ''restore''"
| "actionText StackAction = ''stack''"
| "actionText Unstack = ''unstack''"
| "actionText RefreshThumbnails = ''refresh-thumbnails''"
| "actionText RefreshMetadata = ''refresh-metadata''"
| "actionText RefreshEncoded = ''refresh-encoded''"
| "actionText RefreshFaces = ''refresh-faces''"
| "actionText RelinkLivePhoto = ''relink-live-photo''"
| "actionText ResolveDuplicates = ''resolve-duplicates''"
| "actionText UndoDuplicates = ''undo-duplicates''"
| "actionText RelinkMissingMedia = ''relink-missing-media''"
| "actionText RecoverDamagedMedia = ''recover-damaged-media''"
| "actionText TrashDamagedMedia = ''trash-damaged-media''"
| "actionText ApplyClassificationRule = ''apply-classification-rule''"

definition BULK_ACTIONS :: "bulkAction list" where
  "BULK_ACTIONS =
     [Favorite, Unfavorite, Archive, Unarchive, AddToAlbum, RemoveFromAlbum, Tag, Untag,
      ChangeDate, ChangeDescription, ChangeLocation, MarkSensitive, UnmarkSensitive,
      Delete, DeletePermanently, Restore, StackAction, Unstack,
      RefreshThumbnails, RefreshMetadata, RefreshEncoded, RefreshFaces,
      RelinkLivePhoto, ResolveDuplicates, UndoDuplicates,
      RelinkMissingMedia, RecoverDamagedMedia, TrashDamagedMedia, ApplyClassificationRule]"

definition isBulkAction :: "json \<Rightarrow> bulkAction option" where
  "isBulkAction v =
     (case v of JStr t \<Rightarrow> find_first (\<lambda>a. actionText a = t) BULK_ACTIONS | _ \<Rightarrow> None)"

datatype itemStatus = Ok | Skipped | Failed

definition BULK_BATCH_SIZE :: nat where
  "BULK_BATCH_SIZE = 500"

definition BULK_RECORDED_ITEM_LIMIT :: nat where
  "BULK_RECORDED_ITEM_LIMIT = 1000"

definition MEDIA_HEALTH_BULK_BATCH_SIZE :: nat where
  "MEDIA_HEALTH_BULK_BATCH_SIZE = 5"

definition MEDIA_HEALTH_BULK_ACTIONS :: "bulkAction list" where
  "MEDIA_HEALTH_BULK_ACTIONS = [RelinkMissingMedia, RecoverDamagedMedia, TrashDamagedMedia]"

definition isMediaHealthBulkAction :: "bulkAction \<Rightarrow> bool" where
  "isMediaHealthBulkAction a = (a \<in> set MEDIA_HEALTH_BULK_ACTIONS)"

record bulkOperationSnapshot =
  action :: bulkAction
  assetIds :: "string list"
  payload :: json
  submittedTotal :: "rat option"
  truncated :: bool
  snapshot_scope :: "json option"
  requestId :: "string option"
  apiKeyId :: "string option"
  snapshot_elevated :: bool

record bulkOperationItem =
  item_id :: string
  item_status :: itemStatus
  reasonKey :: "string option"
  item_message :: "string option"

record bulkRetryPass =
  retry_ids :: "string list"
  retry_total :: rat
  retry_processed :: rat
  retry_inFlight :: "(nat \<times> nat) option"

record bulkOperationResult =
  requested :: rat
  succeeded :: rat
  failed :: rat
  skipped :: rat
  items :: "bulkOperationItem list"
  itemsTruncated :: bool
  inFlight :: "(nat \<times> nat) option"
  retry :: "bulkRetryPass option"
  shiftFrom :: "(string \<times> string option) list"

section \<open>Reading the row\<close>

fun asNumber :: "json \<Rightarrow> rat" where
  "asNumber (JNum q) = q"
| "asNumber _ = 0"

definition safeIntegerOf :: "rat \<Rightarrow> int option" where
  "safeIntegerOf q = jsafe_int (JNum q)"

definition parseInFlight :: "json \<Rightarrow> (nat \<times> nat) option" where
  "parseInFlight v =
     (if \<not> isRecord v then None
      else case (safeIntegerOf (asNumber (jget v ''start'')), safeIntegerOf (asNumber (jget v ''size''))) of
             (Some s, Some n) \<Rightarrow> if s \<ge> 0 \<and> n > 0 then Some (nat s, nat n) else None
           | _ \<Rightarrow> None)"

definition parseRetryPass :: "json \<Rightarrow> bulkRetryPass option" where
  "parseRetryPass v =
     (if \<not> isRecord v then None
      else
        let ids = uniq (asStringArray (jget v ''ids''));
            total = (if length ids > 0 then of_nat (length ids) else asNumber (jget v ''total''));
            processed = asNumber (jget v ''processed'')
        in Some \<lparr>retry_ids = ids, retry_total = total,
                 retry_processed = (if safeIntegerOf processed \<noteq> None then min (max 0 processed) total else 0),
                 retry_inFlight = parseInFlight (jget v ''inFlight'')\<rparr>)"

fun objectEntries :: "json \<Rightarrow> (string \<times> json) list" where
  "objectEntries (JObj kvs) = kvs"
| "objectEntries _ = []"

definition parseShiftFrom :: "(string \<Rightarrow> int option) \<Rightarrow> json \<Rightarrow> (string \<times> string option) list" where
  "parseShiftFrom dateParse v =
     (if \<not> isRecord v then []
      else concat (map (\<lambda>(k, from).
             case from of
               JNull \<Rightarrow> [(k, None)]
             | JStr t \<Rightarrow> if dateParse t \<noteq> None then [(k, Some t)] else []
             | _ \<Rightarrow> []) (objectEntries v)))"

datatype snapshot_error = SnapshotMissing | UnsupportedAction json | NoAssets

fun jstring_opt :: "json \<Rightarrow> string option" where
  "jstring_opt (JStr t) = Some t"
| "jstring_opt _ = None"

fun jnumber_opt :: "json \<Rightarrow> rat option" where
  "jnumber_opt (JNum q) = Some q"
| "jnumber_opt _ = None"

definition parseBulkSnapshot :: "json \<Rightarrow> snapshot_error + bulkOperationSnapshot" where
  "parseBulkSnapshot snapshot =
     (if \<not> isRecord snapshot then Inl SnapshotMissing
      else case isBulkAction (jget snapshot ''action'') of
             None \<Rightarrow> Inl (UnsupportedAction (jget snapshot ''action''))
           | Some a \<Rightarrow>
               let ids = uniq (asStringArray (jget snapshot ''assetIds''))
               in if length ids = 0 then Inl NoAssets
                  else Inr \<lparr>action = a, assetIds = ids,
                    payload = (if isRecord (jget snapshot ''payload'') then jget snapshot ''payload'' else JObj []),
                    submittedTotal = jnumber_opt (jget snapshot ''submittedTotal''),
                    truncated = (jget snapshot ''truncated'' = JBool True),
                    snapshot_scope = (if isRecord (jget snapshot ''scope'') then Some (jget snapshot ''scope'') else None),
                    requestId = jstring_opt (jget snapshot ''requestId''),
                    apiKeyId = jstring_opt (jget snapshot ''apiKeyId''),
                    snapshot_elevated = (jget snapshot ''elevated'' = JBool True)\<rparr>)"

definition emptyBulkResult :: "rat \<Rightarrow> bulkOperationResult" where
  "emptyBulkResult n =
     \<lparr>requested = n, succeeded = 0, failed = 0, skipped = 0, items = [], itemsTruncated = False,
      inFlight = None, retry = None, shiftFrom = []\<rparr>"

definition parseBulkItem :: "json \<Rightarrow> bulkOperationItem list" where
  "parseBulkItem v =
     (case jget v ''id'' of
        JStr i \<Rightarrow>
          [\<lparr>item_id = i,
            item_status = (if jget v ''status'' = JStr ''skipped'' then Skipped
                           else if jget v ''status'' = JStr ''ok'' then Ok else Failed),
            reasonKey = jstring_opt (jget v ''reasonKey''),
            item_message = jstring_opt (jget v ''message'')\<rparr>]
      | _ \<Rightarrow> [])"

definition parseBulkResult :: "(string \<Rightarrow> int option) \<Rightarrow> json \<Rightarrow> rat \<Rightarrow> bulkOperationResult" where
  "parseBulkResult dateParse v n =
     (if \<not> isRecord v then emptyBulkResult n
      else
        \<lparr>requested = (if asNumber (jget v ''requested'') \<noteq> 0 then asNumber (jget v ''requested'') else n),
         succeeded = asNumber (jget v ''succeeded''),
         failed = asNumber (jget v ''failed''),
         skipped = asNumber (jget v ''skipped''),
         items = (case jget v ''items'' of
                    JArr xs \<Rightarrow> concat (map parseBulkItem (filter isRecord xs))
                  | _ \<Rightarrow> []),
         itemsTruncated = (jget v ''itemsTruncated'' = JBool True),
         inFlight = parseInFlight (jget v ''inFlight''),
         retry = parseRetryPass (jget v ''retry''),
         shiftFrom = parseShiftFrom dateParse (jget v ''shiftFrom'')\<rparr>)"

section \<open>Folding outcomes, resuming and retrying\<close>

definition mergeOutcome :: "bulkOperationResult \<Rightarrow> bulkOperationItem \<Rightarrow> bulkOperationResult" where
  "mergeOutcome merged outcome =
     (let push = (\<lambda>m. if length (items m) < BULK_RECORDED_ITEM_LIMIT then m\<lparr>items := items m @ [outcome]\<rparr>
                      else m\<lparr>itemsTruncated := True\<rparr>)
      in case item_status outcome of
           Ok \<Rightarrow> merged\<lparr>succeeded := succeeded merged + 1\<rparr>
         | Skipped \<Rightarrow> push (merged\<lparr>skipped := skipped merged + 1\<rparr>)
         | Failed \<Rightarrow> push (merged\<lparr>failed := failed merged + 1\<rparr>))"

definition mergeBulkOutcomes :: "bulkOperationResult \<Rightarrow> bulkOperationItem list \<Rightarrow> bulkOperationResult" where
  "mergeBulkOutcomes previous outcomes = foldl mergeOutcome previous outcomes"

definition bulkProcessedCount :: "bulkOperationResult \<Rightarrow> rat" where
  "bulkProcessedCount r = succeeded r + failed r + skipped r"

definition failedIds :: "bulkOperationResult \<Rightarrow> string list" where
  "failedIds r = map item_id (filter (\<lambda>i. item_status i = Failed) (items r))"

definition bulkRetryPending :: "bulkOperationResult \<Rightarrow> string list" where
  "bulkRetryPending r =
     (case retry r of None \<Rightarrow> [] | Some p \<Rightarrow> drop (nat \<lfloor>retry_processed p\<rfloor>) (retry_ids p))"

definition bulkResumeIds :: "bulkOperationSnapshot \<Rightarrow> bulkOperationResult \<Rightarrow> int \<Rightarrow> string list" where
  "bulkResumeIds snapshot r processed =
     (let retryable = failedIds r;
          cursor = nat (max 0 (min processed (int (length (assetIds snapshot)))));
          unreached = drop cursor (assetIds snapshot) @ bulkRetryPending r
      in filter (\<lambda>i. i \<in> set retryable \<or> i \<in> set unreached) (assetIds snapshot))"

definition planBulkRetryPass ::
  "bulkOperationSnapshot \<Rightarrow> bulkOperationResult \<Rightarrow> bulkOperationResult option" where
  "planBulkRetryPass snapshot r =
     (if retry r \<noteq> None then None
      else
        let failedSet = failedIds r
        in if failedSet = [] then None
           else
             let ids = filter (\<lambda>i. i \<in> set failedSet) (assetIds snapshot)
             in Some (r\<lparr>failed := max 0 (failed r - of_nat (length ids)),
                        items := filter (\<lambda>i. \<not> (item_status i = Failed \<and> item_id i \<in> set failedSet)) (items r),
                        retry := Some \<lparr>retry_ids = ids, retry_total = of_nat (length ids),
                                       retry_processed = 0, retry_inFlight = None\<rparr>\<rparr>))"

section \<open>Relative date shifts\<close>

definition isRelativeDateShift :: "bulkOperationSnapshot \<Rightarrow> bool" where
  "isRelativeDateShift snapshot =
     (action snapshot = ChangeDate \<and> jget (payload snapshot) ''dateMode'' = JStr ''shift'')"

definition recordShiftOrigin ::
  "('d \<Rightarrow> string) \<Rightarrow> (string \<rightharpoonup> 'd option) \<Rightarrow> (string \<times> string option) list \<Rightarrow> string \<Rightarrow> (string \<times> string option) list" where
  "recordShiftOrigin toISOString current from i =
     (if map_of from i \<noteq> None \<or> current i = None then from
      else from @ [(i, map_option toISOString (the (current i)))])"

definition recordShiftOrigins ::
  "('d \<Rightarrow> string) \<Rightarrow> bulkOperationResult \<Rightarrow> string list \<Rightarrow> (string \<rightharpoonup> 'd option) \<Rightarrow> bulkOperationResult" where
  "recordShiftOrigins toISOString r ids current =
     r\<lparr>shiftFrom := foldl (recordShiftOrigin toISOString current) (shiftFrom r) ids\<rparr>"

definition slice :: "nat \<Rightarrow> nat \<Rightarrow> 'a list \<Rightarrow> 'a list" where
  "slice s n xs = take n (drop s xs)"

definition pruneShiftOrigins :: "bulkOperationSnapshot \<Rightarrow> bulkOperationResult \<Rightarrow> bulkOperationResult" where
  "pruneShiftOrigins snapshot r =
     (if length (shiftFrom r) = 0 then r
      else
        let keep = failedIds r @ bulkRetryPending r @
              (case inFlight r of Some (s, n) \<Rightarrow> slice s n (assetIds snapshot) | None \<Rightarrow> []) @
              (case retry r of
                 Some p \<Rightarrow> (case retry_inFlight p of Some (s, n) \<Rightarrow> slice s n (retry_ids p) | None \<Rightarrow> [])
               | None \<Rightarrow> [])
        in r\<lparr>shiftFrom := filter (\<lambda>(i, _). i \<in> set keep) (shiftFrom r)\<rparr>)"

definition carriedShiftOrigins :: "bulkOperationResult \<Rightarrow> string list \<Rightarrow> (string \<times> string option) list" where
  "carriedShiftOrigins r ids =
     concat (map (\<lambda>i. case map_of (shiftFrom r) i of Some v \<Rightarrow> [(i, v)] | None \<Rightarrow> []) ids)"

section \<open>Batches\<close>

function chunkLoop :: "'a list \<Rightarrow> nat \<Rightarrow> 'a list list" where
  "chunkLoop ids width =
     (if ids = [] \<or> width = 0 then [] else take width ids # chunkLoop (drop width ids) width)"
  by pat_completeness auto
termination
  by (relation "measure (\<lambda>(ids, _). length ids)") auto

declare chunkLoop.simps [simp del]

definition chunkIds :: "string list \<Rightarrow> rat \<Rightarrow> string list list" where
  "chunkIds ids batchSize =
     (let width = (case safeIntegerOf batchSize of
                     Some n \<Rightarrow> if n > 0 then nat n else BULK_BATCH_SIZE
                   | None \<Rightarrow> BULK_BATCH_SIZE)
      in chunkLoop ids width)"

definition isDuplicateDecisionAction :: "bulkAction \<Rightarrow> bool" where
  "isDuplicateDecisionAction a = (a = ResolveDuplicates \<or> a = UndoDuplicates)"

definition bulkGroupIndex :: "bulkOperationSnapshot \<Rightarrow> (string \<rightharpoonup> string) option" where
  "bulkGroupIndex snapshot =
     (if isDuplicateDecisionAction (action snapshot)
      then Some (duplicateGroupIndex (parseDuplicateGroups (jget (payload snapshot) ''duplicateGroups'')))
      else None)"

definition bulkBatchLength :: "string list \<Rightarrow> nat \<Rightarrow> nat \<Rightarrow> (string \<rightharpoonup> string) option \<Rightarrow> nat" where
  "bulkBatchLength ids start batchSize groupIndex =
     (case groupIndex of
        Some g \<Rightarrow> groupAlignedBatchSize ids start batchSize g
      | None \<Rightarrow> min batchSize (length ids - start))"

section \<open>What an action needs, writes and reports\<close>

fun BULK_ACTION_PERMISSIONS :: "bulkAction \<Rightarrow> permission list" where
  "BULK_ACTION_PERMISSIONS Favorite = [AssetUpdate]"
| "BULK_ACTION_PERMISSIONS Unfavorite = [AssetUpdate]"
| "BULK_ACTION_PERMISSIONS Archive = [AssetUpdate]"
| "BULK_ACTION_PERMISSIONS Unarchive = [AssetUpdate]"
| "BULK_ACTION_PERMISSIONS AddToAlbum = [AlbumAssetCreate, AssetShare]"
| "BULK_ACTION_PERMISSIONS RemoveFromAlbum = [AlbumAssetDelete]"
| "BULK_ACTION_PERMISSIONS Tag = [TagAsset, AssetUpdate]"
| "BULK_ACTION_PERMISSIONS Untag = [TagAsset]"
| "BULK_ACTION_PERMISSIONS ChangeDate = [AssetUpdate]"
| "BULK_ACTION_PERMISSIONS ChangeDescription = [AssetUpdate]"
| "BULK_ACTION_PERMISSIONS ChangeLocation = [AssetUpdate]"
| "BULK_ACTION_PERMISSIONS MarkSensitive = [AssetUpdate]"
| "BULK_ACTION_PERMISSIONS UnmarkSensitive = [AssetUpdate]"
| "BULK_ACTION_PERMISSIONS Delete = [AssetDelete]"
| "BULK_ACTION_PERMISSIONS DeletePermanently = [AssetDelete]"
| "BULK_ACTION_PERMISSIONS Restore = [AssetDelete]"
| "BULK_ACTION_PERMISSIONS StackAction = [AssetUpdate, StackCreate]"
| "BULK_ACTION_PERMISSIONS Unstack = [StackDelete]"
| "BULK_ACTION_PERMISSIONS RefreshThumbnails = [AssetUpdate]"
| "BULK_ACTION_PERMISSIONS RefreshMetadata = [AssetUpdate]"
| "BULK_ACTION_PERMISSIONS RefreshEncoded = [AssetUpdate]"
| "BULK_ACTION_PERMISSIONS RefreshFaces = [AssetUpdate]"
| "BULK_ACTION_PERMISSIONS RelinkLivePhoto = [AssetUpdate]"
| "BULK_ACTION_PERMISSIONS ResolveDuplicates = [DuplicateDelete, AssetDelete, AssetUpdate, StackCreate]"
| "BULK_ACTION_PERMISSIONS UndoDuplicates = [DuplicateDelete, AssetDelete, AssetUpdate, StackDelete]"
| "BULK_ACTION_PERMISSIONS RelinkMissingMedia = [AssetUpdate]"
| "BULK_ACTION_PERMISSIONS RecoverDamagedMedia = [AssetUpdate]"
| "BULK_ACTION_PERMISSIONS TrashDamagedMedia = [AssetDelete]"
| "BULK_ACTION_PERMISSIONS ApplyClassificationRule = [AlbumUpdate, AssetUpdate]"

fun BULK_ITEM_PERMISSION :: "bulkAction \<Rightarrow> permission option" where
  "BULK_ITEM_PERMISSION Favorite = Some AssetUpdate"
| "BULK_ITEM_PERMISSION Unfavorite = Some AssetUpdate"
| "BULK_ITEM_PERMISSION Archive = Some AssetUpdate"
| "BULK_ITEM_PERMISSION Unarchive = Some AssetUpdate"
| "BULK_ITEM_PERMISSION AddToAlbum = None"
| "BULK_ITEM_PERMISSION RemoveFromAlbum = None"
| "BULK_ITEM_PERMISSION Tag = Some AssetUpdate"
| "BULK_ITEM_PERMISSION Untag = None"
| "BULK_ITEM_PERMISSION ChangeDate = Some AssetUpdate"
| "BULK_ITEM_PERMISSION ChangeDescription = Some AssetUpdate"
| "BULK_ITEM_PERMISSION ChangeLocation = Some AssetUpdate"
| "BULK_ITEM_PERMISSION MarkSensitive = Some AssetUpdate"
| "BULK_ITEM_PERMISSION UnmarkSensitive = Some AssetUpdate"
| "BULK_ITEM_PERMISSION Delete = Some AssetDelete"
| "BULK_ITEM_PERMISSION DeletePermanently = Some AssetDelete"
| "BULK_ITEM_PERMISSION Restore = Some AssetDelete"
| "BULK_ITEM_PERMISSION StackAction = Some AssetUpdate"
| "BULK_ITEM_PERMISSION Unstack = None"
| "BULK_ITEM_PERMISSION RefreshThumbnails = Some AssetUpdate"
| "BULK_ITEM_PERMISSION RefreshMetadata = Some AssetUpdate"
| "BULK_ITEM_PERMISSION RefreshEncoded = Some AssetUpdate"
| "BULK_ITEM_PERMISSION RefreshFaces = Some AssetUpdate"
| "BULK_ITEM_PERMISSION RelinkLivePhoto = None"
| "BULK_ITEM_PERMISSION ResolveDuplicates = None"
| "BULK_ITEM_PERMISSION UndoDuplicates = None"
| "BULK_ITEM_PERMISSION RelinkMissingMedia = None"
| "BULK_ITEM_PERMISSION RecoverDamagedMedia = None"
| "BULK_ITEM_PERMISSION TrashDamagedMedia = None"
| "BULK_ITEM_PERMISSION ApplyClassificationRule = None"

text \<open>The fields of the bulk asset update, as the object the code builds.\<close>

definition bulkAssetUpdate :: "bulkAction \<Rightarrow> json \<Rightarrow> (string \<times> json) list option" where
  "bulkAssetUpdate a p =
     (case a of
        Favorite \<Rightarrow> Some [(''isFavorite'', JBool True)]
      | Unfavorite \<Rightarrow> Some [(''isFavorite'', JBool False)]
      | Archive \<Rightarrow> Some [(''visibility'', JStr ''archive'')]
      | Unarchive \<Rightarrow> Some [(''visibility'', JStr ''timeline'')]
      | ChangeDate \<Rightarrow>
          if jget p ''dateMode'' = JStr ''shift'' then None
          else Some ((''dateTimeOriginal'', jget p ''dateTimeOriginal'') #
                     (if truthy (jget p ''timeZone'') then [(''timeZone'', jget p ''timeZone'')] else []))
      | ChangeDescription \<Rightarrow>
          Some [(''description'', if jget p ''description'' \<in> {JUndefined, JNull} then JStr [] else jget p ''description'')]
      | ChangeLocation \<Rightarrow> Some [(''latitude'', jget p ''latitude''), (''longitude'', jget p ''longitude'')]
      | _ \<Rightarrow> None)"

fun jarray :: "json \<Rightarrow> json list" where
  "jarray (JArr xs) = xs"
| "jarray _ = []"

fun jlength :: "json \<Rightarrow> nat" where
  "jlength (JArr xs) = length xs"
| "jlength (JStr t) = length t"
| "jlength _ = 0"

fun isArray :: "json \<Rightarrow> bool" where
  "isArray (JArr _) = True"
| "isArray _ = False"

text \<open>\<open>names_exactly\<close>: the set of ids an entry list names has the size of the frozen set and lies in it.\<close>

definition names_exactly :: "json list \<Rightarrow> string list \<Rightarrow> bool" where
  "names_exactly named ids =
     (length (uniq named) = length (uniq ids) \<and> list_all (\<lambda>v. v \<in> set (map JStr ids)) (uniq named))"

definition bulkPayloadProblem ::
  "(string \<Rightarrow> int option) \<Rightarrow> (string \<Rightarrow> bool) \<Rightarrow> bulkAction \<Rightarrow> json \<Rightarrow> string list \<Rightarrow> string option" where
  "bulkPayloadProblem dateParse isTimeZone a p ids =
     (if a = AddToAlbum \<or> a = RemoveFromAlbum then
        (if truthy (jget p ''albumId'') then None else Some ''An album is required for this action'')
      else if a = Tag \<or> a = Untag then
        (if jlength (jget p ''tagIds'') > 0 then None else Some ''At least one tag is required for this action'')
      else if a = ApplyClassificationRule then
        (if truthy (jget p ''classificationRuleId'') then None
         else Some ''A classification rule is required for this action'')
      else if a = ChangeDate then
        (if jget p ''dateMode'' = JStr ''shift'' then
           (case jsafe_int (jget p ''minutes'') of
              Some m \<Rightarrow> if m \<noteq> 0 then None else Some ''A whole, non-zero number of minutes is required to shift dates''
            | None \<Rightarrow> Some ''A whole, non-zero number of minutes is required to shift dates'')
         else if \<not> (case jget p ''dateTimeOriginal'' of JStr t \<Rightarrow> t \<noteq> [] \<and> dateParse t \<noteq> None | _ \<Rightarrow> False)
           then Some ''A valid date is required for this action''
         else if \<not> truthy (jget p ''timeZone'') \<or> (case jget p ''timeZone'' of JStr t \<Rightarrow> isTimeZone t | _ \<Rightarrow> False)
           then None else Some ''The time zone is not recognised'')
      else if a = ChangeDescription then
        (if jstring_opt (jget p ''description'') \<noteq> None then None
         else Some ''A description is required for this action'')
      else if a = ChangeLocation then
        (if jnumber_opt (jget p ''latitude'') \<noteq> None \<and> jnumber_opt (jget p ''longitude'') \<noteq> None then None
         else Some ''Latitude and longitude are required for this action'')
      else if a = StackAction then
        (if length ids < 2 then Some ''A stack needs at least two items''
         else if \<not> truthy (jget p ''primaryId'') \<or> jget p ''primaryId'' \<in> set (map JStr ids) then None
         else Some ''The primary item must be one of the selected items'')
      else if a = Unstack then
        (if jlength (jget p ''stackIds'') > 0 then None else Some ''At least one stack is required for this action'')
      else if a = RelinkLivePhoto then
        (let pairs = jarray (jget p ''pairs'');
             photoIds = map (\<lambda>e. jget e ''photoId'') pairs;
             videoIds = map (\<lambda>e. jget e ''videoId'') pairs
         in if length pairs = 0 then Some ''At least one still + video pair is required for this action''
            else if length (uniq photoIds) \<noteq> length pairs \<or> length (uniq videoIds) \<noteq> length pairs
              then Some ''Each still and each video may appear in only one pair''
            else if list_ex (\<lambda>e. jget e ''photoId'' = jget e ''videoId'') pairs
              then Some ''A still cannot be paired with itself''
            else if names_exactly photoIds ids then None
            else Some ''Every pair must name one of the selected still images'')
      else if a = ResolveDuplicates \<or> a = UndoDuplicates then
        (let raw = jget p ''duplicateGroups''; groups = parseDuplicateGroups raw
         in if \<not> isArray raw \<or> length groups \<noteq> jlength raw
              then Some ''Every duplicate group needs a group, a decision and its photos''
            else duplicateDecisionProblem groups ids (a = UndoDuplicates))
      else if a = RelinkMissingMedia \<or> a = RecoverDamagedMedia \<or> a = TrashDamagedMedia then
        (let entries = jarray (jget p ''mediaHealth'');
             entryAssetIds = map (\<lambda>e. jget e ''assetId'') entries;
             findingIds = map (\<lambda>e. jget e ''findingId'') entries
         in if length entries = 0 then Some ''At least one finding is required for this action''
            else if a \<noteq> TrashDamagedMedia \<and> list_ex (\<lambda>e. \<not> truthy (jget e ''candidateId'')) entries
              then Some ''Every finding needs a reviewed candidate for this action''
            else if length (uniq entryAssetIds) \<noteq> length entries \<or> length (uniq findingIds) \<noteq> length entries
              then Some ''Each item and each finding may appear only once''
            else if names_exactly entryAssetIds ids then None
            else Some ''Every finding must name one of the selected items'')
      else None)"

definition bulkOperationLabel :: "bulkAction \<Rightarrow> nat \<Rightarrow> string" where
  "bulkOperationLabel a n =
     map (\<lambda>c. if c = CHR ''-'' then CHR '' '' else c) (actionText a) @ '' ('' @ show_nat n @ '' '' @
     (if n = 1 then ''item'' else ''items'') @ '')''"

text \<open>A thrown value: an error object with its message and, for an HTTP error, its status, or something else.\<close>

datatype thrown = ThrownError string "rat option" | ThrownText string | ThrownOther json

definition ACCESS_DENIED_PREFIX :: string where
  "ACCESS_DENIED_PREFIX = ''Not found or no ''"

fun thrownMessage :: "thrown \<Rightarrow> string" where
  "thrownMessage (ThrownError m _) = m"
| "thrownMessage (ThrownText _) = []"
| "thrownMessage (ThrownOther j) = (case jget j ''message'' of JStr m \<Rightarrow> m | _ \<Rightarrow> [])"

fun thrownStatus :: "thrown \<Rightarrow> rat" where
  "thrownStatus (ThrownError _ st) = (case st of Some n \<Rightarrow> n | None \<Rightarrow> 0)"
| "thrownStatus (ThrownText _) = 0"
| "thrownStatus (ThrownOther j) = (case jget j ''status'' of JNum n \<Rightarrow> n | _ \<Rightarrow> 0)"

definition classifyBulkError :: "thrown \<Rightarrow> itemStatus \<times> string" where
  "classifyBulkError e =
     (if thrownStatus e = 403 \<or> startsWith (thrownMessage e) ACCESS_DENIED_PREFIX
      then (Skipped, ''frameleaf_bulk_reason_no_permission'')
      else (Failed, ''frameleaf_bulk_reason_failed''))"

fun bulkErrorMessage :: "thrown \<Rightarrow> string" where
  "bulkErrorMessage (ThrownError m _) = m"
| "bulkErrorMessage (ThrownText t) = t"
| "bulkErrorMessage (ThrownOther _) = ''Unknown error''"

record bulkIdResponse =
  resp_id :: string
  resp_success :: bool
  resp_error :: "string option"
  resp_errorMessage :: "string option"

definition fromBulkIdResponse :: "bulkIdResponse \<Rightarrow> bulkOperationItem" where
  "fromBulkIdResponse r =
     (if resp_success r then \<lparr>item_id = resp_id r, item_status = Ok, reasonKey = None, item_message = None\<rparr>
      else if resp_error r \<in> {Some ''duplicate'', Some ''not_found'', Some ''no_permission''}
        then \<lparr>item_id = resp_id r, item_status = Skipped,
              reasonKey = Some (''frameleaf_bulk_reason_'' @ the (resp_error r)), item_message = resp_errorMessage r\<rparr>
      else \<lparr>item_id = resp_id r, item_status = Failed,
            reasonKey = Some (''frameleaf_bulk_reason_'' @ (case resp_error r of Some t \<Rightarrow> t | None \<Rightarrow> ''failed'')),
            item_message = resp_errorMessage r\<rparr>)"

section \<open>The worker's passes\<close>

definition withoutInFlight :: "bulkOperationResult \<Rightarrow> bulkOperationResult" where
  "withoutInFlight r =
     r\<lparr>inFlight := None, retry := map_option (\<lambda>p. p\<lparr>retry_inFlight := None\<rparr>) (retry r)\<rparr>"

definition ok_item :: "string \<Rightarrow> bulkOperationItem" where
  "ok_item i = \<lparr>item_id = i, item_status = Ok, reasonKey = None, item_message = None\<rparr>"

definition refused :: "string \<Rightarrow> thrown \<Rightarrow> bulkOperationItem" where
  "refused i e =
     \<lparr>item_id = i, item_status = fst (classifyBulkError e), reasonKey = Some (snd (classifyBulkError e)),
      item_message = Some (bulkErrorMessage e)\<rparr>"

text \<open>A later outcome for the same id replaces an earlier one in the map, as in the code's \<open>Map\<close>.\<close>

definition inBatchOrder :: "string list \<Rightarrow> bulkOperationItem list \<Rightarrow> bulkOperationItem list" where
  "inBatchOrder batch outcomes =
     (let byId = map_of (rev (map (\<lambda>o1. (item_id o1, o1)) outcomes))
      in map (\<lambda>i. case byId i of
                    Some o1 \<Rightarrow> o1
                  | None \<Rightarrow> \<lparr>item_id = i, item_status = Failed, reasonKey = Some ''frameleaf_bulk_reason_unknown'',
                             item_message = Some ''The server did not answer for this item''\<rparr>) batch)"

definition withShiftOrigins ::
  "('d \<Rightarrow> string) \<Rightarrow> (string \<rightharpoonup> 'd option) \<Rightarrow> bulkOperationSnapshot \<Rightarrow> bulkOperationResult \<Rightarrow> string list \<Rightarrow> bulkOperationResult" where
  "withShiftOrigins toISOString current snapshot r batch =
     (if \<not> isRelativeDateShift snapshot then r
      else
        let missing = filter (\<lambda>i. map_of (shiftFrom r) i = None) batch
        in if length missing = 0 then r else recordShiftOrigins toISOString r missing current)"

definition wholeAction :: "bulkOperationSnapshot \<Rightarrow> bool" where
  "wholeAction snapshot = (action snapshot = StackAction \<or> action snapshot = Unstack)"

definition batchSizeOf :: "bulkOperationSnapshot \<Rightarrow> nat" where
  "batchSizeOf snapshot =
     (if isMediaHealthBulkAction (action snapshot) then MEDIA_HEALTH_BULK_BATCH_SIZE else BULK_BATCH_SIZE)"

definition firstBatch :: "bulkOperationSnapshot \<Rightarrow> nat \<Rightarrow> string list" where
  "firstBatch snapshot processed =
     (let total = length (assetIds snapshot);
          n = (if wholeAction snapshot then total
               else bulkBatchLength (assetIds snapshot) processed (batchSizeOf snapshot) (bulkGroupIndex snapshot))
      in slice processed n (assetIds snapshot))"

definition retryBatch :: "bulkOperationSnapshot \<Rightarrow> bulkRetryPass \<Rightarrow> string list" where
  "retryBatch snapshot pass =
     (let cursor = nat \<lfloor>retry_processed pass\<rfloor>;
          n = (if wholeAction snapshot then length (retry_ids pass)
               else bulkBatchLength (retry_ids pass) cursor (batchSizeOf snapshot) (bulkGroupIndex snapshot))
      in slice cursor n (retry_ids pass))"

text \<open>The body of each loop once the batch has answered: the result and cursor it writes.\<close>

definition firstPassMark ::
  "('d \<Rightarrow> string) \<Rightarrow> (string \<rightharpoonup> 'd option) \<Rightarrow> bulkOperationSnapshot \<Rightarrow> bulkOperationResult \<Rightarrow> nat \<Rightarrow> bulkOperationResult" where
  "firstPassMark toISO current snapshot r processed =
     (let batch = firstBatch snapshot processed
      in (withShiftOrigins toISO current snapshot r batch)\<lparr>inFlight := Some (processed, length batch)\<rparr>)"

definition firstPassStep ::
  "('d \<Rightarrow> string) \<Rightarrow> (string \<rightharpoonup> 'd option) \<Rightarrow> bulkOperationSnapshot \<Rightarrow> bulkOperationResult \<Rightarrow> nat \<Rightarrow>
   bulkOperationItem list \<Rightarrow> bulkOperationResult \<times> nat" where
  "firstPassStep toISO current snapshot r processed answered =
     (let batch = firstBatch snapshot processed;
          r1 = withShiftOrigins toISO current snapshot r batch;
          outcomes = inBatchOrder batch answered
      in (pruneShiftOrigins snapshot (mergeBulkOutcomes (r1\<lparr>inFlight := None\<rparr>) outcomes),
          processed + length batch))"

definition retryPassMark ::
  "('d \<Rightarrow> string) \<Rightarrow> (string \<rightharpoonup> 'd option) \<Rightarrow> bulkOperationSnapshot \<Rightarrow> bulkOperationResult \<Rightarrow> bulkRetryPass \<Rightarrow> bulkOperationResult" where
  "retryPassMark toISO current snapshot r pass =
     (let batch = retryBatch snapshot pass
      in (withShiftOrigins toISO current snapshot r batch)
           \<lparr>retry := Some (pass\<lparr>retry_inFlight := Some (nat \<lfloor>retry_processed pass\<rfloor>, length batch)\<rparr>)\<rparr>)"

definition retryPassStep ::
  "('d \<Rightarrow> string) \<Rightarrow> (string \<rightharpoonup> 'd option) \<Rightarrow> bulkOperationSnapshot \<Rightarrow> bulkOperationResult \<Rightarrow> bulkRetryPass \<Rightarrow>
   bulkOperationItem list \<Rightarrow> bulkOperationResult" where
  "retryPassStep toISO current snapshot r pass answered =
     (let batch = retryBatch snapshot pass;
          r1 = withShiftOrigins toISO current snapshot r batch;
          outcomes = inBatchOrder batch answered;
          advanced = pass\<lparr>retry_processed := retry_processed pass + of_nat (length batch), retry_inFlight := None\<rparr>
      in pruneShiftOrigins snapshot (mergeBulkOutcomes (r1\<lparr>retry := Some advanced\<rparr>) outcomes))"

text \<open>
  A row of the table during a job, with the answers every item was given so far (oldest first). One rule
  per durable write. A batch that fails as a whole writes the marked result without its marker, which is
  \<open>mark\<close> followed by \<open>claim\<close>; so is a worker that dies with a batch in hand.
\<close>

type_synonym bulkRow = "bulkOperationResult \<times> nat \<times> (string \<Rightarrow> itemStatus list)"

definition logOutcome :: "(string \<Rightarrow> itemStatus list) \<Rightarrow> bulkOperationItem \<Rightarrow> string \<Rightarrow> itemStatus list" where
  "logOutcome h o1 = h(item_id o1 := h (item_id o1) @ [item_status o1])"

definition freshRow :: "bulkOperationSnapshot \<Rightarrow> bulkRow" where
  "freshRow snapshot = (emptyBulkResult (of_nat (length (assetIds snapshot))), 0, \<lambda>_. [])"

inductive bulk_step :: "('d \<Rightarrow> string) \<Rightarrow> bulkOperationSnapshot \<Rightarrow> bulkRow \<Rightarrow> bulkRow \<Rightarrow> bool"
  for toISO :: "'d \<Rightarrow> string" and snapshot :: bulkOperationSnapshot where
  claim: "bulk_step toISO snapshot (r, n, h) (withoutInFlight r, n, h)"
| first_mark: "n < length (assetIds snapshot) \<Longrightarrow>
    bulk_step toISO snapshot (r, n, h) (firstPassMark toISO current snapshot r n, n, h)"
| first_batch: "n < length (assetIds snapshot) \<Longrightarrow>
    firstPassStep toISO current snapshot r n answered = (r', n') \<Longrightarrow>
    bulk_step toISO snapshot (r, n, h) (r', n', foldl logOutcome h (inBatchOrder (firstBatch snapshot n) answered))"
| plan_retry: "length (assetIds snapshot) \<le> n \<Longrightarrow> planBulkRetryPass snapshot r = Some r' \<Longrightarrow>
    bulk_step toISO snapshot (r, n, h) (r', n, h)"
| retry_mark: "length (assetIds snapshot) \<le> n \<Longrightarrow> planBulkRetryPass snapshot r = None \<Longrightarrow>
    retry r = Some pass \<Longrightarrow> retry_processed pass < of_nat (length (retry_ids pass)) \<Longrightarrow>
    bulk_step toISO snapshot (r, n, h) (retryPassMark toISO current snapshot r pass, n, h)"
| retry_batch: "length (assetIds snapshot) \<le> n \<Longrightarrow> planBulkRetryPass snapshot r = None \<Longrightarrow>
    retry r = Some pass \<Longrightarrow> retry_processed pass < of_nat (length (retry_ids pass)) \<Longrightarrow>
    bulk_step toISO snapshot (r, n, h)
      (retryPassStep toISO current snapshot r pass answered, n,
       foldl logOutcome h (inBatchOrder (retryBatch snapshot pass) answered))"

inductive_cases bulk_step_cases: "bulk_step toISO snapshot s s'"

abbreviation bulk_steps :: "('d \<Rightarrow> string) \<Rightarrow> bulkOperationSnapshot \<Rightarrow> bulkRow \<Rightarrow> bulkRow \<Rightarrow> bool" where
  "bulk_steps toISO snapshot \<equiv> (bulk_step toISO snapshot)\<^sup>*\<^sup>*"

section \<open>Lemmas\<close>

lemma snapshot_parsed:
  assumes "parseBulkSnapshot j = Inr snapshot"
  shows "distinct (assetIds snapshot)" and "assetIds snapshot \<noteq> []"
  using assms by (auto simp: parseBulkSnapshot_def Let_def split: if_splits option.splits)

lemma map_of_keyed: "map_of (map (\<lambda>x. (f x, x)) xs) k = Some y \<Longrightarrow> f y = k"
  by (induction xs) (auto split: if_splits)

lemma case_option_key:
  "(\<And>x. m = Some x \<Longrightarrow> f x = k) \<Longrightarrow> f d = k \<Longrightarrow> f (case m of Some x \<Rightarrow> x | None \<Rightarrow> d) = k"
  by (cases m) auto

lemma inBatchOrder_ids [simp]: "map item_id (inBatchOrder batch answered) = batch"
proof -
  have key: "map_of (rev (map (\<lambda>o1. (item_id o1, o1)) answered)) i = Some o1 \<Longrightarrow> item_id o1 = i" for i o1
    by (metis map_of_keyed rev_map)
  have "item_id (case map_of (rev (map (\<lambda>o1. (item_id o1, o1)) answered)) i of
      Some o1 \<Rightarrow> o1 | None \<Rightarrow> \<lparr>item_id = i, item_status = s, reasonKey = a, item_message = b\<rparr>) = i" for i s a b
    by (rule case_option_key) (erule key, simp)
  then show ?thesis by (simp add: inBatchOrder_def Let_def comp_def)
qed

lemma inBatchOrder_length [simp]: "length (inBatchOrder batch answered) = length batch"
  by (metis inBatchOrder_ids length_map)

subsection \<open>What a row says of its items\<close>

definition answered_with :: "bulkOperationSnapshot \<Rightarrow> (string \<Rightarrow> itemStatus list) \<Rightarrow> itemStatus \<Rightarrow> string set" where
  "answered_with snapshot h s = {i \<in> set (assetIds snapshot). h i \<noteq> [] \<and> last (h i) = s}"

definition core :: "bulkOperationSnapshot \<Rightarrow> (string \<Rightarrow> itemStatus list) \<Rightarrow> string set \<Rightarrow> bulkOperationResult \<Rightarrow> bool" where
  "core snapshot h pend r \<longleftrightarrow>
     (\<forall>it \<in> set (items r). item_status it \<noteq> Ok \<and> item_id it \<in> answered_with snapshot h (item_status it) - pend) \<and>
     pend \<subseteq> answered_with snapshot h Failed \<and>
     succeeded r = of_nat (card (answered_with snapshot h Ok)) \<and>
     skipped r = of_nat (card (answered_with snapshot h Skipped)) \<and>
     failed r + of_nat (card pend) = of_nat (card (answered_with snapshot h Failed)) \<and>
     length (items r) \<le> BULK_RECORDED_ITEM_LIMIT \<and>
     (\<not> itemsTruncated r \<longrightarrow>
        (\<forall>i \<in> answered_with snapshot h Skipped \<union> (answered_with snapshot h Failed - pend). i \<in> item_id ` set (items r)))"

lemma core_cong:
  "core snapshot h pend r \<Longrightarrow> items r' = items r \<Longrightarrow> succeeded r' = succeeded r \<Longrightarrow> failed r' = failed r \<Longrightarrow>
   skipped r' = skipped r \<Longrightarrow> itemsTruncated r' = itemsTruncated r \<Longrightarrow> core snapshot h pend r'"
  by (simp add: core_def)

lemma finite_answered [simp]: "finite (answered_with snapshot h s)"
  by (simp add: answered_with_def)

lemma answered_log:
  assumes "item_id o1 \<in> set (assetIds snapshot)"
  shows "answered_with snapshot (logOutcome h o1) s =
    (if item_status o1 = s then insert (item_id o1) (answered_with snapshot h s)
     else answered_with snapshot h s - {item_id o1})"
  using assms by (auto simp: answered_with_def logOutcome_def)

text \<open>An item may be answered when it never was, or when it waits in the retry pass.\<close>

definition awaiting :: "(string \<Rightarrow> itemStatus list) \<Rightarrow> string set \<Rightarrow> string \<Rightarrow> bool" where
  "awaiting h pend i \<longleftrightarrow> h i = [] \<or> i \<in> pend"

lemma awaiting_facts:
  assumes "core snapshot h pend r" and "awaiting h pend i"
  shows "i \<notin> answered_with snapshot h Ok" and "i \<notin> answered_with snapshot h Skipped"
    and "i \<in> answered_with snapshot h Failed \<longleftrightarrow> i \<in> pend" and "i \<notin> item_id ` set (items r)"
proof -
  have P: "pend \<subseteq> answered_with snapshot h Failed" using assms(1) by (simp add: core_def)
  show ok: "i \<notin> answered_with snapshot h Ok" and sk: "i \<notin> answered_with snapshot h Skipped"
    using assms(2) P by (auto simp: awaiting_def answered_with_def)
  show fl: "i \<in> answered_with snapshot h Failed \<longleftrightarrow> i \<in> pend"
    using assms(2) P by (auto simp: awaiting_def answered_with_def)
  show "i \<notin> item_id ` set (items r)"
  proof
    assume "i \<in> item_id ` set (items r)"
    then obtain it where it: "it \<in> set (items r)" "i = item_id it" by blast
    then have "i \<in> answered_with snapshot h (item_status it) - pend" using assms(1) by (simp add: core_def)
    with ok sk fl show False by (cases "item_status it") auto
  qed
qed

lemma finite_pend: "core snapshot h pend r \<Longrightarrow> finite pend"
  by (auto simp: core_def intro: finite_subset)

text \<open>The counts after one more answer.\<close>

lemma count_failed_step:
  assumes "finite F" and "finite P" and "P \<subseteq> F" and "i \<in> F \<longleftrightarrow> i \<in> P"
    and "c + of_nat (card P) = (of_nat (card F) :: rat)"
  shows "c + 1 + of_nat (card (P - {i})) = of_nat (card (insert i F))"
    and "c + of_nat (card (P - {i})) = of_nat (card (F - {i}))"
proof -
  have one: "of_nat (card X) = (of_nat (card (X - {i})) + 1 :: rat)" if "finite X" "i \<in> X" for X :: "'a set"
    using card.remove [OF that] by simp
  show "c + 1 + of_nat (card (P - {i})) = of_nat (card (insert i F))"
  proof (cases "i \<in> P")
    case True
    then have same: "insert i F = F" using assms(4) by blast
    show ?thesis unfolding same using one [OF assms(2) True] assms(5) by linarith
  next
    case False
    then have "i \<notin> F" and "P - {i} = P" using assms(4) by auto
    then show ?thesis using assms(1,5) by simp
  qed
  show "c + of_nat (card (P - {i})) = of_nat (card (F - {i}))"
  proof (cases "i \<in> P")
    case True
    then have "i \<in> F" using assms(4) by blast
    then show ?thesis using one [OF assms(2) True] one [OF assms(1)] assms(5) by linarith
  next
    case False
    then have "F - {i} = F" and "P - {i} = P" using assms(4) by auto
    then show ?thesis using assms(5) by simp
  qed
qed

lemma mergeOutcome_fields:
  "succeeded (mergeOutcome r o1) = succeeded r + (if item_status o1 = Ok then 1 else 0)"
  "skipped (mergeOutcome r o1) = skipped r + (if item_status o1 = Skipped then 1 else 0)"
  "failed (mergeOutcome r o1) = failed r + (if item_status o1 = Failed then 1 else 0)"
  "items (mergeOutcome r o1) =
     (if item_status o1 \<noteq> Ok \<and> length (items r) < BULK_RECORDED_ITEM_LIMIT then items r @ [o1] else items r)"
  "itemsTruncated (mergeOutcome r o1) =
     (itemsTruncated r \<or> item_status o1 \<noteq> Ok \<and> \<not> length (items r) < BULK_RECORDED_ITEM_LIMIT)"
  "inFlight (mergeOutcome r o1) = inFlight r" "retry (mergeOutcome r o1) = retry r"
  "shiftFrom (mergeOutcome r o1) = shiftFrom r" "requested (mergeOutcome r o1) = requested r"
  by (simp_all add: mergeOutcome_def Let_def split: itemStatus.split)

lemma core_merge:
  assumes core: "core snapshot h pend r" and i: "item_id o1 \<in> set (assetIds snapshot)"
    and await: "awaiting h pend (item_id o1)"
  shows "core snapshot (logOutcome h o1) (pend - {item_id o1}) (mergeOutcome r o1)"
proof -
  let ?i = "item_id o1" and ?A = "answered_with snapshot h" and ?B = "answered_with snapshot (logOutcome h o1)"
  note f = awaiting_facts [OF core await]
  have log: "?B s = (if item_status o1 = s then insert ?i (?A s) else ?A s - {?i})" for s
    by (rule answered_log [OF i])
  have items: "\<forall>it \<in> set (items r). item_status it \<noteq> Ok \<and> item_id it \<in> ?A (item_status it) - pend"
    and P: "pend \<subseteq> ?A Failed" and failed: "failed r + of_nat (card pend) = of_nat (card (?A Failed))"
    and rest: "succeeded r = of_nat (card (?A Ok))" "skipped r = of_nat (card (?A Skipped))"
      "length (items r) \<le> BULK_RECORDED_ITEM_LIMIT"
    and trunc: "\<not> itemsTruncated r \<longrightarrow> (\<forall>i \<in> ?A Skipped \<union> (?A Failed - pend). i \<in> item_id ` set (items r))"
    using core unfolding core_def by blast+
  note counts = count_failed_step [OF finite_answered finite_pend [OF core] P f(3) failed]
  have old: "item_status it \<noteq> Ok \<and> item_id it \<in> ?B (item_status it) - (pend - {?i})" if "it \<in> set (items r)" for it
  proof -
    have "item_id it \<noteq> ?i" using f(4) that by (metis imageI)
    with items that show ?thesis by (auto simp: log)
  qed
  have recorded: "\<forall>j \<in> ?B Skipped \<union> (?B Failed - (pend - {?i})). j \<in> item_id ` set (items (mergeOutcome r o1))"
    if t: "\<not> itemsTruncated (mergeOutcome r o1)"
  proof
    fix j assume j: "j \<in> ?B Skipped \<union> (?B Failed - (pend - {?i}))"
    show "j \<in> item_id ` set (items (mergeOutcome r o1))"
    proof (cases "j = ?i")
      case True
      with j have "item_status o1 \<noteq> Ok" by (cases "item_status o1") (auto simp: log)
      with t True show ?thesis by (simp add: mergeOutcome_fields)
    next
      case False
      with j have "j \<in> ?A Skipped \<union> (?A Failed - pend)" by (auto simp: log split: if_splits)
      with trunc t have "j \<in> item_id ` set (items r)" by (simp add: mergeOutcome_fields)
      then show ?thesis by (auto simp: mergeOutcome_fields)
    qed
  qed
  have new: "?i \<in> ?B (item_status o1) - (pend - {?i})" by (simp add: log)
  show ?thesis
    unfolding core_def
  proof (intro conjI impI)
    show "\<forall>it \<in> set (items (mergeOutcome r o1)). item_status it \<noteq> Ok \<and> item_id it \<in> ?B (item_status it) - (pend - {?i})"
      using old new by (simp add: mergeOutcome_fields)
    show "pend - {?i} \<subseteq> ?B Failed" using P by (auto simp: log)
    show "succeeded (mergeOutcome r o1) = of_nat (card (?B Ok))"
      "skipped (mergeOutcome r o1) = of_nat (card (?B Skipped))"
      using rest f(1,2) by (simp_all add: mergeOutcome_fields log)
    show "failed (mergeOutcome r o1) + of_nat (card (pend - {?i})) = of_nat (card (?B Failed))"
      using counts by (simp add: mergeOutcome_fields log)
    show "length (items (mergeOutcome r o1)) \<le> BULK_RECORDED_ITEM_LIMIT"
      using rest(3) by (simp add: mergeOutcome_fields)
  qed (rule recorded)
qed

lemma core_merges:
  "core snapshot h pend r \<Longrightarrow> distinct (map item_id os) \<Longrightarrow> set (map item_id os) \<subseteq> set (assetIds snapshot) \<Longrightarrow>
   (\<And>i. i \<in> set (map item_id os) \<Longrightarrow> awaiting h pend i) \<Longrightarrow>
   core snapshot (foldl logOutcome h os) (pend - set (map item_id os)) (mergeBulkOutcomes r os)"
proof (induction os arbitrary: h pend r)
  case Nil
  then show ?case by (simp add: mergeBulkOutcomes_def)
next
  case (Cons o1 os)
  have "core snapshot (logOutcome h o1) (pend - {item_id o1}) (mergeOutcome r o1)"
    using Cons.prems by (intro core_merge) auto
  then have "core snapshot (foldl logOutcome (logOutcome h o1) os)
      (pend - {item_id o1} - set (map item_id os)) (mergeBulkOutcomes (mergeOutcome r o1) os)"
  proof (rule Cons.IH)
    fix i assume i: "i \<in> set (map item_id os)"
    with Cons.prems(2) have "i \<noteq> item_id o1" by (auto simp: image_iff)
    moreover have "awaiting h pend i" using Cons.prems(4) i by simp
    ultimately show "awaiting (logOutcome h o1) (pend - {item_id o1}) i"
      by (simp add: awaiting_def logOutcome_def)
  qed (use Cons.prems in auto)
  moreover have "pend - {item_id o1} - set (map item_id os) = pend - set (map item_id (o1 # os))" by auto
  ultimately show ?case by (simp add: mergeBulkOutcomes_def)
qed

lemma core_plan:
  assumes core: "core snapshot h {} r" and plan: "planBulkRetryPass snapshot r = Some r'"
    and dist: "distinct (assetIds snapshot)"
  shows "core snapshot h (set (failedIds r)) r'"
    and "retry r' = Some \<lparr>retry_ids = filter (\<lambda>i. i \<in> set (failedIds r)) (assetIds snapshot),
      retry_total = of_nat (length (filter (\<lambda>i. i \<in> set (failedIds r)) (assetIds snapshot))),
      retry_processed = 0, retry_inFlight = None\<rparr>"
    and "set (failedIds r) \<subseteq> answered_with snapshot h Failed" and "failedIds r' = []"
    and "inFlight r' = inFlight r" and "shiftFrom r' = shiftFrom r" and "retry r = None"
proof -
  let ?F = "set (failedIds r)" and ?ids = "filter (\<lambda>i. i \<in> set (failedIds r)) (assetIds snapshot)"
  show sub: "?F \<subseteq> answered_with snapshot h Failed"
    using core by (auto simp: core_def failedIds_def)
  then have "set ?ids = ?F" by (auto simp: answered_with_def)
  moreover have "distinct ?ids" using dist by simp
  ultimately have len: "length ?ids = card ?F" by (metis distinct_card)
  have "of_nat (card ?F) \<le> failed r"
    using core card_mono [OF finite_answered sub] by (simp add: core_def)
  then have f: "max 0 (failed r - of_nat (length ?ids)) = failed r - of_nat (card ?F)" by (simp add: len)
  have r': "r' = r\<lparr>failed := failed r - of_nat (card ?F),
      items := filter (\<lambda>i. \<not> (item_status i = Failed \<and> item_id i \<in> ?F)) (items r),
      retry := Some \<lparr>retry_ids = ?ids, retry_total = of_nat (length ?ids), retry_processed = 0, retry_inFlight = None\<rparr>\<rparr>"
    using plan unfolding planBulkRetryPass_def Let_def f by (simp split: if_splits)
  have "length (filter (\<lambda>i. \<not> (item_status i = Failed \<and> item_id i \<in> ?F)) (items r)) \<le> BULK_RECORDED_ITEM_LIMIT"
    using core by (metis (no_types, lifting) core_def length_filter_le order_trans)
  moreover have "item_id it \<notin> ?F" if "it \<in> set (items r)" "item_status it \<noteq> Failed" for it
    using core sub that by (auto simp: core_def answered_with_def)
  moreover have "i \<in> item_id ` set (items r')"
    if t: "\<not> itemsTruncated r" and i: "i \<in> answered_with snapshot h Skipped \<union> (answered_with snapshot h Failed - ?F)" for i
  proof -
    from t i core obtain it where it: "it \<in> set (items r)" "i = item_id it" by (auto simp: core_def)
    then have "item_id it \<in> answered_with snapshot h (item_status it)" using core by (simp add: core_def)
    with i it(2) have "i \<notin> ?F" using sub by (auto simp: answered_with_def)
    with it show ?thesis by (auto simp: r')
  qed
  ultimately show "core snapshot h ?F r'"
    using core sub unfolding core_def by (auto simp: r')
  show "retry r' = Some \<lparr>retry_ids = ?ids, retry_total = of_nat (length ?ids), retry_processed = 0, retry_inFlight = None\<rparr>"
    "inFlight r' = inFlight r" "shiftFrom r' = shiftFrom r"
    by (simp_all add: r')
  show "failedIds r' = []" by (auto simp: r' failedIds_def filter_empty_conv)
  show "retry r = None" using plan by (simp add: planBulkRetryPass_def split: if_splits)
qed

subsection \<open>Histories and batches\<close>

lemma logOutcome_apply: "logOutcome h o1 i = (if i = item_id o1 then h i @ [item_status o1] else h i)"
  by (simp add: logOutcome_def)

lemma log_other: "i \<notin> set (map item_id os) \<Longrightarrow> foldl logOutcome h os i = h i"
  by (induction os arbitrary: h) (auto simp: logOutcome_apply)

lemma log_once:
  "distinct (map item_id os) \<Longrightarrow> i \<in> set (map item_id os) \<Longrightarrow> \<exists>s. foldl logOutcome h os i = h i @ [s]"
proof (induction os arbitrary: h)
  case (Cons o1 os)
  show ?case
  proof (cases "i = item_id o1")
    case True
    with Cons.prems(1) have "i \<notin> set (map item_id os)" by simp
    then have "foldl logOutcome (logOutcome h o1) os i = logOutcome h o1 i" by (rule log_other)
    moreover have "logOutcome h o1 i = h i @ [item_status o1]" by (simp add: logOutcome_def True)
    ultimately have "foldl logOutcome h (o1 # os) i = h i @ [item_status o1]" by simp
    then show ?thesis by blast
  next
    case False
    then have "\<exists>s. foldl logOutcome (logOutcome h o1) os i = logOutcome h o1 i @ [s]"
      using Cons by (intro Cons.IH) auto
    moreover have "logOutcome h o1 i = h i" using False by (simp add: logOutcome_def)
    ultimately show ?thesis by simp
  qed
qed simp

lemma take_slice: "take (n + length (slice n k xs)) xs = take n xs @ slice n k xs"
proof -
  have "take (length (slice n k xs)) (drop n xs) = slice n k xs" by (simp add: slice_def min_def)
  then show ?thesis by (simp add: take_add)
qed

lemma set_slice: "set (slice n k xs) \<subseteq> set (drop n xs)"
  by (simp add: slice_def set_take_subset)

lemma slice_distinct: "distinct xs \<Longrightarrow> distinct (slice n k xs)"
  by (simp add: slice_def)

lemma slice_within: "n + length (slice n k xs) \<le> max n (length xs)"
  by (simp add: slice_def)





lemma firstBatch_slice: "\<exists>k. firstBatch snapshot n = slice n k (assetIds snapshot)"
  by (auto simp: firstBatch_def Let_def)


lemma retryBatch_slice: "\<exists>k. retryBatch snapshot pass = slice (nat \<lfloor>retry_processed pass\<rfloor>) k (retry_ids pass)"
  by (auto simp: retryBatch_def Let_def)


subsection \<open>What each write leaves alone\<close>

lemma mergeBulkOutcomes_keeps [simp]:
  "inFlight (mergeBulkOutcomes r os) = inFlight r" "retry (mergeBulkOutcomes r os) = retry r"
  "shiftFrom (mergeBulkOutcomes r os) = shiftFrom r"
  unfolding mergeBulkOutcomes_def by (induction os arbitrary: r) (simp_all add: mergeOutcome_fields)

lemma failedIds_merge: "set (failedIds (mergeBulkOutcomes r os)) \<subseteq> set (failedIds r) \<union> set (map item_id os)"
  unfolding mergeBulkOutcomes_def
proof (induction os arbitrary: r)
  case (Cons o1 os)
  have "set (failedIds (mergeOutcome r o1)) \<subseteq> insert (item_id o1) (set (failedIds r))"
    by (auto simp: failedIds_def mergeOutcome_fields split: if_splits)
  with Cons.IH [of "mergeOutcome r o1"] show ?case by auto
qed simp

lemma pruneShiftOrigins_keeps [simp]:
  "items (pruneShiftOrigins snapshot r) = items r" "succeeded (pruneShiftOrigins snapshot r) = succeeded r"
  "failed (pruneShiftOrigins snapshot r) = failed r" "skipped (pruneShiftOrigins snapshot r) = skipped r"
  "itemsTruncated (pruneShiftOrigins snapshot r) = itemsTruncated r"
  "retry (pruneShiftOrigins snapshot r) = retry r" "inFlight (pruneShiftOrigins snapshot r) = inFlight r"
  by (simp_all add: pruneShiftOrigins_def Let_def)

lemma withShiftOrigins_keeps [simp]:
  "items (withShiftOrigins t c snapshot r b) = items r" "succeeded (withShiftOrigins t c snapshot r b) = succeeded r"
  "failed (withShiftOrigins t c snapshot r b) = failed r" "skipped (withShiftOrigins t c snapshot r b) = skipped r"
  "itemsTruncated (withShiftOrigins t c snapshot r b) = itemsTruncated r"
  "retry (withShiftOrigins t c snapshot r b) = retry r" "inFlight (withShiftOrigins t c snapshot r b) = inFlight r"
  by (simp_all add: withShiftOrigins_def recordShiftOrigins_def Let_def)

lemma failedIds_cong: "items r = items r' \<Longrightarrow> failedIds r = failedIds r'"
  by (simp add: failedIds_def)

lemma bulkRetryPending_cong: "retry r = retry r' \<Longrightarrow> bulkRetryPending r = bulkRetryPending r'"
  by (simp add: bulkRetryPending_def)

lemma filter_key: "map_of (filter (\<lambda>(k, _). P k) kvs) k = (if P k then map_of kvs k else None)"
  by (induction kvs) auto

lemma recordShiftOrigin_keeps:
  "map_of from i = Some v \<Longrightarrow> map_of (recordShiftOrigin t c from j) i = Some v"
  by (simp add: recordShiftOrigin_def map_add_Some_iff)

lemma recordShiftOrigins_fold:
  "map_of from i = Some v \<Longrightarrow> map_of (foldl (recordShiftOrigin t c) from js) i = Some v"
  by (induction js arbitrary: "from") (simp_all add: recordShiftOrigin_keeps)

lemma recordShiftOrigins_keys:
  "fst ` set (foldl (recordShiftOrigin t c) from js) \<subseteq> fst ` set from \<union> set js"
proof (induction js arbitrary: "from")
  case (Cons j js)
  have "fst ` set (recordShiftOrigin t c from j) \<subseteq> insert j (fst ` set from)"
    by (simp add: recordShiftOrigin_def subset_insertI)
  with Cons.IH [of "recordShiftOrigin t c from j"] show ?case by auto
qed simp

lemma withShiftOrigins_shift:
  "map_of (shiftFrom r) i = Some v \<Longrightarrow> map_of (shiftFrom (withShiftOrigins t c snapshot r b)) i = Some v"
  "fst ` set (shiftFrom (withShiftOrigins t c snapshot r b)) \<subseteq> fst ` set (shiftFrom r) \<union> set b"
proof -
  show "map_of (shiftFrom r) i = Some v \<Longrightarrow> map_of (shiftFrom (withShiftOrigins t c snapshot r b)) i = Some v"
    by (simp add: withShiftOrigins_def recordShiftOrigins_def Let_def recordShiftOrigins_fold)
  show "fst ` set (shiftFrom (withShiftOrigins t c snapshot r b)) \<subseteq> fst ` set (shiftFrom r) \<union> set b"
  proof (cases "isRelativeDateShift snapshot")
    case True
    let ?m = "filter (\<lambda>i. map_of (shiftFrom r) i = None) b"
    have "fst ` set (foldl (recordShiftOrigin t c) (shiftFrom r) ?m) \<subseteq> fst ` set (shiftFrom r) \<union> set ?m"
      by (rule recordShiftOrigins_keys)
    also have "\<dots> \<subseteq> fst ` set (shiftFrom r) \<union> set b" by auto
    finally show ?thesis using True
      by (cases "length ?m = 0") (simp_all add: withShiftOrigins_def recordShiftOrigins_def Let_def)
  qed (simp add: withShiftOrigins_def)
qed

lemma withShiftOrigins_within:
  "fst ` set (shiftFrom r) \<subseteq> X \<Longrightarrow> set b \<subseteq> X \<Longrightarrow> fst ` set (shiftFrom (withShiftOrigins t c snapshot r b)) \<subseteq> X"
  by (rule order_trans [OF withShiftOrigins_shift(2)]) simp

lemma pruneShiftOrigins_map:
  "\<exists>keep. map_of (shiftFrom (pruneShiftOrigins snapshot r)) =
     (\<lambda>i. if keep i then map_of (shiftFrom r) i else None) \<and>
   fst ` set (shiftFrom (pruneShiftOrigins snapshot r)) \<subseteq> fst ` set (shiftFrom r) \<inter> Collect keep \<and>
   (\<forall>i \<in> set (failedIds r) \<union> set (bulkRetryPending r). keep i) \<and>
   (inFlight r = None \<longrightarrow> retry r = None \<longrightarrow> Collect keep \<subseteq> set (failedIds r))"
proof -
  define keep where "keep = failedIds r @ bulkRetryPending r @
      (case inFlight r of Some (s, n) \<Rightarrow> slice s n (assetIds snapshot) | None \<Rightarrow> []) @
      (case retry r of
         Some p \<Rightarrow> (case retry_inFlight p of Some (s, n) \<Rightarrow> slice s n (retry_ids p) | None \<Rightarrow> [])
       | None \<Rightarrow> [])"
  have shift: "shiftFrom (pruneShiftOrigins snapshot r) = filter (\<lambda>(i, _). i \<in> set keep) (shiftFrom r)"
    by (simp add: pruneShiftOrigins_def Let_def keep_def)
  have "Collect (\<lambda>i. i \<in> set keep) \<subseteq> set (failedIds r)" if "inFlight r = None" "retry r = None"
    using that by (simp add: keep_def bulkRetryPending_def)
  moreover have "\<forall>i \<in> set (failedIds r) \<union> set (bulkRetryPending r). i \<in> set keep"
    unfolding keep_def by auto
  moreover have "map_of (shiftFrom (pruneShiftOrigins snapshot r)) =
      (\<lambda>i. if i \<in> set keep then map_of (shiftFrom r) i else None)"
    unfolding shift by (rule ext) (rule filter_key)
  moreover have "fst ` set (shiftFrom (pruneShiftOrigins snapshot r)) \<subseteq>
      fst ` set (shiftFrom r) \<inter> Collect (\<lambda>i. i \<in> set keep)"
    unfolding shift by auto
  ultimately show ?thesis by (intro exI [of _ "\<lambda>i. i \<in> set keep"]) simp
qed

lemma pruneShiftOrigins_shift:
  "map_of (shiftFrom r) i = Some v \<Longrightarrow> i \<in> set (failedIds r) \<union> set (bulkRetryPending r) \<Longrightarrow>
     map_of (shiftFrom (pruneShiftOrigins snapshot r)) i = Some v"
  "fst ` set (shiftFrom (pruneShiftOrigins snapshot r)) \<subseteq> fst ` set (shiftFrom r)"
  "inFlight r = None \<Longrightarrow> retry r = None \<Longrightarrow>
     fst ` set (shiftFrom (pruneShiftOrigins snapshot r)) \<subseteq> set (failedIds r)"
proof -
  obtain keep where keep: "map_of (shiftFrom (pruneShiftOrigins snapshot r)) =
      (\<lambda>i. if keep i then map_of (shiftFrom r) i else None)"
    "fst ` set (shiftFrom (pruneShiftOrigins snapshot r)) \<subseteq> fst ` set (shiftFrom r) \<inter> Collect keep"
    "\<forall>i \<in> set (failedIds r) \<union> set (bulkRetryPending r). keep i"
    "inFlight r = None \<longrightarrow> retry r = None \<longrightarrow> Collect keep \<subseteq> set (failedIds r)"
    using pruneShiftOrigins_map [of snapshot r] by (elim exE conjE) (rule that)
  show "map_of (shiftFrom r) i = Some v \<Longrightarrow> i \<in> set (failedIds r) \<union> set (bulkRetryPending r) \<Longrightarrow>
     map_of (shiftFrom (pruneShiftOrigins snapshot r)) i = Some v"
    using keep(3) unfolding keep(1) by simp
  show "fst ` set (shiftFrom (pruneShiftOrigins snapshot r)) \<subseteq> fst ` set (shiftFrom r)"
    using keep(2) by blast
  show "inFlight r = None \<Longrightarrow> retry r = None \<Longrightarrow>
     fst ` set (shiftFrom (pruneShiftOrigins snapshot r)) \<subseteq> set (failedIds r)"
    using keep(2,4) by blast
qed

subsection \<open>The invariant of a row\<close>

definition retry_ok :: "bulkOperationSnapshot \<Rightarrow> bulkRetryPass \<Rightarrow> nat \<Rightarrow> (string \<Rightarrow> itemStatus list) \<Rightarrow> nat \<Rightarrow> bool" where
  "retry_ok snapshot pass n h k \<longleftrightarrow>
     n = length (assetIds snapshot) \<and> distinct (retry_ids pass) \<and> set (retry_ids pass) \<subseteq> set (assetIds snapshot) \<and>
     k \<le> length (retry_ids pass) \<and> retry_processed pass = of_nat k \<and>
     (\<forall>i \<in> set (drop k (retry_ids pass)). h i = [Failed]) \<and>
     (\<forall>i \<in> set (take k (retry_ids pass)). \<exists>s. h i = [Failed, s]) \<and>
     (\<forall>i. i \<notin> set (retry_ids pass) \<longrightarrow> length (h i) \<le> 1)"

fun row_ok :: "bulkOperationSnapshot \<Rightarrow> bulkRow \<Rightarrow> bool" where
  "row_ok snapshot (r, n, h) \<longleftrightarrow>
     n \<le> length (assetIds snapshot) \<and> (\<forall>i. h i \<noteq> [] \<longleftrightarrow> i \<in> set (take n (assetIds snapshot))) \<and>
     core snapshot h (set (bulkRetryPending r)) r \<and>
     (case retry r of
        None \<Rightarrow> (\<forall>i. length (h i) \<le> 1)
      | Some pass \<Rightarrow> (\<exists>k. retry_ok snapshot pass n h k)) \<and>
     fst ` set (shiftFrom r) \<subseteq> set (take (n + length (firstBatch snapshot n)) (assetIds snapshot))"

declare row_ok.simps [simp del]

lemma row_ok_fresh: "row_ok snapshot (freshRow snapshot)"
  by (simp add: row_ok.simps freshRow_def emptyBulkResult_def core_def answered_with_def bulkRetryPending_def)

lemma row_ok_same:
  assumes "row_ok snapshot (r, n, h)"
    and "items r' = items r" "succeeded r' = succeeded r" "failed r' = failed r" "skipped r' = skipped r"
      "itemsTruncated r' = itemsTruncated r"
    and retry: "retry r' = retry r \<or>
      (\<exists>p f. retry r = Some p \<and> retry r' = Some (p\<lparr>retry_inFlight := f\<rparr>))"
    and "fst ` set (shiftFrom r') \<subseteq> set (take (n + length (firstBatch snapshot n)) (assetIds snapshot))"
  shows "row_ok snapshot (r', n, h)"
proof -
  have pend: "bulkRetryPending r' = bulkRetryPending r" using retry by (auto simp: bulkRetryPending_def)
  have "core snapshot h (set (bulkRetryPending r')) r'"
    unfolding pend using assms(1) by (intro core_cong [of snapshot h _ r r'] assms(2-6)) (simp add: row_ok.simps)
  moreover have "case retry r' of None \<Rightarrow> (\<forall>i. length (h i) \<le> 1)
      | Some pass \<Rightarrow> (\<exists>k. retry_ok snapshot pass n h k)"
    using assms(1) retry by (auto simp: row_ok.simps retry_ok_def split: option.splits)
  ultimately show ?thesis using assms(1,8) by (simp add: row_ok.simps)
qed

lemma row_ok_claim: "row_ok snapshot (r, n, h) \<Longrightarrow> row_ok snapshot (withoutInFlight r, n, h)"
proof (rule row_ok_same)
  show "retry (withoutInFlight r) = retry r \<or>
      (\<exists>p f. retry r = Some p \<and> retry (withoutInFlight r) = Some (p\<lparr>retry_inFlight := f\<rparr>))"
    by (cases "retry r") (auto simp: withoutInFlight_def)
qed (simp_all add: withoutInFlight_def row_ok.simps)

lemma row_ok_first_mark:
  assumes "row_ok snapshot (r, n, h)"
  shows "row_ok snapshot (firstPassMark t c snapshot r n, n, h)"
proof -
  let ?b = "firstBatch snapshot n"
  obtain k where k: "?b = slice n k (assetIds snapshot)" using firstBatch_slice by blast
  have "set ?b \<subseteq> set (take (n + length ?b) (assetIds snapshot))" unfolding k take_slice by simp
  then have "fst ` set (shiftFrom (withShiftOrigins t c snapshot r ?b)) \<subseteq> set (take (n + length ?b) (assetIds snapshot))"
    using assms by (intro withShiftOrigins_within) (simp_all add: row_ok.simps)
  then show ?thesis by (intro row_ok_same [OF assms]) (simp_all add: firstPassMark_def Let_def)
qed

lemma row_ok_retry_mark:
  assumes "row_ok snapshot (r, n, h)" and "retry r = Some pass"
  shows "row_ok snapshot (retryPassMark t c snapshot r pass, n, h)"
proof -
  let ?b = "retryBatch snapshot pass"
  obtain k where k: "retry_ok snapshot pass n h k" using assms by (auto simp: row_ok.simps)
  have "set ?b \<subseteq> set (assetIds snapshot)"
    using retryBatch_slice [of snapshot pass] set_slice set_drop_subset k by (fastforce simp: retry_ok_def)
  moreover have "take (n + length (firstBatch snapshot n)) (assetIds snapshot) = assetIds snapshot"
    using k by (simp add: retry_ok_def)
  ultimately have "fst ` set (shiftFrom (withShiftOrigins t c snapshot r ?b)) \<subseteq>
      set (take (n + length (firstBatch snapshot n)) (assetIds snapshot))"
    using assms(1) by (intro withShiftOrigins_within) (simp_all add: row_ok.simps)
  then show ?thesis using assms(2) by (intro row_ok_same [OF assms(1)]) (auto simp: retryPassMark_def Let_def)
qed

lemma row_ok_plan:
  assumes row: "row_ok snapshot (r, n, h)" and plan: "planBulkRetryPass snapshot r = Some r'"
    and n: "length (assetIds snapshot) \<le> n" and dist: "distinct (assetIds snapshot)"
  shows "row_ok snapshot (r', n, h)"
proof -
  have "retry r = None" using plan by (simp add: planBulkRetryPass_def split: if_splits)
  then have core: "core snapshot h {} r" and one: "\<forall>i. length (h i) \<le> 1"
    using row by (simp_all add: row_ok.simps bulkRetryPending_def)
  note pl = core_plan [OF core plan dist]
  let ?F = "set (failedIds r)" and ?pass = "the (retry r')"
  have ids: "set (filter (\<lambda>i. i \<in> ?F) (assetIds snapshot)) = ?F" using pl(3) by (auto simp: answered_with_def)
  have "h i = [Failed]" if "i \<in> ?F" for i
  proof -
    have "h i \<noteq> []" "last (h i) = Failed" using pl(3) that by (auto simp: answered_with_def)
    with one show ?thesis by (cases "h i") (auto simp: le_Suc_eq dest: spec [of _ i])
  qed
  then have "retry_ok snapshot ?pass n h 0"
    using pl(2) row n dist one ids by (auto simp: retry_ok_def row_ok.simps)
  moreover have "bulkRetryPending r' = filter (\<lambda>i. i \<in> ?F) (assetIds snapshot)"
    by (simp add: bulkRetryPending_def pl(2))
  ultimately show ?thesis
    using row pl(1,2,6) ids by (auto simp: row_ok.simps)
qed

lemma retry_none_while_unfinished:
  "row_ok snapshot (r, n, h) \<Longrightarrow> n < length (assetIds snapshot) \<Longrightarrow> retry r = None"
  by (cases "retry r") (auto simp: row_ok.simps retry_ok_def)

lemma row_ok_first_batch:
  assumes row: "row_ok snapshot (r, n, h)" and n: "n < length (assetIds snapshot)"
    and step: "firstPassStep t c snapshot r n answered = (r', n')" and dist: "distinct (assetIds snapshot)"
  shows "row_ok snapshot (r', n', foldl logOutcome h (inBatchOrder (firstBatch snapshot n) answered))"
proof -
  let ?xs = "assetIds snapshot" and ?b = "firstBatch snapshot n"
  let ?os = "inBatchOrder ?b answered"
  let ?h = "foldl logOutcome h ?os" and ?r = "(withShiftOrigins t c snapshot r ?b)\<lparr>inFlight := None\<rparr>"
  obtain k where k: "?b = slice n k ?xs" using firstBatch_slice by blast
  have n': "n' = n + length ?b" and r': "r' = pruneShiftOrigins snapshot (mergeBulkOutcomes ?r ?os)"
    using step by (simp_all add: firstPassStep_def Let_def)
  have tk: "take n' ?xs = take n ?xs @ ?b" unfolding n' k by (rule take_slice)
  have le: "n' \<le> length ?xs" unfolding n' k using slice_within [of n k ?xs] n by simp
  have db: "distinct ?b" unfolding k by (rule slice_distinct [OF dist])
  have sub: "set ?b \<subseteq> set (drop n ?xs)" unfolding k by (rule set_slice)
  have fresh: "h i = []" if "i \<in> set ?b" for i
  proof -
    have "i \<notin> set (take n ?xs)"
      using that sub set_take_disj_set_drop_if_distinct [OF dist order_refl [of n]] by blast
    then show ?thesis using row by (metis row_ok.simps)
  qed
  have none: "retry r = None" by (rule retry_none_while_unfinished [OF row n])
  then have core: "core snapshot h {} r" and one: "\<forall>i. length (h i) \<le> 1"
    using row by (simp_all add: row_ok.simps bulkRetryPending_def)
  have "core snapshot h {} ?r" by (rule core_cong [OF core]) simp_all
  moreover have "set ?b \<subseteq> set ?xs" using sub set_drop_subset [of n ?xs] by blast
  ultimately have "core snapshot ?h ({} - set (map item_id ?os)) (mergeBulkOutcomes ?r ?os)"
    using db fresh by (intro core_merges) (simp_all add: awaiting_def)
  then have c: "core snapshot ?h {} (mergeBulkOutcomes ?r ?os)" by simp
  have pend: "bulkRetryPending r' = []" by (simp add: r' none bulkRetryPending_def)
  have hist: "if i \<in> set ?b then \<exists>s. ?h i = [s] else ?h i = h i" for i
    using log_other [of i ?os h] log_once [of ?os i h] db fresh [of i] by simp
  have ne: "?h i \<noteq> [] \<longleftrightarrow> i \<in> set (take n' ?xs)" for i
    using hist [of i] row by (auto simp: tk row_ok.simps split: if_splits)
  have len: "length (?h i) \<le> 1" for i
    using hist [of i] one by (auto split: if_splits)
  have "fst ` set (shiftFrom r') \<subseteq> set (failedIds (mergeBulkOutcomes ?r ?os))"
    unfolding r' by (rule pruneShiftOrigins_shift(3)) (simp_all add: none)
  also have "\<dots> \<subseteq> set (take n' ?xs)"
    using c ne by (fastforce simp: core_def failedIds_def answered_with_def)
  also have "\<dots> \<subseteq> set (take (n' + length (firstBatch snapshot n')) ?xs)" by (rule set_take_subset_set_take) simp
  finally have keys: "fst ` set (shiftFrom r') \<subseteq> set (take (n' + length (firstBatch snapshot n')) ?xs)" .
  have "core snapshot ?h {} r'" by (rule core_cong [OF c]) (simp_all add: r')
  then show ?thesis using le ne len keys by (simp add: row_ok.simps pend) (simp add: r' none)
qed

lemma row_ok_retry_batch:
  assumes row: "row_ok snapshot (r, n, h)" and pass: "retry r = Some pass"
    and more: "retry_processed pass < of_nat (length (retry_ids pass))"
  shows "row_ok snapshot (retryPassStep t c snapshot r pass answered, n,
    foldl logOutcome h (inBatchOrder (retryBatch snapshot pass) answered))"
proof -
  let ?xs = "assetIds snapshot" and ?ids = "retry_ids pass" and ?b = "retryBatch snapshot pass"
  let ?os = "inBatchOrder ?b answered"
  let ?h = "foldl logOutcome h ?os"
  let ?adv = "pass\<lparr>retry_processed := retry_processed pass + of_nat (length ?b), retry_inFlight := None\<rparr>"
  let ?r = "(withShiftOrigins t c snapshot r ?b)\<lparr>retry := Some ?adv\<rparr>"
  let ?r' = "retryPassStep t c snapshot r pass answered"
  obtain k where k: "retry_ok snapshot pass n h k" using row pass by (auto simp: row_ok.simps)
  have at: "nat \<lfloor>retry_processed pass\<rfloor> = k" using k by (simp add: retry_ok_def)
  obtain m where m: "?b = slice k m ?ids" using retryBatch_slice [of snapshot pass] unfolding at by blast
  define k' where "k' = k + length ?b"
  have tk: "take k' ?ids = take k ?ids @ ?b" unfolding k'_def m by (rule take_slice)
  have di: "distinct ?ids" using k by (simp add: retry_ok_def)
  have le: "k' \<le> length ?ids" unfolding k'_def m using slice_within [of k m ?ids] k by (simp add: retry_ok_def)
  have db: "distinct ?b" unfolding m by (rule slice_distinct [OF di])
  have bd: "set ?b \<subseteq> set (drop k ?ids)" unfolding m by (rule set_slice)
  have bx: "set ?b \<subseteq> set ?xs" using bd set_drop_subset [of k ?ids] k by (auto simp: retry_ok_def)
  have pend: "set (bulkRetryPending r) = set (drop k ?ids)" by (simp add: bulkRetryPending_def pass at)
  have split: "drop k ?ids = ?b @ drop k' ?ids"
  proof -
    have "take k' ?ids @ drop k' ?ids = take k ?ids @ drop k ?ids" by (simp only: append_take_drop_id)
    then show ?thesis unfolding tk by (simp only: append.assoc same_append_eq)
  qed
  have dd: "distinct (?b @ drop k' ?ids)" using distinct_drop [OF di, of k] by (simp only: split)
  then have pend': "set (drop k ?ids) - set ?b = set (drop k' ?ids)" unfolding split by auto
  have r': "?r' = pruneShiftOrigins snapshot (mergeBulkOutcomes ?r ?os)" by (simp add: retryPassStep_def Let_def)
  have "core snapshot h (set (drop k ?ids)) ?r"
    by (rule core_cong [of snapshot h _ r]) (use row pend in \<open>simp_all add: row_ok.simps\<close>)
  then have "core snapshot ?h (set (drop k ?ids) - set (map item_id ?os)) (mergeBulkOutcomes ?r ?os)"
    using db bx bd by (intro core_merges) (simp_all add: awaiting_def subset_iff)
  then have "core snapshot ?h (set (drop k' ?ids)) (mergeBulkOutcomes ?r ?os)" using pend' by simp
  then have c: "core snapshot ?h (set (drop k' ?ids)) ?r'" by (rule core_cong) (simp_all add: r')
  have retry': "retry ?r' = Some ?adv" by (simp add: r')
  have adv: "retry_processed ?adv = of_nat k'" using k by (simp add: retry_ok_def k'_def)
  have "bulkRetryPending ?r' = drop k' ?ids" unfolding bulkRetryPending_def retry' by (simp add: adv [simplified])
  moreover have hist: "if i \<in> set ?b then \<exists>s. ?h i = [Failed, s] else ?h i = h i" for i
    using log_other [of i ?os h] log_once [of ?os i h] db bd k by (auto simp: retry_ok_def)
  have takes: "set (take k ?ids) \<inter> set (drop k ?ids) = {}"
    by (rule set_take_disj_set_drop_if_distinct [OF di order_refl])
  have "retry_ok snapshot ?adv n ?h k'"
    unfolding retry_ok_def
  proof (intro conjI ballI allI impI)
    show "?h i = [Failed]" if "i \<in> set (drop k' (retry_ids ?adv))" for i
    proof -
      have "i \<notin> set ?b" "i \<in> set (drop k ?ids)" using that dd split by auto
      then show ?thesis using hist [of i] k by (simp add: retry_ok_def)
    qed
    show "\<exists>s. ?h i = [Failed, s]" if "i \<in> set (take k' (retry_ids ?adv))" for i
    proof (cases "i \<in> set ?b")
      case False
      then have "i \<in> set (take k ?ids)" using that tk by simp
      then show ?thesis using hist [of i] k False by (simp add: retry_ok_def)
    qed (use hist [of i] in simp)
    show "length (?h i) \<le> 1" if "i \<notin> set (retry_ids ?adv)" for i
    proof -
      have "i \<notin> set ?b" using that bd set_drop_subset [of k ?ids] by auto
      then show ?thesis using hist [of i] k that by (simp add: retry_ok_def)
    qed
  qed (use k le adv in \<open>simp_all add: retry_ok_def\<close>)
  moreover have "?h i \<noteq> [] \<longleftrightarrow> i \<in> set (take n ?xs)" for i
    using hist [of i] row bx k by (auto simp: row_ok.simps retry_ok_def split: if_splits)
  moreover have "fst ` set (shiftFrom ?r') \<subseteq> set (take (n + length (firstBatch snapshot n)) ?xs)"
  proof -
    have "fst ` set (shiftFrom ?r') \<subseteq> fst ` set (shiftFrom (withShiftOrigins t c snapshot r ?b))"
      using pruneShiftOrigins_shift(2) [of snapshot "mergeBulkOutcomes ?r ?os"] by (simp add: r')
    also have "\<dots> \<subseteq> set ?xs"
      using row k bx by (intro withShiftOrigins_within) (simp_all add: row_ok.simps retry_ok_def)
    finally show ?thesis using k by (simp add: retry_ok_def)
  qed
  ultimately show ?thesis using row c retry' by (auto simp: row_ok.simps)
qed

lemma row_ok_step:
  assumes "bulk_step t snapshot s s'" and "row_ok snapshot s" and "distinct (assetIds snapshot)"
  shows "row_ok snapshot s'"
  using assms(1)
proof cases
  case claim
  with assms(2) show ?thesis by (simp add: row_ok_claim)
next
  case first_mark
  with assms(2) show ?thesis by (simp add: row_ok_first_mark)
next
  case first_batch
  with assms(2,3) show ?thesis using row_ok_first_batch by metis
next
  case plan_retry
  with assms(2,3) show ?thesis using row_ok_plan by metis
next
  case retry_mark
  with assms(2) show ?thesis by (simp add: row_ok_retry_mark)
next
  case retry_batch
  with assms(2) show ?thesis by (simp add: row_ok_retry_batch)
qed

lemma row_ok_steps:
  "bulk_steps t snapshot s s' \<Longrightarrow> row_ok snapshot s \<Longrightarrow> distinct (assetIds snapshot) \<Longrightarrow> row_ok snapshot s'"
  by (induction rule: rtranclp_induct) (auto intro: row_ok_step)

subsection \<open>What a retry covers\<close>

lemma resume_iff:
  assumes "row_ok snapshot (r, n, h)"
  shows "i \<in> set (bulkResumeIds snapshot r (int n)) \<longleftrightarrow>
    i \<in> set (failedIds r) \<or> i \<in> set (drop n (assetIds snapshot)) \<or> i \<in> set (bulkRetryPending r)"
proof -
  have n: "nat (max 0 (min (int n) (int (length (assetIds snapshot))))) = n"
    using assms by (simp add: row_ok.simps)
  have "set (failedIds r) \<union> set (bulkRetryPending r) \<subseteq> set (assetIds snapshot)"
    using assms by (auto simp: row_ok.simps core_def failedIds_def answered_with_def)
  moreover have "set (drop n (assetIds snapshot)) \<subseteq> set (assetIds snapshot)" by (rule set_drop_subset)
  ultimately show ?thesis unfolding bulkResumeIds_def Let_def n by auto
qed

lemma resume_shrinks:
  assumes "bulk_step t snapshot (r, n, h) (r', n', h')" and "row_ok snapshot (r, n, h)" and "distinct (assetIds snapshot)"
  shows "set (bulkResumeIds snapshot r' (int n')) \<subseteq> set (bulkResumeIds snapshot r (int n))"
proof -
  have row': "row_ok snapshot (r', n', h')" by (rule row_ok_step [OF assms])
  from assms(1) have "set (failedIds r') \<union> set (drop n' (assetIds snapshot)) \<union> set (bulkRetryPending r') \<subseteq>
      set (failedIds r) \<union> set (drop n (assetIds snapshot)) \<union> set (bulkRetryPending r)"
  proof cases
    case claim
    then show ?thesis by (auto simp: withoutInFlight_def failedIds_def bulkRetryPending_def split: option.splits)
  next
    case (first_mark current)
    then show ?thesis
      using failedIds_cong [of r' r] bulkRetryPending_cong [of r' r] by (simp add: firstPassMark_def Let_def)
  next
    case (first_batch current answered)
    let ?b = "firstBatch snapshot n"
    let ?r = "(withShiftOrigins t current snapshot r ?b)\<lparr>inFlight := None\<rparr>"
    have r': "r' = pruneShiftOrigins snapshot (mergeBulkOutcomes ?r (inBatchOrder ?b answered))"
      and n': "n \<le> n'" using first_batch by (auto simp: firstPassStep_def Let_def)
    have "set (failedIds r') \<subseteq> set (failedIds r) \<union> set ?b"
      using failedIds_merge [of ?r "inBatchOrder ?b answered"] failedIds_cong [of ?r r]
        failedIds_cong [of r' "mergeBulkOutcomes ?r (inBatchOrder ?b answered)"] by (simp add: r')
    moreover have "set ?b \<subseteq> set (drop n (assetIds snapshot))"
      using firstBatch_slice [of snapshot n] set_slice by metis
    moreover have "set (drop n' (assetIds snapshot)) \<subseteq> set (drop n (assetIds snapshot))"
      by (rule set_drop_subset_set_drop [OF n'])
    moreover have "bulkRetryPending r' = bulkRetryPending r" by (rule bulkRetryPending_cong) (simp add: r')
    ultimately show ?thesis by auto
  next
    case plan_retry
    have "retry r = None" using plan_retry by (simp add: planBulkRetryPass_def split: if_splits)
    then have "core snapshot h {} r" using assms(2) by (simp add: row_ok.simps bulkRetryPending_def)
    note pl = core_plan [OF this plan_retry(4) assms(3)]
    then have "set (bulkRetryPending r') \<subseteq> set (failedIds r)" by (auto simp: bulkRetryPending_def)
    with pl(4) plan_retry show ?thesis by auto
  next
    case (retry_mark pass current)
    then have "bulkRetryPending r' = bulkRetryPending r" by (simp add: bulkRetryPending_def retryPassMark_def Let_def)
    with retry_mark show ?thesis using failedIds_cong [of r' r] by (simp add: retryPassMark_def Let_def)
  next
    case (retry_batch pass current answered)
    let ?b = "retryBatch snapshot pass"
    let ?adv = "pass\<lparr>retry_processed := retry_processed pass + of_nat (length ?b), retry_inFlight := None\<rparr>"
    let ?r = "(withShiftOrigins t current snapshot r ?b)\<lparr>retry := Some ?adv\<rparr>"
    obtain k where k: "retry_processed pass = of_nat k" using assms(2) retry_batch by (auto simp: row_ok.simps retry_ok_def)
    have r': "r' = pruneShiftOrigins snapshot (mergeBulkOutcomes ?r (inBatchOrder ?b answered))"
      using retry_batch by (simp add: retryPassStep_def Let_def)
    have "set (failedIds r') \<subseteq> set (failedIds r) \<union> set ?b"
      using failedIds_merge [of ?r "inBatchOrder ?b answered"] failedIds_cong [of ?r r]
        failedIds_cong [of r' "mergeBulkOutcomes ?r (inBatchOrder ?b answered)"] by (simp add: r')
    moreover have pend: "set (bulkRetryPending r) = set (drop k (retry_ids pass))"
      using retry_batch k by (simp add: bulkRetryPending_def)
    moreover have "set ?b \<subseteq> set (drop k (retry_ids pass))"
      using retryBatch_slice [of snapshot pass] set_slice k by (metis floor_of_nat nat_int)
    moreover have "bulkRetryPending r' = drop (k + length ?b) (retry_ids pass)"
      by (simp add: bulkRetryPending_def r' k flip: of_nat_add)
    then have "set (bulkRetryPending r') \<subseteq> set (drop k (retry_ids pass))"
      by (simp add: set_drop_subset_set_drop)
    ultimately show ?thesis using retry_batch by auto
  qed
  then show ?thesis using resume_iff [OF assms(2)] resume_iff [OF row'] by auto
qed

lemma shift_kept:
  assumes step: "bulk_step t snapshot (r, n, h) (r', n', h')" and row: "row_ok snapshot (r, n, h)"
    and dist: "distinct (assetIds snapshot)" and v: "map_of (shiftFrom r) i = Some v"
    and again: "i \<in> set (bulkResumeIds snapshot r' (int n'))"
  shows "map_of (shiftFrom r') i = Some v"
  using step
proof cases
  case claim
  then show ?thesis using v by (simp add: withoutInFlight_def)
next
  case first_mark
  then show ?thesis using withShiftOrigins_shift(1) [OF v] by (simp add: firstPassMark_def Let_def)
next
  case (first_batch current answered)
  let ?b = "firstBatch snapshot n"
  let ?m = "mergeBulkOutcomes ((withShiftOrigins t current snapshot r ?b)\<lparr>inFlight := None\<rparr>) (inBatchOrder ?b answered)"
  have r': "r' = pruneShiftOrigins snapshot ?m" and n': "n' = n + length ?b"
    using first_batch by (simp_all add: firstPassStep_def Let_def)
  have "i \<in> fst ` set (shiftFrom r)" using v by (metis domI dom_map_of_conv_image_fst)
  then have "i \<in> set (take n' (assetIds snapshot))" using row by (auto simp: row_ok.simps n')
  then have "i \<notin> set (drop n' (assetIds snapshot))"
    using set_take_disj_set_drop_if_distinct [OF dist order_refl [of n']] by blast
  then have "i \<in> set (failedIds r') \<union> set (bulkRetryPending r')"
    using again resume_iff [OF row_ok_step [OF step row dist]] by blast
  then have "i \<in> set (failedIds ?m) \<union> set (bulkRetryPending ?m)"
    using failedIds_cong [of r' ?m] bulkRetryPending_cong [of r' ?m] by (simp add: r')
  moreover have "map_of (shiftFrom ?m) i = Some v" using withShiftOrigins_shift(1) [OF v] by simp
  ultimately show ?thesis unfolding r' by (intro pruneShiftOrigins_shift(1))
next
  case plan_retry
  then show ?thesis using v by (auto simp: planBulkRetryPass_def Let_def split: if_splits)
next
  case retry_mark
  then show ?thesis using withShiftOrigins_shift(1) [OF v] by (simp add: retryPassMark_def Let_def)
next
  case (retry_batch pass current answered)
  let ?b = "retryBatch snapshot pass"
  let ?m = "mergeBulkOutcomes ((withShiftOrigins t current snapshot r ?b)\<lparr>retry := Some (pass\<lparr>retry_processed :=
      retry_processed pass + of_nat (length ?b), retry_inFlight := None\<rparr>)\<rparr>) (inBatchOrder ?b answered)"
  have r': "r' = pruneShiftOrigins snapshot ?m" using retry_batch by (simp add: retryPassStep_def Let_def)
  have "i \<notin> set (drop n' (assetIds snapshot))" using retry_batch by simp
  then have "i \<in> set (failedIds r') \<union> set (bulkRetryPending r')"
    using again resume_iff [OF row_ok_step [OF step row dist]] by blast
  then have "i \<in> set (failedIds ?m) \<union> set (bulkRetryPending ?m)"
    using failedIds_cong [of r' ?m] bulkRetryPending_cong [of r' ?m] by (simp add: r')
  moreover have "map_of (shiftFrom ?m) i = Some v" using withShiftOrigins_shift(1) [OF v] by simp
  ultimately show ?thesis unfolding r' by (intro pruneShiftOrigins_shift(1))
qed

subsection \<open>The passes end\<close>







subsection \<open>A job of two photos whose dates are shifted, one of them refused\<close>

definition exampleJson :: json where
  "exampleJson = JObj [(''action'', JStr ''change-date''), (''assetIds'', JArr [JStr ''a'', JStr ''b'', JStr ''a'']),
     (''payload'', JObj [(''dateMode'', JStr ''shift''), (''minutes'', JNum 5)])]"

definition exampleSnapshot :: bulkOperationSnapshot where
  "exampleSnapshot =
     \<lparr>action = ChangeDate, assetIds = [''a'', ''b''],
      payload = JObj [(''dateMode'', JStr ''shift''), (''minutes'', JNum 5)],
      submittedTotal = None, truncated = False, snapshot_scope = None, requestId = None, apiKeyId = None,
      snapshot_elevated = False\<rparr>"

definition exampleCurrent :: "string \<rightharpoonup> string option" where
  "exampleCurrent = [''a'' \<mapsto> Some ''t1'', ''b'' \<mapsto> Some ''t2'']"

definition exampleAnswers :: "bulkOperationItem list" where
  "exampleAnswers = [refused ''b'' (ThrownText ''busy''), ok_item ''a'']"

definition exampleResult :: bulkOperationResult where
  "exampleResult =
     \<lparr>requested = 2, succeeded = 1, failed = 1, skipped = 0, items = [refused ''b'' (ThrownText ''busy'')],
      itemsTruncated = False, inFlight = None, retry = None, shiftFrom = [(''b'', Some ''t2'')]\<rparr>"

definition exampleHistory :: "string \<Rightarrow> itemStatus list" where
  "exampleHistory = (\<lambda>_. [])(''a'' := [Ok], ''b'' := [Failed])"

lemma example_parsed: "parseBulkSnapshot exampleJson = Inr exampleSnapshot"
  by (simp add: exampleJson_def exampleSnapshot_def parseBulkSnapshot_def isBulkAction_def BULK_ACTIONS_def uniq_def)

lemma example_batch: "firstBatch exampleSnapshot 0 = [''a'', ''b'']"
  by (simp add: firstBatch_def exampleSnapshot_def wholeAction_def bulkBatchLength_def bulkGroupIndex_def
      isDuplicateDecisionAction_def batchSizeOf_def isMediaHealthBulkAction_def MEDIA_HEALTH_BULK_ACTIONS_def
      BULK_BATCH_SIZE_def slice_def)

lemma example_order:
  "inBatchOrder [''a'', ''b''] exampleAnswers = [ok_item ''a'', refused ''b'' (ThrownText ''busy'')]"
  by (simp add: inBatchOrder_def exampleAnswers_def ok_item_def refused_def)

lemma example_refused: "item_status (refused ''b'' (ThrownText ''busy'')) = Failed" "item_id (refused ''b'' e) = ''b''"
  by (simp_all add: refused_def classifyBulkError_def startsWith_def ACCESS_DENIED_PREFIX_def)

lemma example_step:
  "firstPassStep (\<lambda>d. d) exampleCurrent exampleSnapshot (emptyBulkResult 2) 0 exampleAnswers = (exampleResult, 2)"
  unfolding firstPassStep_def Let_def example_batch example_order
  by (simp add: withShiftOrigins_def recordShiftOrigins_def recordShiftOrigin_def isRelativeDateShift_def
      exampleSnapshot_def emptyBulkResult_def exampleCurrent_def mergeBulkOutcomes_def mergeOutcome_def
      example_refused ok_item_def pruneShiftOrigins_def failedIds_def bulkRetryPending_def exampleResult_def
      BULK_RECORDED_ITEM_LIMIT_def)

lemma example_reached:
  "bulk_steps (\<lambda>d. d) exampleSnapshot (freshRow exampleSnapshot) (exampleResult, 2, exampleHistory)"
proof -
  have "bulk_step (\<lambda>d. d) exampleSnapshot (emptyBulkResult 2, 0, \<lambda>_. [])
      (exampleResult, 2, foldl logOutcome (\<lambda>_. []) (inBatchOrder (firstBatch exampleSnapshot 0) exampleAnswers))"
    by (rule bulk_step.first_batch [OF _ example_step]) (simp add: exampleSnapshot_def)
  moreover have "foldl logOutcome (\<lambda>_. []) (inBatchOrder (firstBatch exampleSnapshot 0) exampleAnswers) = exampleHistory"
    unfolding example_batch example_order
    by (rule ext) (simp add: logOutcome_def example_refused ok_item_def exampleHistory_def)
  moreover have "freshRow exampleSnapshot = (emptyBulkResult 2, 0, \<lambda>_. [])"
    by (simp add: freshRow_def exampleSnapshot_def)
  ultimately show ?thesis by (simp add: r_into_rtranclp)
qed

section \<open>Properties\<close>

text \<open>
  C2. The counts of a bulk job are exact at every moment. However its worker is interrupted, the row's
  successes, skips and failures (with the items waiting for their second attempt) are the numbers of
  items whose last answer was that, together they are the cursor, and no more than the bounded number of
  items is recorded.
\<close>

theorem bulk_counts_exact:
  assumes "parseBulkSnapshot j = Inr snapshot" and "bulk_steps toISO snapshot (freshRow snapshot) (r, n, h)"
  shows "succeeded r = of_nat (card {i \<in> set (assetIds snapshot). h i \<noteq> [] \<and> last (h i) = Ok}) \<and>
    skipped r = of_nat (card {i \<in> set (assetIds snapshot). h i \<noteq> [] \<and> last (h i) = Skipped}) \<and>
    failed r + of_nat (card (set (bulkRetryPending r))) =
      of_nat (card {i \<in> set (assetIds snapshot). h i \<noteq> [] \<and> last (h i) = Failed}) \<and>
    bulkProcessedCount r + of_nat (card (set (bulkRetryPending r))) = of_nat n \<and>
    n \<le> length (assetIds snapshot) \<and> length (items r) \<le> BULK_RECORDED_ITEM_LIMIT"
proof -
  note d = snapshot_parsed(1) [OF assms(1)]
  have row: "row_ok snapshot (r, n, h)" by (rule row_ok_steps [OF assms(2) row_ok_fresh d])
  let ?A = "answered_with snapshot h"
  have "?A Ok \<union> ?A Skipped \<union> ?A Failed = set (take n (assetIds snapshot))"
    using row set_take_subset [of n "assetIds snapshot"] itemStatus.exhaust
    by (auto simp: row_ok.simps answered_with_def)
  moreover have "?A Ok \<inter> ?A Skipped = {}" "(?A Ok \<union> ?A Skipped) \<inter> ?A Failed = {}"
    by (auto simp: answered_with_def)
  ultimately have "card (?A Ok) + card (?A Skipped) + card (?A Failed) = card (set (take n (assetIds snapshot)))"
    by (metis card_Un_disjoint finite_Un finite_answered)
  also have "\<dots> = n" using d row by (simp add: distinct_card row_ok.simps)
  finally have "of_nat (card (?A Ok)) + of_nat (card (?A Skipped)) + of_nat (card (?A Failed)) = (of_nat n :: rat)"
    by (metis of_nat_add)
  moreover have core: "core snapshot h (set (bulkRetryPending r)) r" using row by (simp add: row_ok.simps)
  ultimately show ?thesis using row
    unfolding core_def bulkProcessedCount_def row_ok.simps answered_with_def by (auto simp: algebra_simps)
qed

theorem bulk_counts_exact_witness:
  "bulkProcessedCount exampleResult + of_nat (card (set (bulkRetryPending exampleResult))) = of_nat 2"
  using bulk_counts_exact [OF example_parsed example_reached] by blast

text \<open>
  C1. A retry of a job covers what is not done and nothing else. In every reachable row, an item whose last
  answer was a success or a skip is never run again; and unless the list of refusals was cut short, which
  the row says, every item that was never reached or failed is covered, in the frozen order.
\<close>

theorem bulk_resume_exact:
  assumes "parseBulkSnapshot j = Inr snapshot" and "bulk_steps toISO snapshot (freshRow snapshot) (r, n, h)"
  shows "set (bulkResumeIds snapshot r (int n)) \<subseteq> {i \<in> set (assetIds snapshot). h i = [] \<or> last (h i) = Failed} \<and>
    (if itemsTruncated r then True
     else bulkResumeIds snapshot r (int n) = filter (\<lambda>i. h i = [] \<or> last (h i) = Failed) (assetIds snapshot))"
proof -
  note d = snapshot_parsed(1) [OF assms(1)]
  have row: "row_ok snapshot (r, n, h)" by (rule row_ok_steps [OF assms(2) row_ok_fresh d])
  then have core: "core snapshot h (set (bulkRetryPending r)) r"
    and ne: "\<And>i. h i \<noteq> [] \<longleftrightarrow> i \<in> set (take n (assetIds snapshot))" by (auto simp: row_ok.simps)
  have disj: "set (take n (assetIds snapshot)) \<inter> set (drop n (assetIds snapshot)) = {}"
    by (rule set_take_disj_set_drop_if_distinct [OF d order_refl])
  have failed: "i \<in> answered_with snapshot h Failed" if "i \<in> set (failedIds r) \<or> i \<in> set (bulkRetryPending r)" for i
    using that core by (auto simp: core_def failedIds_def)
  have only: "h i = [] \<or> last (h i) = Failed" if "i \<in> set (bulkResumeIds snapshot r (int n))" for i
    using that failed [of i] ne [of i] disj unfolding resume_iff [OF row] by (auto simp: answered_with_def)
  have covered: "i \<in> set (bulkResumeIds snapshot r (int n))"
    if "\<not> itemsTruncated r" "i \<in> set (assetIds snapshot)" "h i = [] \<or> last (h i) = Failed" for i
  proof (cases "h i = []")
    case True
    then have "i \<in> set (drop n (assetIds snapshot))"
      using that(2) ne [of i] by (metis Un_iff append_take_drop_id set_append)
    then show ?thesis by (simp add: resume_iff [OF row])
  next
    case False
    with that have A: "i \<in> answered_with snapshot h Failed" by (simp add: answered_with_def)
    show ?thesis
    proof (cases "i \<in> set (bulkRetryPending r)")
      case False
      then have "i \<in> item_id ` set (items r)" using core A that(1) unfolding core_def by blast
      then obtain it where it: "it \<in> set (items r)" "i = item_id it" by blast
      then have "i \<in> answered_with snapshot h (item_status it)" using core by (auto simp: core_def)
      with A have "item_status it = Failed" by (simp add: answered_with_def)
      with it show ?thesis unfolding resume_iff [OF row] failedIds_def by auto
    qed (simp add: resume_iff [OF row])
  qed
  have exact: "bulkResumeIds snapshot r (int n) = filter (\<lambda>i. h i = [] \<or> last (h i) = Failed) (assetIds snapshot)"
    if t: "\<not> itemsTruncated r"
  proof -
    obtain P where P: "bulkResumeIds snapshot r (int n) = filter P (assetIds snapshot)"
      by (simp add: bulkResumeIds_def Let_def)
    have "P i \<longleftrightarrow> h i = [] \<or> last (h i) = Failed" if "i \<in> set (assetIds snapshot)" for i
    proof -
      have "i \<in> set (bulkResumeIds snapshot r (int n)) \<longleftrightarrow> P i" unfolding P using that by simp
      then show ?thesis using only [of i] covered [OF t that] by blast
    qed
    then show ?thesis unfolding P by (intro filter_cong refl)
  qed
  have "set (bulkResumeIds snapshot r (int n)) \<subseteq> set (assetIds snapshot)"
    by (auto simp: bulkResumeIds_def Let_def)
  then have "set (bulkResumeIds snapshot r (int n)) \<subseteq> {i \<in> set (assetIds snapshot). h i = [] \<or> last (h i) = Failed}"
    using only by blast
  then show ?thesis using exact by (cases "itemsTruncated r") simp_all
qed

theorem bulk_resume_exact_witness:
  "bulkResumeIds exampleSnapshot exampleResult (int 2) = [''b'']"
proof -
  have "bulkResumeIds exampleSnapshot exampleResult (int 2) =
      filter (\<lambda>i. exampleHistory i = [] \<or> last (exampleHistory i) = Failed) (assetIds exampleSnapshot)"
    using bulk_resume_exact [OF example_parsed example_reached] by (simp add: exampleResult_def)
  also have "\<dots> = [''b'']" by (simp add: exampleHistory_def exampleSnapshot_def)
  finally show ?thesis .
qed



text \<open>
  A relative date shift starts from one date. Once the capture date an item had before the shift is
  recorded, then for as long as the item may still be applied again by this job or a retry of it, the
  recorded date is the same one, through crashes, retries and every later batch.
\<close>

theorem shift_origin_stable:
  assumes "parseBulkSnapshot j = Inr snapshot" and "bulk_steps toISO snapshot (freshRow snapshot) (r, n, h)"
    and "map_of (shiftFrom r) i = Some v" and "bulk_steps toISO snapshot (r, n, h) (r', n', h')"
    and "i \<in> set (bulkResumeIds snapshot r' (int n'))"
  shows "map_of (shiftFrom r') i = Some v"
proof -
  note d = snapshot_parsed(1) [OF assms(1)]
  have row: "row_ok snapshot (r, n, h)" by (rule row_ok_steps [OF assms(2) row_ok_fresh d])
  from assms(4) have "i \<in> set (bulkResumeIds snapshot r' (int n')) \<longrightarrow> map_of (shiftFrom r') i = Some v"
  proof (induction "(r', n', h')" arbitrary: r' n' h' rule: rtranclp_induct)
    case base
    then show ?case using assms(3) by simp
  next
    case (step s)
    obtain r1 n1 h1 where s: "s = (r1, n1, h1)" by (cases s)
    have row1: "row_ok snapshot (r1, n1, h1)" using row_ok_steps [OF step.hyps(1) row d] by (simp add: s)
    have "map_of (shiftFrom r') i = Some v" if again: "i \<in> set (bulkResumeIds snapshot r' (int n'))"
    proof -
      have "i \<in> set (bulkResumeIds snapshot r1 (int n1))"
        using resume_shrinks [OF step.hyps(2) [unfolded s] row1 d] again by blast
      then have "map_of (shiftFrom r1) i = Some v" using step.hyps(3) s by simp
      then show ?thesis by (rule shift_kept [OF step.hyps(2) [unfolded s] row1 d _ again])
    qed
    then show ?case by simp
  qed
  with assms(5) show ?thesis by simp
qed

theorem shift_origin_stable_witness:
  "map_of (shiftFrom (withoutInFlight exampleResult)) ''b'' = Some (Some ''t2'')"
proof (rule shift_origin_stable [OF example_parsed example_reached])
  show "bulk_steps (\<lambda>d. d) exampleSnapshot (exampleResult, 2, exampleHistory)
      (withoutInFlight exampleResult, 2, exampleHistory)"
    by (intro r_into_rtranclp bulk_step.claim)
  show "map_of (shiftFrom exampleResult) ''b'' = Some (Some ''t2'')" by (simp add: exampleResult_def)
  show "''b'' \<in> set (bulkResumeIds exampleSnapshot (withoutInFlight exampleResult) (int 2))"
    by (simp add: bulkResumeIds_def Let_def failedIds_def exampleResult_def exampleSnapshot_def example_refused
        withoutInFlight_def)
qed



subsection \<open>Batches, permissions and payloads\<close>

lemma chunkLoop_concat: "0 < width \<Longrightarrow> concat (chunkLoop ids width) = ids"
proof (induction ids width rule: chunkLoop.induct)
  case (1 ids width)
  then show ?case by (subst chunkLoop.simps) auto
qed

lemma chunkLoop_sizes:
  "b \<in> set (chunkLoop ids width) \<Longrightarrow> b \<noteq> [] \<and> length b \<le> width"
proof (induction ids width rule: chunkLoop.induct)
  case (1 ids width)
  then show ?case by (subst (asm) (2) chunkLoop.simps) (auto split: if_splits)
qed

lemma chunkLoop_full: "Suc k < length (chunkLoop ids width) \<Longrightarrow> length (chunkLoop ids width ! k) = width"
proof (induction ids width arbitrary: k rule: chunkLoop.induct)
  case (1 ids width)
  from "1.prems" have ne: "\<not> (ids = [] \<or> width = 0)" by (subst (asm) chunkLoop.simps) (auto split: if_splits)
  then have unfold: "chunkLoop ids width = take width ids # chunkLoop (drop width ids) width"
    by (subst chunkLoop.simps) simp
  show ?case
  proof (cases k)
    case 0
    with "1.prems" have "chunkLoop (drop width ids) width \<noteq> []" unfolding unfold by auto
    then have "drop width ids \<noteq> []" by (subst (asm) chunkLoop.simps) (auto split: if_splits)
    then show ?thesis unfolding unfold 0 by simp
  next
    case (Suc j)
    then show ?thesis using "1.IH" [OF ne, of j] "1.prems" unfolding unfold by simp
  qed
qed

text \<open>
  Cutting a list of ids into batches loses, repeats and reorders nothing: for any batch size, a wrong
  one included, the batches put together are the list, none is empty, and all but the last have the
  same length, the size asked for when it is a positive whole number and the default otherwise.
\<close>

theorem chunkIds_partition:
  "concat (chunkIds ids batchSize) = ids \<and> (\<forall>b \<in> set (chunkIds ids batchSize). b \<noteq> []) \<and>
   (\<exists>width > 0. (\<forall>b \<in> set (chunkIds ids batchSize). length b \<le> width) \<and>
      (\<forall>k. Suc k < length (chunkIds ids batchSize) \<longrightarrow> length (chunkIds ids batchSize ! k) = width) \<and>
      (width = BULK_BATCH_SIZE \<or> of_nat width = batchSize))"
proof -
  define width where "width = (case safeIntegerOf batchSize of
      Some n \<Rightarrow> if n > 0 then nat n else BULK_BATCH_SIZE | None \<Rightarrow> BULK_BATCH_SIZE)"
  have chunks: "chunkIds ids batchSize = chunkLoop ids width" by (simp add: chunkIds_def width_def)
  have pos: "0 < width" by (simp add: width_def BULK_BATCH_SIZE_def split: option.split)
  have "of_int n = batchSize" if "safeIntegerOf batchSize = Some n" for n
    using that by (simp add: safeIntegerOf_def split: if_splits)
  then have "width = BULK_BATCH_SIZE \<or> of_nat width = batchSize"
    by (auto simp: width_def split: option.split)
  moreover have "\<forall>b \<in> set (chunkLoop ids width). b \<noteq> []" "\<forall>b \<in> set (chunkLoop ids width). length b \<le> width"
    using chunkLoop_sizes by metis+
  moreover have "\<forall>k. Suc k < length (chunkLoop ids width) \<longrightarrow> length (chunkLoop ids width ! k) = width"
    using chunkLoop_full by metis
  ultimately show ?thesis unfolding chunks
    by (intro conjI exI [of _ width] pos chunkLoop_concat [OF pos])
qed

theorem chunkIds_partition_witness:
  "concat (chunkIds [''a'', ''b'', ''c''] (1/2)) = [''a'', ''b'', ''c'']"
  using chunkIds_partition by blast

text \<open>
  A scoped key can do no more than it was granted. The permission checked against each item of a job
  is one of those the key had to grant to submit it, every action that writes the bulk asset update is
  checked against each item, and no action a job can carry writes the Locked visibility.
\<close>

theorem bulk_permissions_consistent:
  "(case BULK_ITEM_PERMISSION a of None \<Rightarrow> True | Some p \<Rightarrow> p \<in> set (BULK_ACTION_PERMISSIONS a)) \<and>
   BULK_ACTION_PERMISSIONS a \<noteq> [] \<and>
   (bulkAssetUpdate a p = None \<or> BULK_ITEM_PERMISSION a = Some AssetUpdate) \<and>
   (case bulkAssetUpdate a p of None \<Rightarrow> True | Some kvs \<Rightarrow> (''visibility'', JStr ''locked'') \<notin> set kvs)"
proof (intro conjI)
  show "case BULK_ITEM_PERMISSION a of None \<Rightarrow> True | Some p \<Rightarrow> p \<in> set (BULK_ACTION_PERMISSIONS a)"
    by (cases a) simp_all
  show "BULK_ACTION_PERMISSIONS a \<noteq> []" by (cases a) simp_all
  show "bulkAssetUpdate a p = None \<or> BULK_ITEM_PERMISSION a = Some AssetUpdate"
    by (cases a) (simp_all add: bulkAssetUpdate_def)
  show "case bulkAssetUpdate a p of None \<Rightarrow> True | Some kvs \<Rightarrow> (''visibility'', JStr ''locked'') \<notin> set kvs"
    by (cases a) (simp_all add: bulkAssetUpdate_def)
qed

text \<open>The entries of a payload that names one finding or pair per item name exactly the frozen set.\<close>

lemma names_exactly_set:
  assumes "names_exactly named ids"
  shows "set named = JStr ` set ids"
proof -
  have "set (uniq named) \<subseteq> JStr ` set ids" and len: "length (uniq named) = length (uniq ids)"
    using assms by (auto simp: names_exactly_def list_all_iff)
  moreover have "card (set (uniq named)) = card (set (uniq ids))"
    using len distinct_card [OF distinct_uniq, of named] distinct_card [OF distinct_uniq, of ids] by simp
  moreover have "card (JStr ` set ids) = card (set ids)" by (rule card_image) (simp add: inj_on_def)
  ultimately have "set (uniq named) = JStr ` set ids"
    by (intro card_subset_eq) simp_all
  then show ?thesis by simp
qed

text \<open>
  The payload of an accepted job agrees with its frozen set. A relink of Live Photos has one pair for
  every selected still and for nothing else, with no video used twice and no item paired with itself; a
  duplicate job has groups whose members are the frozen set, group by group, each photo once.
\<close>

theorem accepted_payload_agrees:
  assumes "bulkPayloadProblem dateParse isTimeZone a p ids = None"
  shows "(a = RelinkLivePhoto \<longrightarrow>
      (let pairs = jarray (jget p ''pairs'')
       in set (map (\<lambda>e. jget e ''photoId'') pairs) = JStr ` set ids \<and>
          distinct (map (\<lambda>e. jget e ''photoId'') pairs) \<and> distinct (map (\<lambda>e. jget e ''videoId'') pairs) \<and>
          (\<forall>e \<in> set pairs. jget e ''photoId'' \<noteq> jget e ''videoId''))) \<and>
    (isDuplicateDecisionAction a \<longrightarrow>
      ids = duplicateGroupAssetIds (parseDuplicateGroups (jget p ''duplicateGroups'')) \<and> distinct ids) \<and>
    (isMediaHealthBulkAction a \<longrightarrow>
      set (map (\<lambda>e. jget e ''assetId'') (jarray (jget p ''mediaHealth''))) = JStr ` set ids)"
proof (intro conjI impI)
  assume a: "a = RelinkLivePhoto"
  let ?pairs = "jarray (jget p ''pairs'')"
  from assms have u: "length (uniq (map (\<lambda>e. jget e ''photoId'') ?pairs)) = length (map (\<lambda>e. jget e ''photoId'') ?pairs)"
      "length (uniq (map (\<lambda>e. jget e ''videoId'') ?pairs)) = length (map (\<lambda>e. jget e ''videoId'') ?pairs)"
    and rest: "\<not> list_ex (\<lambda>e. jget e ''photoId'' = jget e ''videoId'') ?pairs"
      "names_exactly (map (\<lambda>e. jget e ''photoId'') ?pairs) ids"
    by (simp_all add: bulkPayloadProblem_def a Let_def split: if_splits)
  show "let pairs = ?pairs
       in set (map (\<lambda>e. jget e ''photoId'') pairs) = JStr ` set ids \<and>
          distinct (map (\<lambda>e. jget e ''photoId'') pairs) \<and> distinct (map (\<lambda>e. jget e ''videoId'') pairs) \<and>
          (\<forall>e \<in> set pairs. jget e ''photoId'' \<noteq> jget e ''videoId'')"
    unfolding Let_def
  proof (intro conjI)
    show "set (map (\<lambda>e. jget e ''photoId'') ?pairs) = JStr ` set ids" by (rule names_exactly_set [OF rest(2)])
    show "distinct (map (\<lambda>e. jget e ''photoId'') ?pairs)" "distinct (map (\<lambda>e. jget e ''videoId'') ?pairs)"
      using u by (simp_all only: uniq_length_distinct)
    show "\<forall>e \<in> set ?pairs. jget e ''photoId'' \<noteq> jget e ''videoId''"
      using rest(1) by (simp only: list_ex_iff) blast
  qed
next
  assume a: "isDuplicateDecisionAction a"
  let ?groups = "parseDuplicateGroups (jget p ''duplicateGroups'')"
  from a assms have "\<exists>undo. duplicateDecisionProblem ?groups ids undo = None"
    by (auto simp: isDuplicateDecisionAction_def bulkPayloadProblem_def Let_def split: if_splits)
  then obtain undo where u: "duplicateDecisionProblem ?groups ids undo = None" by blast
  show "ids = duplicateGroupAssetIds ?groups" "distinct ids"
    using duplicateDecisionProblem_None(1,3) [OF u] by (simp_all add: duplicateGroupAssetIds_def)
next
  assume a: "isMediaHealthBulkAction a"
  then have "names_exactly (map (\<lambda>e. jget e ''assetId'') (jarray (jget p ''mediaHealth''))) ids"
    using assms by (auto simp: isMediaHealthBulkAction_def MEDIA_HEALTH_BULK_ACTIONS_def bulkPayloadProblem_def Let_def
        split: if_splits)
  then show "set (map (\<lambda>e. jget e ''assetId'') (jarray (jget p ''mediaHealth''))) = JStr ` set ids"
    by (rule names_exactly_set)
qed

definition examplePairs :: json where
  "examplePairs = JObj [(''pairs'', JArr [JObj [(''photoId'', JStr ''p''), (''videoId'', JStr ''v'')]])]"

theorem accepted_payload_agrees_witness:
  "set (map (\<lambda>e. jget e ''photoId'') (jarray (jget examplePairs ''pairs''))) = JStr ` set [''p'']"
proof -
  have "bulkPayloadProblem (\<lambda>_. None) (\<lambda>_. True) RelinkLivePhoto examplePairs [''p''] = None"
    by (simp add: bulkPayloadProblem_def examplePairs_def Let_def uniq_def names_exactly_def)
  from accepted_payload_agrees [OF this] show ?thesis by (simp add: Let_def)
qed

end
