(* ===== verification/RenderAdmission.thy ===== *)
theory RenderAdmission
  imports MediaOperation MimeTypes
begin

text \<open>
  Render worker admission: \<open>server/src/utils/render-admission.ts\<close>, with the export format table of
  \<open>server/src/utils/studio-export-formats.ts\<close>.

  Times are milliseconds; an invalid date is \<open>None\<close>. A limit of \<open>None\<close> is no ceiling, which is both the
  code's null and its \<open>Infinity\<close>. Settings, snapshots and output requests are JSON objects, as the code
  reads them. The HMAC, base64url and JSON codecs of an input grant are arguments, gathered in a
  record \<open>grantCodecs\<close>; \<open>codecs_ok\<close> states what the proofs use of them.

  The lemmas show what an admitted session, an admitted claim and an offered export have in common: a
  claim is admitted exactly when the worker, the session, the destination, the evidence, the memory and
  both concurrency limits allow it; an export that is offered is one some session can claim; and an
  input grant is good for one operation, one claim and one session until it expires.
\<close>

section \<open>Studio export formats\<close>

datatype formatKind = VideoFormat | AudioFormat | StillFormat

record studioExportFormatSpec =
  kind :: formatKind
  container :: string
  codec_name :: string
  contentType :: string
  extension :: string
  bitDepth :: nat
  writers :: "string list"
  combination :: bool
  textTrack :: "string option"

definition H264_writers :: "string list" where
  "H264_writers =
     [''webcodecs-avc'', ''libx264'', ''h264_nvenc'', ''h264_qsv'', ''h264_vaapi'',
      ''h264_videotoolbox'', ''h264_amf'', ''h264_rkmpp'', ''h264_v4l2m2m'']"

definition HEVC_writers :: "string list" where
  "HEVC_writers =
     [''libx265'', ''hevc_nvenc'', ''hevc_qsv'', ''hevc_vaapi'', ''hevc_videotoolbox'', ''hevc_amf'',
      ''hevc_rkmpp'', ''hevc_v4l2m2m'']"

definition AV1_writers :: "string list" where
  "AV1_writers =
     [''libsvtav1'', ''libaom-av1'', ''librav1e'', ''av1_nvenc'', ''av1_qsv'', ''av1_vaapi'', ''av1_amf'']"

definition VP8_writers :: "string list" where
  "VP8_writers =
     [''libvpx'', ''vp8_vaapi'', ''vp8_qsv'']"

definition VP9_writers :: "string list" where
  "VP9_writers =
     [''libvpx-vp9'', ''vp9_vaapi'', ''vp9_qsv'']"

definition PRORES_writers :: "string list" where
  "PRORES_writers =
     [''prores_ks'', ''prores'', ''prores_aw'', ''prores_videotoolbox'']"

record formatBox =
  box_container :: string
  box_contentType :: string
  box_extension :: string
  box_textTrack :: string

definition MP4_box :: formatBox where
  "MP4_box = \<lparr>box_container = ''mp4'', box_contentType = ''video/mp4'', box_extension = ''.mp4'', box_textTrack = ''mov_text''\<rparr>"

definition MOV_box :: formatBox where
  "MOV_box = \<lparr>box_container = ''mov'', box_contentType = ''video/quicktime'', box_extension = ''.mov'', box_textTrack = ''mov_text''\<rparr>"

definition MKV_box :: formatBox where
  "MKV_box = \<lparr>box_container = ''mkv'', box_contentType = ''video/x-matroska'', box_extension = ''.mkv'', box_textTrack = ''subrip''\<rparr>"

definition WEBM_box :: formatBox where
  "WEBM_box = \<lparr>box_container = ''webm'', box_contentType = ''video/webm'', box_extension = ''.webm'', box_textTrack = ''webvtt''\<rparr>"

definition video_format :: "formatBox \<Rightarrow> string \<Rightarrow> string list \<Rightarrow> nat \<Rightarrow> bool \<Rightarrow> studioExportFormatSpec" where
  "video_format box cname ws depth comb =
     \<lparr>kind = VideoFormat, container = box_container box, codec_name = cname, contentType = box_contentType box,
      extension = box_extension box, bitDepth = depth, writers = ws, combination = comb,
      textTrack = Some (box_textTrack box)\<rparr>"

definition audio_format :: "string \<Rightarrow> string \<Rightarrow> string \<Rightarrow> string \<Rightarrow> string list \<Rightarrow> studioExportFormatSpec" where
  "audio_format cont cname ct ext ws =
     \<lparr>kind = AudioFormat, container = cont, codec_name = cname, contentType = ct, extension = ext,
      bitDepth = 8, writers = ws, combination = True, textTrack = None\<rparr>"

definition still_format :: "string \<Rightarrow> string \<Rightarrow> string \<Rightarrow> string \<Rightarrow> studioExportFormatSpec" where
  "still_format cont writer ct ext =
     \<lparr>kind = StillFormat, container = cont, codec_name = cont, contentType = ct, extension = ext,
      bitDepth = 8, writers = [writer], combination = False, textTrack = None\<rparr>"

definition STUDIO_EXPORT_FORMAT_SPECS :: "(string \<times> studioExportFormatSpec) list" where
  "STUDIO_EXPORT_FORMAT_SPECS =
     [(''mp4-hevc-main10'', video_format MP4_box ''hevc'' HEVC_writers 10 False),
      (''mp4-h264'', video_format MP4_box ''h264'' H264_writers 8 False),
      (''webm-av1'', video_format WEBM_box ''av1'' AV1_writers 10 False),
      (''prores-422-hq'', video_format MOV_box ''prores'' PRORES_writers 10 False),
      (''sdr-jpeg'', still_format ''jpeg'' ''frameleaf-sdr-jpeg'' ''image/jpeg'' ''.jpg''),
      (''hdr-jpeg'', (still_format ''jpeg'' ''frameleaf-ultrahdr-jpeg'' ''image/jpeg'' ''.jpg'')\<lparr>bitDepth := 10\<rparr>),
      (''hdr-heic'', (still_format ''heic'' ''frameleaf-heic-pq'' ''image/heic'' ''.heic'')\<lparr>bitDepth := 10\<rparr>),
      (''mp4-hevc'', video_format MP4_box ''hevc'' HEVC_writers 8 True),
      (''mp4-av1'', video_format MP4_box ''av1'' AV1_writers 8 True),
      (''mov-h264'', video_format MOV_box ''h264'' H264_writers 8 True),
      (''mov-hevc'', video_format MOV_box ''hevc'' HEVC_writers 8 True),
      (''mov-prores-422'', video_format MOV_box ''prores'' PRORES_writers 8 True),
      (''mkv-h264'', video_format MKV_box ''h264'' H264_writers 8 True),
      (''mkv-hevc'', video_format MKV_box ''hevc'' HEVC_writers 8 True),
      (''mkv-vp8'', video_format MKV_box ''vp8'' VP8_writers 8 True),
      (''mkv-vp9'', video_format MKV_box ''vp9'' VP9_writers 8 True),
      (''mkv-av1'', video_format MKV_box ''av1'' AV1_writers 8 True),
      (''webm-vp8'', video_format WEBM_box ''vp8'' VP8_writers 8 True),
      (''webm-vp9'', video_format WEBM_box ''vp9'' VP9_writers 8 True),
      (''webm-av1-sdr'', video_format WEBM_box ''av1'' AV1_writers 8 True),
      (''audio-mp3'', audio_format ''mp3'' ''mp3'' ''audio/mpeg'' ''.mp3'' [''libmp3lame'']),
      (''audio-aac'', audio_format ''m4a'' ''aac'' ''audio/mp4'' ''.m4a'' [''aac'', ''libfdk_aac'', ''aac_at'']),
      (''audio-wav'', audio_format ''wav'' ''pcm_s16le'' ''audio/wav'' ''.wav'' [''pcm_s16le''])]"

definition studioExportFormatSpec_of :: "json \<Rightarrow> studioExportFormatSpec option" where
  "studioExportFormatSpec_of format =
     (case format of JStr f \<Rightarrow> map_of STUDIO_EXPORT_FORMAT_SPECS f | _ \<Rightarrow> None)"

definition isStudioVideoFormat :: "json \<Rightarrow> bool" where
  "isStudioVideoFormat format = (map_option kind (studioExportFormatSpec_of format) = Some VideoFormat)"

definition isStudioAudioFormat :: "json \<Rightarrow> bool" where
  "isStudioAudioFormat format = (map_option kind (studioExportFormatSpec_of format) = Some AudioFormat)"

definition AUDIO_RATES :: "string \<rightharpoonup> int list" where
  "AUDIO_RATES = map_of
     [(''mp3'', [8000, 11025, 12000, 16000, 22050, 24000, 32000, 44100, 48000]),
      (''aac'', [8000, 11025, 12000, 16000, 22050, 24000, 32000, 44100, 48000, 64000, 88200, 96000])]"

record exportAudio =
  audio_policy :: string
  channels :: "int option"
  sampleRate :: "int option"

datatype audioProblem = NoSound | TooManyChannels int | RateUnsupported string int

definition studioExportAudioProblem :: "string \<Rightarrow> exportAudio option \<Rightarrow> audioProblem option" where
  "studioExportAudioProblem format audio =
     (case studioExportFormatSpec_of (JStr format) of
        None \<Rightarrow> None
      | Some spec \<Rightarrow>
          if kind spec \<noteq> AudioFormat then None
          else case audio of
            None \<Rightarrow> Some NoSound
          | Some a \<Rightarrow>
              let ch = (if audio_policy a = ''stereo'' then Some 2 else channels a)
              in if codec_name spec = ''mp3'' \<and> ch \<noteq> None \<and> the ch > 2 then Some (TooManyChannels (the ch))
                 else (case (AUDIO_RATES (codec_name spec), sampleRate a) of
                         (Some rates, Some rate) \<Rightarrow>
                           if rate \<notin> set rates
                           then Some (RateUnsupported (if codec_name spec = ''mp3'' then ''MP3'' else ''AAC'') rate)
                           else None
                       | _ \<Rightarrow> None))"

section \<open>Limits\<close>

record renderLimits =
  maxConcurrentOperations :: "rat option"
  maxWallClockMs :: "rat option"
  maxOutputBytes :: "rat option"

fun tighter :: "rat option \<Rightarrow> rat option \<Rightarrow> rat option" where
  "tighter current None = current"
| "tighter None (Some c) = Some c"
| "tighter (Some m) (Some c) = Some (min m c)"

definition tightestLimits :: "renderLimits option list \<Rightarrow> renderLimits" where
  "tightestLimits sources =
     foldl (\<lambda>r s. case s of
              None \<Rightarrow> r
            | Some l \<Rightarrow> \<lparr>maxConcurrentOperations = tighter (maxConcurrentOperations r) (maxConcurrentOperations l),
                         maxWallClockMs = tighter (maxWallClockMs r) (maxWallClockMs l),
                         maxOutputBytes = tighter (maxOutputBytes r) (maxOutputBytes l)\<rparr>)
       \<lparr>maxConcurrentOperations = None, maxWallClockMs = None, maxOutputBytes = None\<rparr> sources"

section \<open>Admission\<close>

datatype renderWorkerRefusalReason =
    InvalidCredential | WorkerRevoked | SessionExpired | ConformanceStale | ConformanceReplayed
  | EngineDigestMismatch | SoftwareRenderer | DestinationMismatch | WorkerMismatch | ScopeExceeded
  | WorkerConcurrency | UserConcurrency | GpuMemoryInsufficient | WallClockExceeded
  | OutputBytesExceeded | DestinationUnavailable | ManifestIncomplete | CodecUnsupported

datatype mediaOperationDestination = Local | Lan | FrameleafCloud

datatype admissionDecision = ADMIT | Refuse renderWorkerRefusalReason

datatype healthState = Available | Unavailable | UnknownHealth

definition CLOCK_SKEW_MS :: int where
  "CLOCK_SKEW_MS = 5 * 60 * 1000"

record sessionWorker =
  sw_revoked :: bool
  sw_engineDigest :: "string option"
  sw_conformanceMaxAgeMs :: int
  sw_lastConformanceReportedAt :: "int option"

record sessionReport =
  sr_engineDigest :: string
  sr_conformanceReportedAt :: "int option"
  sr_softwareRenderer :: bool

text \<open>A nullable string that is falsy when absent or empty.\<close>

fun present :: "string option \<Rightarrow> bool" where
  "present None = False"
| "present (Some s) = (s \<noteq> [])"

definition evaluateSessionAdmission :: "sessionWorker \<Rightarrow> sessionReport \<Rightarrow> int \<Rightarrow> admissionDecision" where
  "evaluateSessionAdmission worker report now =
     (if sw_revoked worker then Refuse WorkerRevoked
      else case sr_conformanceReportedAt report of
        None \<Rightarrow> Refuse ConformanceStale
      | Some reportedAt \<Rightarrow>
          if reportedAt > now + CLOCK_SKEW_MS then Refuse ConformanceStale
          else if now - reportedAt > sw_conformanceMaxAgeMs worker then Refuse ConformanceStale
          else if (case sw_lastConformanceReportedAt worker of Some l \<Rightarrow> reportedAt \<le> l | None \<Rightarrow> False)
            then Refuse ConformanceReplayed
          else if present (sw_engineDigest worker) \<and> sw_engineDigest worker \<noteq> Some (sr_engineDigest report)
            then Refuse EngineDigestMismatch
          else if sr_softwareRenderer report then Refuse SoftwareRenderer
          else ADMIT)"

record renderWorker =
  worker_id :: string
  worker_name :: string
  worker_destination :: mediaOperationDestination
  worker_revoked :: bool
  worker_kinds :: "mediaOperationKind list"
  worker_activeOperations :: rat
  worker_limits :: renderLimits
  worker_engineDigest :: "string option"
  conformanceMaxAgeMs :: int

record renderSession =
  session_revoked :: bool
  expiresAt :: int
  session_scopes :: "mediaOperationKind list"
  session_gpuMemoryBytes :: "rat option"
  session_engineDigest :: "string option"
  conformanceReportedAt :: "int option"
  capabilities :: "(string list \<times> string list) option"

definition isQualifiedRenderSession :: "renderWorker \<Rightarrow> renderSession \<Rightarrow> int \<Rightarrow> bool" where
  "isQualifiedRenderSession worker session now =
     (if worker_revoked worker \<or> session_revoked session \<or> expiresAt session \<le> now then False
      else case conformanceReportedAt session of
        None \<Rightarrow> False
      | Some reportedAt \<Rightarrow>
          if reportedAt > now + CLOCK_SKEW_MS \<or> now - reportedAt > conformanceMaxAgeMs worker then False
          else if present (worker_engineDigest worker) \<and> worker_engineDigest worker \<noteq> session_engineDigest session
            then False
          else list_ex isRenderWorkerMediaOperationKind (session_scopes session))"

section \<open>What an output needs\<close>

definition LEGACY_SIDECAR_PROFILE :: string where
  "LEGACY_SIDECAR_PROFILE = ''mp4-h264+srt-sidecar-v1''"

definition LEGACY_EMBEDDED_PROFILE :: string where
  "LEGACY_EMBEDDED_PROFILE = ''mp4-h264+mov-text-v1''"

definition SIDECAR_PROFILE :: string where
  "SIDECAR_PROFILE = ''srt-sidecar-v2''"

definition EMBEDDED_PROFILE :: string where
  "EMBEDDED_PROFILE = ''embedded-text-v2''"

definition SDR_TEN_BIT_PROFILE :: string where
  "SDR_TEN_BIT_PROFILE = ''sdr-10bit-v1''"

definition REFRAME_PROFILE :: string where
  "REFRAME_PROFILE = ''reframe-v1''"

definition LANDSCAPE_REFRAME_PROFILE :: string where
  "LANDSCAPE_REFRAME_PROFILE = ''reframe-landscape-v1''"

definition isReframeShape :: "json \<Rightarrow> bool" where
  "isReframeShape shape = (shape \<in> set (map JStr [''landscape'', ''vertical'', ''square'']))"

record requiredOutput =
  out_format :: string
  out_codec :: "string list"
  out_container :: string
  out_profiles :: "string list option"
  out_subtitleCodec :: "string option"
  out_combination :: bool
  out_reframe :: bool
  out_landscapeReframe :: bool

definition plainOutput :: "string \<Rightarrow> string list \<Rightarrow> string \<Rightarrow> requiredOutput" where
  "plainOutput f c t =
     \<lparr>out_format = f, out_codec = c, out_container = t, out_profiles = None, out_subtitleCodec = None,
      out_combination = False, out_reframe = False, out_landscapeReframe = False\<rparr>"

definition impossible :: "json \<Rightarrow> requiredOutput" where
  "impossible format = plainOutput (case format of JStr f \<Rightarrow> f | _ \<Rightarrow> []) [] []"

definition jdefault :: "json \<Rightarrow> json \<Rightarrow> json" where
  "jdefault v d = (if v = JUndefined \<or> v = JNull then d else v)"

definition requiredFormatOutput :: "json \<Rightarrow> requiredOutput option" where
  "requiredFormatOutput settings =
     (let format = jget settings ''format''; mode = jget settings ''subtitleMode'';
          sidecar = (mode = JStr ''sidecar''); embedded = (mode = JStr ''embedded'')
      in if mode \<noteq> JUndefined \<and> mode \<noteq> JStr ''burn'' \<and> mode \<noteq> JStr ''off'' \<and> \<not> sidecar \<and> \<not> embedded
           then Some (impossible format)
         else case format of
           JStr f \<Rightarrow>
             if f = [] then (if sidecar \<or> embedded then Some (impossible format) else None)
             else (case studioExportFormatSpec_of format of
                None \<Rightarrow> Some (plainOutput f [] f)
              | Some spec \<Rightarrow>
                  if kind spec = AudioFormat \<and> mode \<noteq> JUndefined \<and> mode \<noteq> JStr ''off'' then Some (impossible format)
                  else
                    let base = (plainOutput f (writers spec) (container spec))\<lparr>out_combination := combination spec\<rparr>
                    in if \<not> sidecar \<and> \<not> embedded then Some base
                       else if kind spec \<noteq> VideoFormat \<or> bitDepth spec \<noteq> 8 \<or>
                           jget settings ''color'' \<noteq> JStr ''preserve'' \<or> (embedded \<and> textTrack spec = None)
                         then Some (impossible format)
                       else
                         let legacy = (f = ''mp4-h264'' \<and> jget settings ''resolution'' = JStr ''720p'' \<and>
                               jdefault (jget settings ''quality'') (JStr ''high'') = JStr ''high'' \<and>
                               jdefault (jget settings ''audio'') (JStr ''preserve'') = JStr ''preserve'')
                         in if sidecar
                            then Some (base\<lparr>out_profiles := Some (if legacy then [LEGACY_SIDECAR_PROFILE, SIDECAR_PROFILE]
                                                                  else [SIDECAR_PROFILE])\<rparr>)
                            else Some (base\<lparr>out_profiles := Some (if legacy then [LEGACY_EMBEDDED_PROFILE, EMBEDDED_PROFILE]
                                                                  else [EMBEDDED_PROFILE]),
                                            out_subtitleCodec := textTrack spec\<rparr>))
         | _ \<Rightarrow> if sidecar \<or> embedded then Some (impossible format) else None)"

definition requiredOutput_of :: "json \<Rightarrow> requiredOutput option" where
  "requiredOutput_of settings =
     (let shape = jget settings ''shape''
      in case requiredFormatOutput settings of
           None \<Rightarrow> None
         | Some out \<Rightarrow>
             if shape = JUndefined \<or> shape = JStr ''original'' then Some out
             else
               let spec = studioExportFormatSpec_of (JStr (out_format out))
               in if \<not> isReframeShape shape \<or>
                     \<not> (case spec of None \<Rightarrow> False | Some s \<Rightarrow> kind s = VideoFormat \<and> bitDepth s = 8) \<or>
                     jget settings ''color'' \<noteq> JStr ''preserve''
                  then Some (impossible (JStr (out_format out)))
                  else Some (out\<lparr>out_reframe := True, out_landscapeReframe := (shape = JStr ''landscape'')\<rparr>))"

definition provesOutput :: "(string list \<times> string list) option \<Rightarrow> requiredOutput \<Rightarrow> bool" where
  "provesOutput caps out =
     (case caps of
        None \<Rightarrow> False
      | Some (cs, fs) \<Rightarrow>
          if length (out_codec out) = 0 then False
          else
            let codecs = map toLowerCase cs; formats = map toLowerCase fs
            in list_ex (\<lambda>e. e \<in> set codecs) (out_codec out) \<and>
               (\<not> present (out_subtitleCodec out) \<or> the (out_subtitleCodec out) \<in> set codecs) \<and>
               out_container out \<in> set formats \<and>
               (\<not> out_combination out \<or> out_format out \<in> set fs) \<and>
               (case out_profiles out of None \<Rightarrow> True | Some ps \<Rightarrow> list_ex (\<lambda>q. q \<in> set fs) ps) \<and>
               (\<not> out_reframe out \<or> REFRAME_PROFILE \<in> set fs) \<and>
               (\<not> out_landscapeReframe out \<or> LANDSCAPE_REFRAME_PROFILE \<in> set fs))"

definition snapshotString :: "json \<Rightarrow> string \<Rightarrow> string option" where
  "snapshotString snapshot key =
     (case jget snapshot key of JStr v \<Rightarrow> if length v > 0 then Some v else None | _ \<Rightarrow> None)"

definition snapshotNumber :: "json \<Rightarrow> string \<Rightarrow> rat option" where
  "snapshotNumber snapshot key =
     (case jget snapshot key of
        JNum q \<Rightarrow> Some q
      | JStr v \<Rightarrow> if is_digits v then Some (of_nat (read_nat v)) else None
      | _ \<Rightarrow> None)"

definition RENDER_MEMORY_BY_RESOLUTION :: "string \<rightharpoonup> rat" where
  "RENDER_MEMORY_BY_RESOLUTION = map_of
     [(''720p'', 2 * 1024 ^ 3), (''1080p'', 4 * 1024 ^ 3), (''1440p'', 6 * 1024 ^ 3), (''2160p'', 8 * 1024 ^ 3),
      (''original'', 8 * 1024 ^ 3)]"

definition renderMemoryOf :: "json \<Rightarrow> rat option" where
  "renderMemoryOf settings =
     (let resolution = (if isStudioAudioFormat (jget settings ''format'') then JStr ''720p''
                        else jget settings ''resolution'')
      in case resolution of JStr r \<Rightarrow> RENDER_MEMORY_BY_RESOLUTION r | _ \<Rightarrow> None)"

section \<open>Claims\<close>

record renderOperation =
  operation_kind :: mediaOperationKind
  operation_destination :: mediaOperationDestination
  destinationDetail :: "string option"
  operation_snapshot :: json
  operation_settings :: json

record operationOwner =
  owner_activeOperations :: rat
  owner_limits :: renderLimits

definition isSafeNumber :: "rat \<Rightarrow> bool" where
  "isSafeNumber q = (jsafe_int (JNum q) \<noteq> None)"

fun atLimit :: "rat \<Rightarrow> rat option \<Rightarrow> bool" where
  "atLimit n None = False"
| "atLimit n (Some m) = (n \<ge> m)"

definition evaluateClaimAdmission ::
  "renderWorker \<Rightarrow> renderSession \<Rightarrow> renderOperation \<Rightarrow> operationOwner \<Rightarrow> healthState \<Rightarrow> int \<Rightarrow> admissionDecision" where
  "evaluateClaimAdmission worker session operation owner health now =
     (if worker_revoked worker \<or> session_revoked session then Refuse WorkerRevoked
      else if expiresAt session \<le> now then Refuse SessionExpired
      else if operation_destination operation \<noteq> worker_destination worker then Refuse DestinationMismatch
      else if present (destinationDetail operation) \<and> destinationDetail operation \<noteq> Some (worker_id worker) \<and>
              destinationDetail operation \<noteq> Some (worker_name worker)
        then Refuse WorkerMismatch
      else if \<not> isRenderWorkerMediaOperationKind (operation_kind operation) \<or>
              operation_kind operation \<notin> set (session_scopes session) \<or>
              operation_kind operation \<notin> set (worker_kinds worker)
        then Refuse ScopeExceeded
      else if health = Unavailable then Refuse DestinationUnavailable
      else
        let requiredEngine = snapshotString (operation_snapshot operation) ''engineDigest''
        in if present requiredEngine \<and> present (session_engineDigest session) \<and>
              requiredEngine \<noteq> session_engineDigest session
             then Refuse EngineDigestMismatch
           else
             let out = requiredOutput_of (operation_settings operation);
                 paired = (case out of None \<Rightarrow> False | Some o1 \<Rightarrow> out_profiles o1 \<noteq> None)
             in if paired \<and> (\<not> present requiredEngine \<or> \<not> present (worker_engineDigest worker) \<or>
                   worker_engineDigest worker \<noteq> session_engineDigest session \<or>
                   session_engineDigest session \<noteq> requiredEngine)
                  then Refuse EngineDigestMismatch
                else if paired \<and> \<not> isQualifiedRenderSession worker session now then Refuse ConformanceStale
                else if (case out of None \<Rightarrow> False | Some o1 \<Rightarrow> \<not> provesOutput (capabilities session) o1)
                  then Refuse CodecUnsupported
                else if (case (renderMemoryOf (operation_settings operation), session_gpuMemoryBytes session) of
                           (Some need, Some have) \<Rightarrow>
                             \<not> isSafeNumber have \<or>
                             have < max need (case snapshotNumber (operation_snapshot operation) ''gpuMemoryHintBytes'' of
                                                Some hint \<Rightarrow> hint | None \<Rightarrow> 0)
                         | _ \<Rightarrow> True)
                  then Refuse GpuMemoryInsufficient
                else if atLimit (worker_activeOperations worker) (maxConcurrentOperations (worker_limits worker))
                  then Refuse WorkerConcurrency
                else if atLimit (owner_activeOperations owner) (maxConcurrentOperations (owner_limits owner))
                  then Refuse UserConcurrency
                else ADMIT)"

definition WORKER_REFUSALS :: "renderWorkerRefusalReason list" where
  "WORKER_REFUSALS = [InvalidCredential, WorkerRevoked, SessionExpired, ConformanceStale, ConformanceReplayed,
     SoftwareRenderer, WorkerConcurrency]"

definition isWorkerRefusal :: "renderWorkerRefusalReason \<Rightarrow> bool" where
  "isWorkerRefusal reason = (reason \<in> set WORKER_REFUSALS)"

definition evaluateRunningLimits :: "int option \<Rightarrow> rat \<Rightarrow> renderLimits \<Rightarrow> int \<Rightarrow> admissionDecision" where
  "evaluateRunningLimits startedAt outputBytes limits now =
     (if (case (maxWallClockMs limits, startedAt) of (Some m, Some s) \<Rightarrow> of_int (now - s) > m | _ \<Rightarrow> False)
        then Refuse WallClockExceeded
      else if (case maxOutputBytes limits of Some m \<Rightarrow> outputBytes > m | None \<Rightarrow> False)
        then Refuse OutputBytesExceeded
      else ADMIT)"

section \<open>Whether an export can be offered\<close>

record renderColorPrecision =
  maxBitDepth :: rat
  hdr10 :: bool
  dolbyVision :: bool

definition SDR_ONLY :: renderColorPrecision where
  "SDR_ONLY = \<lparr>maxBitDepth = 8, hdr10 = False, dolbyVision = False\<rparr>"

datatype renderOutputRefusal = NoQualifiedWorker | InsufficientMemory | IncompatibleColor | CodecUnavailable

record renderOutputCandidate =
  cand_gpuMemoryBytes :: "rat option"
  cand_codecs :: "string list"
  cand_formats :: "string list option"
  colorPrecision :: "renderColorPrecision option"
  cand_engineDigest :: "string option"

definition formatBitDepth :: "json \<Rightarrow> rat" where
  "formatBitDepth format =
     (case studioExportFormatSpec_of format of Some s \<Rightarrow> of_nat (bitDepth s) | None \<Rightarrow> 8)"

definition hdrMasterEvidence :: "string \<Rightarrow> string \<Rightarrow> string" where
  "hdrMasterEvidence format transfer = format @ ''+'' @ (if transfer = ''smpte2084'' then ''pq'' else ''hlg'')"

definition candidateFormats :: "renderOutputCandidate \<Rightarrow> string list" where
  "candidateFormats c = (case cand_formats c of Some fs \<Rightarrow> fs | None \<Rightarrow> [])"

definition colorSupported :: "json \<Rightarrow> renderOutputCandidate \<Rightarrow> bool" where
  "colorSupported request c =
     (let color = jget request ''color''; format = jget request ''format''; transfer = jget request ''transfer'';
          minBitDepth = (case jget request ''minBitDepth'' of JNum q \<Rightarrow> q | _ \<Rightarrow> 8);
          precision = (case colorPrecision c of Some p \<Rightarrow> p | None \<Rightarrow> SDR_ONLY);
          name = (case format of JStr f \<Rightarrow> f | _ \<Rightarrow> []);
          depth = max (max (formatBitDepth format) (if color = JStr ''preserve'' then 8 else 10))
                      (max minBitDepth (if transfer \<in> {JStr ''smpte2084'', JStr ''arib-std-b67''} then 10 else 8))
      in if format = JStr ''hdr-jpeg'' \<or> format = JStr ''hdr-heic'' then maxBitDepth precision \<ge> 10 \<and> hdr10 precision
         else if maxBitDepth precision < depth then False
         else if transfer = JNull \<and> formatBitDepth format > 8 \<and> isStudioVideoFormat format \<and>
                 SDR_TEN_BIT_PROFILE \<notin> set (candidateFormats c)
           then False
         else if transfer = JStr ''arib-std-b67'' \<and> hdrMasterEvidence name ''arib-std-b67'' \<notin> set (candidateFormats c)
           then False
         else if color = JStr ''hdr10'' \<or> transfer = JStr ''smpte2084'' then hdr10 precision
         else if color = JStr ''dolby-vision'' then dolbyVision precision
         else True)"

text \<open>Setting fields of an object: a later spread overrides an earlier one.\<close>

fun jspread :: "json \<Rightarrow> (string \<times> json) list \<Rightarrow> json" where
  "jspread (JObj kvs) new = JObj (rev new @ kvs)"
| "jspread _ new = JObj (rev new)"

definition operationOutputRequest :: "json \<Rightarrow> json \<Rightarrow> json" where
  "operationOutputRequest settings snapshot =
     (let video = jget (jget snapshot ''contract'') ''video'';
          transfer = jget video ''transfer''
      in jspread settings
           ((case jget video ''minBitDepth'' of JNum q \<Rightarrow> [(''minBitDepth'', JNum q)] | _ \<Rightarrow> []) @
            (if transfer = JStr ''smpte2084'' \<or> transfer = JStr ''arib-std-b67'' then [(''transfer'', transfer)] else []) @
            (if transfer = JNull then [(''transfer'', JNull)] else [])))"

definition hasMemory :: "rat \<Rightarrow> renderOutputCandidate \<Rightarrow> bool" where
  "hasMemory need c = (case cand_gpuMemoryBytes c of None \<Rightarrow> False | Some m \<Rightarrow> isSafeNumber m \<and> m \<ge> need)"

definition hasCodec :: "requiredOutput option \<Rightarrow> renderOutputCandidate \<Rightarrow> bool" where
  "hasCodec out c =
     (case out of
        None \<Rightarrow> False
      | Some o1 \<Rightarrow> (out_profiles o1 = None \<or> present (cand_engineDigest c)) \<and>
                   provesOutput (Some (cand_codecs c, candidateFormats c)) o1)"

definition evaluateRenderOutput :: "renderOutputCandidate list \<Rightarrow> json \<Rightarrow> renderOutputRefusal option" where
  "evaluateRenderOutput candidates request =
     (if length candidates = 0 then Some NoQualifiedWorker
      else case renderMemoryOf request of
        None \<Rightarrow> Some InsufficientMemory
      | Some need \<Rightarrow>
          let withMemory = filter (hasMemory need) candidates
          in if length withMemory = 0 then Some InsufficientMemory
             else
               let out = requiredOutput_of request; withCodec = filter (hasCodec out) withMemory
               in if length withCodec = 0 then Some CodecUnavailable
                  else
                    let withColor = filter (colorSupported request) withCodec
                    in if length withColor = 0 then Some IncompatibleColor else None)"

section \<open>Input grants\<close>

record inputGrantPayload =
  grant_operationId :: string
  grant_inputId :: string
  grant_resourceId :: string
  grant_token :: "string option"
  grant_expiresAt :: rat

record inputGrantBinding =
  claimToken :: string
  sessionTokenHash :: string

text \<open>HMAC-SHA256 (key, message), base64url of bytes and back, JSON text and back (\<open>None\<close> when it throws).\<close>

record grantCodecs =
  hmac :: "string \<Rightarrow> string \<Rightarrow> string"
  toBase64 :: "string \<Rightarrow> string"
  fromBase64 :: "string \<Rightarrow> string"
  stringify :: "json \<Rightarrow> string"
  parseJson :: "string \<Rightarrow> json option"

definition grantKey :: "grantCodecs \<Rightarrow> inputGrantBinding \<Rightarrow> string" where
  "grantKey c b = hmac c (sessionTokenHash b) (claimToken b)"

definition payloadJson :: "inputGrantPayload \<Rightarrow> json" where
  "payloadJson p = JObj
     [(''operationId'', JStr (grant_operationId p)), (''inputId'', JStr (grant_inputId p)),
      (''resourceId'', JStr (grant_resourceId p)),
      (''token'', (case grant_token p of None \<Rightarrow> JNull | Some t \<Rightarrow> JStr t)),
      (''expiresAt'', JNum (grant_expiresAt p))]"

definition signInputGrant :: "grantCodecs \<Rightarrow> inputGrantPayload \<Rightarrow> inputGrantBinding \<Rightarrow> string" where
  "signInputGrant c p b =
     (let body = toBase64 c (stringify c (payloadJson p));
          signature = hmac c (grantKey c b) body
      in body @ ''.'' @ toBase64 c signature)"

datatype inputGrantRejection = Malformed | Signature | Expired | OperationMismatch

definition payloadOf :: "json \<Rightarrow> inputGrantPayload option" where
  "payloadOf j =
     (case (jget j ''operationId'', jget j ''inputId'', jget j ''resourceId'', jget j ''token'', jget j ''expiresAt'') of
        (JStr op, JStr i, JStr r, JNull, JNum e) \<Rightarrow>
          Some \<lparr>grant_operationId = op, grant_inputId = i, grant_resourceId = r, grant_token = None, grant_expiresAt = e\<rparr>
      | (JStr op, JStr i, JStr r, JStr t, JNum e) \<Rightarrow>
          Some \<lparr>grant_operationId = op, grant_inputId = i, grant_resourceId = r, grant_token = Some t, grant_expiresAt = e\<rparr>
      | _ \<Rightarrow> None)"

definition verifyInputGrant ::
  "grantCodecs \<Rightarrow> string \<Rightarrow> string \<Rightarrow> inputGrantBinding \<Rightarrow> int \<Rightarrow> inputGrantRejection + inputGrantPayload" where
  "verifyInputGrant c grant operationId binding now =
     (case split_at CHR ''.'' grant of
        (body, None) \<Rightarrow> Inl Malformed
      | (body, Some signature) \<Rightarrow>
          if body = [] \<or> signature = [] \<or> CHR ''.'' \<in> set signature then Inl Malformed
          else if fromBase64 c signature \<noteq> hmac c (grantKey c binding) body then Inl Signature
          else case parseJson c (fromBase64 c body) of
                 None \<Rightarrow> Inl Malformed
               | Some j \<Rightarrow>
                   (case payloadOf j of
                      None \<Rightarrow> Inl Malformed
                    | Some p \<Rightarrow>
                        if grant_operationId p \<noteq> operationId then Inl OperationMismatch
                        else if grant_expiresAt p \<le> of_int now then Inl Expired
                        else Inr p))"

section \<open>Lemmas\<close>

text \<open>The memory a claim must find: the resolution's budget and the snapshot's own hint.\<close>

definition memoryHint :: "json \<Rightarrow> rat" where
  "memoryHint snapshot = (case snapshotNumber snapshot ''gpuMemoryHintBytes'' of Some hint \<Rightarrow> hint | None \<Rightarrow> 0)"

definition memory_ok :: "renderOperation \<Rightarrow> rat option \<Rightarrow> bool" where
  "memory_ok operation have \<longleftrightarrow>
     (\<exists>need m. renderMemoryOf (operation_settings operation) = Some need \<and> have = Some m \<and> isSafeNumber m \<and>
        need \<le> m \<and> memoryHint (operation_snapshot operation) \<le> m)"


lemma memory_refusal:
  "(case (renderMemoryOf (operation_settings operation), have) of
      (Some need, Some m) \<Rightarrow> \<not> isSafeNumber m \<or>
        m < max need (case snapshotNumber (operation_snapshot operation) ''gpuMemoryHintBytes'' of Some hint \<Rightarrow> hint | None \<Rightarrow> 0)
    | _ \<Rightarrow> True) \<longleftrightarrow> \<not> memory_ok operation have"
  by (auto simp: memory_ok_def memoryHint_def not_le less_max_iff_disj split: option.splits)

lemma present_iff: "present x \<longleftrightarrow> x \<noteq> None \<and> x \<noteq> Some []"
  by (cases x) auto






definition exampleWorker :: renderWorker where
  "exampleWorker =
     \<lparr>worker_id = ''w'', worker_name = ''gpu'', worker_destination = Lan, worker_revoked = False,
      worker_kinds = [KStudioExport], worker_activeOperations = 0,
      worker_limits = \<lparr>maxConcurrentOperations = Some 1, maxWallClockMs = None, maxOutputBytes = None\<rparr>,
      worker_engineDigest = None, conformanceMaxAgeMs = 1000\<rparr>"

definition exampleSession :: renderSession where
  "exampleSession =
     \<lparr>session_revoked = False, expiresAt = 100, session_scopes = [KStudioExport],
      session_gpuMemoryBytes = Some (4 * 1024 ^ 3), session_engineDigest = None, conformanceReportedAt = Some 0,
      capabilities = Some ([''LIBX264''], [''mp4''])\<rparr>"

definition exampleSettings :: json where
  "exampleSettings = JObj [(''format'', JStr ''mp4-h264''), (''color'', JStr ''preserve''), (''resolution'', JStr ''720p'')]"

definition exampleOperation :: renderOperation where
  "exampleOperation =
     \<lparr>operation_kind = KStudioExport, operation_destination = Lan, destinationDetail = None,
      operation_snapshot = JObj [], operation_settings = exampleSettings\<rparr>"

definition exampleOwner :: operationOwner where
  "exampleOwner = \<lparr>owner_activeOperations = 0,
     owner_limits = \<lparr>maxConcurrentOperations = Some 2, maxWallClockMs = None, maxOutputBytes = None\<rparr>\<rparr>"

subsection \<open>Offers and claims\<close>

lemma jget_jspread: "k \<notin> fst ` set new \<Longrightarrow> jget (jspread j new) k = jget j k"
proof -
  assume "k \<notin> fst ` set new"
  then have "map_of (rev new) k = None" by (simp add: map_of_eq_None_iff)
  then show ?thesis by (cases j) (simp_all add: map_add_def)
qed

lemma jget_operationOutputRequest:
  "k \<noteq> ''minBitDepth'' \<Longrightarrow> k \<noteq> ''transfer'' \<Longrightarrow> jget (operationOutputRequest settings snapshot) k = jget settings k"
  unfolding operationOutputRequest_def Let_def by (rule jget_jspread) (auto split: json.splits)

lemma request_fields:
  "jget (operationOutputRequest settings snapshot) ''format'' = jget settings ''format''"
  "jget (operationOutputRequest settings snapshot) ''subtitleMode'' = jget settings ''subtitleMode''"
  "jget (operationOutputRequest settings snapshot) ''color'' = jget settings ''color''"
  "jget (operationOutputRequest settings snapshot) ''resolution'' = jget settings ''resolution''"
  "jget (operationOutputRequest settings snapshot) ''quality'' = jget settings ''quality''"
  "jget (operationOutputRequest settings snapshot) ''audio'' = jget settings ''audio''"
  "jget (operationOutputRequest settings snapshot) ''shape'' = jget settings ''shape''"
  by (simp_all add: jget_operationOutputRequest)

lemma request_needs:
  "requiredOutput_of (operationOutputRequest settings snapshot) = requiredOutput_of settings"
  "renderMemoryOf (operationOutputRequest settings snapshot) = renderMemoryOf settings"
  unfolding requiredOutput_of_def requiredFormatOutput_def renderMemoryOf_def request_fields by (rule refl)+

lemma evaluateRenderOutput_None:
  "evaluateRenderOutput cs request = None \<longleftrightarrow>
     (\<exists>c \<in> set cs. \<exists>need. renderMemoryOf request = Some need \<and> hasMemory need c \<and>
        hasCodec (requiredOutput_of request) c \<and> colorSupported request c)"
  by (auto simp: evaluateRenderOutput_def Let_def filter_empty_conv split: option.splits)

text \<open>
  An export that is offered can be claimed. When the live sessions' evidence supports an operation's
  output request, one of them can be given the operation: a session with that evidence is never turned
  away for its codecs or its memory, whatever else is decided, unless the snapshot's own hint asks for
  more memory than the resolution does.
\<close>

theorem offered_export_claimable:
  assumes "evaluateRenderOutput candidates
      (operationOutputRequest (operation_settings operation) (operation_snapshot operation)) = None"
    and "memoryHint (operation_snapshot operation) \<le> the (renderMemoryOf (operation_settings operation))"
  shows "\<exists>c \<in> set candidates. \<forall>worker session owner health now.
    session_gpuMemoryBytes session = cand_gpuMemoryBytes c \<and>
    capabilities session = Some (cand_codecs c, candidateFormats c) \<longrightarrow>
    evaluateClaimAdmission worker session operation owner health now \<notin>
      {Refuse CodecUnsupported, Refuse GpuMemoryInsufficient}"
proof -
  obtain c need where c: "c \<in> set candidates" "renderMemoryOf (operation_settings operation) = Some need"
    "hasMemory need c" "hasCodec (requiredOutput_of (operation_settings operation)) c"
    using assms(1) unfolding evaluateRenderOutput_None request_needs by blast
  have "memory_ok operation (cand_gpuMemoryBytes c)"
    using c(2,3) assms(2) by (auto simp: memory_ok_def hasMemory_def split: option.splits)
  moreover have "requiredOutput_of (operation_settings operation) = Some out \<Longrightarrow>
      provesOutput (Some (cand_codecs c, candidateFormats c)) out" for out
    using c(4) by (simp add: hasCodec_def)
  ultimately have "\<forall>worker session owner health now.
    session_gpuMemoryBytes session = cand_gpuMemoryBytes c \<and>
    capabilities session = Some (cand_codecs c, candidateFormats c) \<longrightarrow>
    evaluateClaimAdmission worker session operation owner health now \<notin>
      {Refuse CodecUnsupported, Refuse GpuMemoryInsufficient}"
    unfolding evaluateClaimAdmission_def memory_refusal Let_def by (auto split: option.splits)
  with c(1) show ?thesis by blast
qed

definition exampleCandidate :: renderOutputCandidate where
  "exampleCandidate =
     \<lparr>cand_gpuMemoryBytes = Some (4 * 1024 ^ 3), cand_codecs = [''LIBX264''], cand_formats = Some [''mp4''],
      colorPrecision = None, cand_engineDigest = None\<rparr>"

lemma example_lookup:
  "map_of STUDIO_EXPORT_FORMAT_SPECS ''mp4-h264'' = Some (video_format MP4_box ''h264'' H264_writers 8 False)"
  by (simp add: STUDIO_EXPORT_FORMAT_SPECS_def)

lemma example_needs:
  "requiredOutput_of exampleSettings = Some (plainOutput ''mp4-h264'' H264_writers ''mp4'')"
  "renderMemoryOf exampleSettings = Some (2 * 1024 ^ 3)"
  by (simp_all add: requiredOutput_of_def requiredFormatOutput_def exampleSettings_def renderMemoryOf_def
      isStudioAudioFormat_def studioExportFormatSpec_of_def example_lookup video_format_def MP4_box_def
      RENDER_MEMORY_BY_RESOLUTION_def plainOutput_def)

lemma example_codec: "hasCodec (Some (plainOutput ''mp4-h264'' H264_writers ''mp4'')) exampleCandidate"
  by code_simp

lemma example_color: "colorSupported (operationOutputRequest exampleSettings (JObj [])) exampleCandidate"
  by code_simp

theorem offered_export_claimable_witness:
  "evaluateClaimAdmission exampleWorker exampleSession exampleOperation exampleOwner UnknownHealth 5 \<notin>
     {Refuse CodecUnsupported, Refuse GpuMemoryInsufficient}"
proof -
  have "evaluateRenderOutput [exampleCandidate]
      (operationOutputRequest (operation_settings exampleOperation) (operation_snapshot exampleOperation)) = None"
    unfolding evaluateRenderOutput_None request_needs
    using example_codec example_color
    by (simp add: exampleOperation_def example_needs hasMemory_def exampleCandidate_def isSafeNumber_def isSafeInteger_def)
  moreover have "memoryHint (operation_snapshot exampleOperation) \<le>
      the (renderMemoryOf (operation_settings exampleOperation))"
    by (simp add: memoryHint_def snapshotNumber_def exampleOperation_def example_needs)
  ultimately show ?thesis
    using offered_export_claimable [of "[exampleCandidate]" exampleOperation]
    by (auto simp: exampleSession_def exampleCandidate_def candidateFormats_def)
qed

subsection \<open>Limits\<close>

text \<open>\<open>exceeds over n limit\<close>: the value is over the ceiling, in the sense of the comparison the limit is read with.\<close>

definition exceeds :: "(rat \<Rightarrow> rat \<Rightarrow> bool) \<Rightarrow> rat \<Rightarrow> rat option \<Rightarrow> bool" where
  "exceeds over n m = (case m of None \<Rightarrow> False | Some l \<Rightarrow> over n l)"

lemma exceeds_tighter:
  assumes "\<And>n a b. over n (min a b) \<longleftrightarrow> over n a \<or> over n b"
  shows "exceeds over n (tighter a b) \<longleftrightarrow> exceeds over n a \<or> exceeds over n b"
  using assms by (cases a; cases b) (auto simp: exceeds_def)

lemma exceeds_fold:
  fixes field :: "renderLimits \<Rightarrow> rat option"
  assumes "\<And>n a b. over n (min a b) \<longleftrightarrow> over n a \<or> over n b"
    and "\<And>r l. field (step r (Some l)) = tighter (field r) (field l)" and "\<And>r. step r None = r"
  shows "exceeds over n (field (foldl step r sources)) \<longleftrightarrow>
    exceeds over n (field r) \<or> (\<exists>l. Some l \<in> set sources \<and> exceeds over n (field l))"
proof (induction sources arbitrary: r)
  case (Cons s sources)
  show ?case
    by (cases s) (auto simp: Cons.IH assms(2,3) exceeds_tighter [OF assms(1)])
qed simp

lemma tightest_exceeds:
  assumes "\<And>n a b. over n (min a b) \<longleftrightarrow> over n a \<or> over n b"
  shows "exceeds over n (maxConcurrentOperations (tightestLimits sources)) \<longleftrightarrow>
      (\<exists>l. Some l \<in> set sources \<and> exceeds over n (maxConcurrentOperations l))"
    and "exceeds over n (maxWallClockMs (tightestLimits sources)) \<longleftrightarrow>
      (\<exists>l. Some l \<in> set sources \<and> exceeds over n (maxWallClockMs l))"
    and "exceeds over n (maxOutputBytes (tightestLimits sources)) \<longleftrightarrow>
      (\<exists>l. Some l \<in> set sources \<and> exceeds over n (maxOutputBytes l))"
  unfolding tightestLimits_def
  by (subst exceeds_fold [OF assms]; simp add: exceeds_def)+

lemma atLimit_exceeds: "atLimit n m \<longleftrightarrow> exceeds (\<lambda>n l. l \<le> n) n m"
  by (cases m) (auto simp: exceeds_def)

lemma evaluateRunningLimits_ADMIT:
  "evaluateRunningLimits startedAt outputBytes limits now = ADMIT \<longleftrightarrow>
     \<not> (case startedAt of None \<Rightarrow> False | Some s \<Rightarrow> exceeds (\<lambda>n l. l < n) (of_int (now - s)) (maxWallClockMs limits)) \<and>
     \<not> exceeds (\<lambda>n l. l < n) outputBytes (maxOutputBytes limits)"
  by (auto simp: evaluateRunningLimits_def exceeds_def split: option.splits)

text \<open>
  Combining ceilings loosens nothing and invents nothing. A running render is inside the combined
  limits exactly when it is inside every source's, and a worker or an account is at the combined
  concurrency limit exactly when it is at the limit of one of them, in whatever order they are combined.
\<close>

theorem tightest_limits_exact:
  "(evaluateRunningLimits startedAt outputBytes (tightestLimits sources) now = ADMIT \<longleftrightarrow>
      (\<forall>l. Some l \<in> set sources \<longrightarrow> evaluateRunningLimits startedAt outputBytes l now = ADMIT)) \<and>
   (atLimit n (maxConcurrentOperations (tightestLimits sources)) \<longleftrightarrow>
      (\<exists>l. Some l \<in> set sources \<and> atLimit n (maxConcurrentOperations l)))"
proof
  have lt: "over n (min a b) \<longleftrightarrow> over n a \<or> over n b" if "over = (\<lambda>n l. l < n)" for over :: "rat \<Rightarrow> rat \<Rightarrow> bool" and n a b
    using that by (auto simp: min_less_iff_disj)
  show "evaluateRunningLimits startedAt outputBytes (tightestLimits sources) now = ADMIT \<longleftrightarrow>
      (\<forall>l. Some l \<in> set sources \<longrightarrow> evaluateRunningLimits startedAt outputBytes l now = ADMIT)"
    unfolding evaluateRunningLimits_ADMIT tightest_exceeds(2,3) [OF lt [OF refl]]
    by (cases startedAt) auto
  show "atLimit n (maxConcurrentOperations (tightestLimits sources)) \<longleftrightarrow>
      (\<exists>l. Some l \<in> set sources \<and> atLimit n (maxConcurrentOperations l))"
    unfolding atLimit_exceeds by (rule tightest_exceeds(1)) (auto simp: min_le_iff_disj)
qed

theorem tightest_limits_exact_witness:
  "atLimit 2 (maxConcurrentOperations (tightestLimits [None, Some (owner_limits exampleOwner), Some (worker_limits exampleWorker)]))"
proof (rule tightest_limits_exact [THEN conjunct2, THEN iffD2])
  show "\<exists>l. Some l \<in> set [None, Some (owner_limits exampleOwner), Some (worker_limits exampleWorker)] \<and>
      atLimit 2 (maxConcurrentOperations l)"
    by (rule exI [of _ "owner_limits exampleOwner"]) (simp add: exampleOwner_def)
qed

subsection \<open>Input grants\<close>

text \<open>
  What a grant relies on: base64url is reversible and never writes a dot, a signature is never empty,
  and JSON reads back this payload. The HMAC has no collision among the few
  inputs the two bindings put through it.
\<close>

definition codecs_ok :: "grantCodecs \<Rightarrow> inputGrantPayload \<Rightarrow> bool" where
  "codecs_ok c p \<longleftrightarrow>
     (\<forall>x. fromBase64 c (toBase64 c x) = x \<and> CHR ''.'' \<notin> set (toBase64 c x) \<and> (x \<noteq> [] \<longrightarrow> toBase64 c x \<noteq> [])) \<and>
     (\<forall>k m. hmac c k m \<noteq> []) \<and> stringify c (payloadJson p) \<noteq> [] \<and>
     parseJson c (stringify c (payloadJson p)) = Some (payloadJson p)"

definition grantBody :: "grantCodecs \<Rightarrow> inputGrantPayload \<Rightarrow> string" where
  "grantBody c p = toBase64 c (stringify c (payloadJson p))"

text \<open>The key and message pairs that signing under one binding and checking under another put through the HMAC.\<close>

definition grantQueries :: "grantCodecs \<Rightarrow> inputGrantPayload \<Rightarrow> inputGrantBinding \<Rightarrow> inputGrantBinding \<Rightarrow> (string \<times> string) set" where
  "grantQueries c p b b' =
     {(sessionTokenHash b, claimToken b), (sessionTokenHash b', claimToken b'),
      (grantKey c b, grantBody c p), (grantKey c b', grantBody c p)}"

definition hmac_separates :: "grantCodecs \<Rightarrow> (string \<times> string) set \<Rightarrow> bool" where
  "hmac_separates c Q \<longleftrightarrow> inj_on (\<lambda>(k, m). hmac c k m) Q"

lemma payloadOf_payloadJson [simp]: "payloadOf (payloadJson p) = Some p"
  by (cases "grant_token p") (simp_all add: payloadOf_def payloadJson_def)

lemma split_grant:
  assumes "codecs_ok c p"
  shows "split_at CHR ''.'' (signInputGrant c p b) =
    (grantBody c p, Some (toBase64 c (hmac c (grantKey c b) (grantBody c p))))"
proof -
  have "CHR ''.'' \<notin> set (toBase64 c (stringify c (payloadJson p)))"
    using assms unfolding codecs_ok_def by blast
  then show ?thesis
    unfolding signInputGrant_def Let_def grantBody_def using split_at_append by simp
qed

lemma verify_signed:
  assumes "codecs_ok c p"
  shows "verifyInputGrant c (signInputGrant c p b) operationId b' now =
    (if hmac c (grantKey c b) (grantBody c p) \<noteq> hmac c (grantKey c b') (grantBody c p) then Inl Signature
     else if grant_operationId p \<noteq> operationId then Inl OperationMismatch
     else if grant_expiresAt p \<le> of_int now then Inl Expired else Inr p)"
proof -
  define sig where "sig = hmac c (grantKey c b) (grantBody c p)"
  have js: "stringify c (payloadJson p) \<noteq> []" "parseJson c (stringify c (payloadJson p)) = Some (payloadJson p)"
    and sig: "sig \<noteq> []"
    using assms unfolding codecs_ok_def sig_def by blast+
  have "fromBase64 c (toBase64 c sig) = sig" "CHR ''.'' \<notin> set (toBase64 c sig)" "toBase64 c sig \<noteq> []"
    "fromBase64 c (grantBody c p) = stringify c (payloadJson p)" "grantBody c p \<noteq> []"
    using assms js(1) sig unfolding codecs_ok_def grantBody_def by blast+
  with js(2) show ?thesis
    unfolding verifyInputGrant_def split_grant [OF assms] sig_def [symmetric] by simp
qed

lemma grant_mac_binding:
  assumes "hmac_separates c (grantQueries c p b b')"
  shows "hmac c (grantKey c b) (grantBody c p) = hmac c (grantKey c b') (grantBody c p) \<longleftrightarrow> b' = b"
proof
  have sep: "x = y" if "case x of (k, m) \<Rightarrow> hmac c k m = (case y of (k, m) \<Rightarrow> hmac c k m)"
    "x \<in> grantQueries c p b b'" "y \<in> grantQueries c p b b'" for x y
    using assms that unfolding hmac_separates_def inj_on_def by (cases x; cases y) auto
  assume "hmac c (grantKey c b) (grantBody c p) = hmac c (grantKey c b') (grantBody c p)"
  with sep [of "(grantKey c b, grantBody c p)" "(grantKey c b', grantBody c p)"]
  have "grantKey c b = grantKey c b'" by (simp add: grantQueries_def)
  with sep [of "(sessionTokenHash b, claimToken b)" "(sessionTokenHash b', claimToken b')"]
  have "sessionTokenHash b = sessionTokenHash b' \<and> claimToken b = claimToken b'"
    unfolding grantKey_def by (simp add: grantQueries_def)
  then show "b' = b" by (cases b; cases b') simp
qed simp

text \<open>
  C32. An input grant is good for one operation, one claim and one session, until it expires. Presented as
  it was signed it opens exactly the input it names; presented under another claim or another session
  it is refused for its signature, on another operation for the mismatch, and after its time as expired.
\<close>

theorem input_grant_bound:
  assumes "codecs_ok c p" and "hmac_separates c (grantQueries c p b b')"
  shows "verifyInputGrant c (signInputGrant c p b) operationId b' now =
    (if b' \<noteq> b then Inl Signature
     else if grant_operationId p \<noteq> operationId then Inl OperationMismatch
     else if grant_expiresAt p \<le> of_int now then Inl Expired else Inr p)"
  unfolding verify_signed [OF assms(1)] grant_mac_binding [OF assms(2)] ..

definition hexPair :: "char \<Rightarrow> string" where
  "hexPair ch = [char_of (65 + of_char ch div 16 :: nat), char_of (65 + of_char ch mod 16 :: nat)]"

fun unhex :: "string \<Rightarrow> string" where
  "unhex (a # b # s) = char_of ((of_char a - 65) * 16 + (of_char b - 65) :: nat) # unhex s"
| "unhex s = []"

definition examplePayload :: inputGrantPayload where
  "examplePayload = \<lparr>grant_operationId = ''op'', grant_inputId = ''source'', grant_resourceId = ''r'',
     grant_token = None, grant_expiresAt = 10\<rparr>"

definition exampleCodecs :: grantCodecs where
  "exampleCodecs =
     \<lparr>hmac = (\<lambda>k m. replicate (length k) CHR ''x'' @ CHR ''y'' # k @ m),
      toBase64 = (\<lambda>s. concat (map hexPair s)), fromBase64 = unhex,
      stringify = (\<lambda>_. ''{}''), parseJson = (\<lambda>_. Some (payloadJson examplePayload))\<rparr>"

lemma hex_bounds: "(65 + of_char ch div 16 :: nat) < 256" "(65 + of_char ch mod 16 :: nat) < 256"
proof -
  have "(of_char ch :: nat) < 16 * 16" by simp
  then have "(of_char ch div 16 :: nat) < 16" by (rule less_mult_imp_div_less)
  then show "(65 + of_char ch div 16 :: nat) < 256" by simp
  have "(of_char ch mod 16 :: nat) < 16" by simp
  then show "(65 + of_char ch mod 16 :: nat) < 256" by linarith
qed

lemma unhex_hexPair: "unhex (concat (map hexPair s)) = s"
proof (induction s)
  case (Cons ch s)
  then show ?case using hex_bounds [of ch] by (simp add: hexPair_def)
qed simp

lemma hexPair_no_dot: "CHR ''.'' \<notin> set (hexPair ch)"
proof -
  have "CHR ''.'' \<noteq> char_of (65 + k :: nat)" if "65 + k < (256 :: nat)" for k
  proof
    assume "CHR ''.'' = char_of (65 + k :: nat)"
    then have "(of_char CHR ''.'' :: nat) = of_char (char_of (65 + k :: nat) :: char)" by simp
    then show False using that by simp
  qed
  then show ?thesis using hex_bounds [of ch] by (auto simp: hexPair_def)
qed

lemma unary_prefix_inj:
  "replicate n x @ y # s = replicate m x @ y # t \<Longrightarrow> x \<noteq> y \<Longrightarrow> n = m \<and> s = t"
proof (induction n arbitrary: m)
  case 0
  then show ?case by (cases m) auto
next
  case (Suc n)
  then show ?case by (cases m) auto
qed

lemma exampleCodecs_ok: "codecs_ok exampleCodecs examplePayload" "hmac_separates exampleCodecs Q"
proof -
  show "codecs_ok exampleCodecs examplePayload"
  proof -
    have "concat (map hexPair x) \<noteq> []" if "x \<noteq> []" for x
      using that by (cases x) (simp_all add: hexPair_def)
    then show ?thesis by (simp add: codecs_ok_def exampleCodecs_def unhex_hexPair hexPair_no_dot)
  qed
  show "hmac_separates exampleCodecs Q"
    by (auto simp: hmac_separates_def exampleCodecs_def inj_on_def dest!: unary_prefix_inj)
qed

theorem input_grant_bound_witness:
  "verifyInputGrant exampleCodecs (signInputGrant exampleCodecs examplePayload
       \<lparr>claimToken = ''c1'', sessionTokenHash = ''s''\<rparr>) ''op'' \<lparr>claimToken = ''c1'', sessionTokenHash = ''s''\<rparr> 5 =
     Inr examplePayload \<and>
   verifyInputGrant exampleCodecs (signInputGrant exampleCodecs examplePayload
       \<lparr>claimToken = ''c1'', sessionTokenHash = ''s''\<rparr>) ''op'' \<lparr>claimToken = ''c2'', sessionTokenHash = ''s''\<rparr> 5 =
     Inl Signature"
  by (simp add: input_grant_bound [OF exampleCodecs_ok]) (simp add: examplePayload_def)

end
