(* ===== verification/SecretAttempts.thy ===== *)
theory SecretAttempts
  imports Frameleaf_Prelude
begin

text \<open>
  The attempt limit of PIN, passphrase and recovery key checks (\<open>server/src/utils/secret-attempts.ts\<close>).

  The module's two maps are the fields \<open>attemptsByUser\<close> and \<open>checksByUser\<close> of the state. A promise is
  the number of the call that made it, and is resolved when that call is \<open>Done\<close>. One call of
  \<open>checkSecret\<close> runs in the atomic pieces between its awaits: \<open>enterCheck\<close> up to \<open>await previous\<close>,
  \<open>startCheck\<close> when that resolves, \<open>beginVerify\<close> up to \<open>await check()\<close>, \<open>endVerify\<close> when the check
  settles, and \<open>finishCheck\<close> for the \<open>finally\<close> block. Calls of any number of accounts interleave; the
  callback of one call uses \<open>verify\<close> one check at a time, as every caller does. The clock never goes back, and does not move inside one piece.
\<close>

section \<open>Model\<close>

record attemptState =
  failureCount :: nat
  lastFailureAt :: int
  lockedUntil :: int

definition FAILURE_THRESHOLDS :: "(nat \<times> int) list" where
  "FAILURE_THRESHOLDS =
     [(5, 60 * 1000), (10, 60 * 60 * 1000), (15, 24 * 60 * 60 * 1000)]"

definition FAILURE_RESET_MS :: int where
  "FAILURE_RESET_MS = 30 * 60 * 1000"

definition lookupLockoutMs :: "nat \<Rightarrow> int" where
  "lookupLockoutMs n =
     foldl (\<lambda>lockout (attempts, lockoutMs). if attempts \<le> n then lockoutMs else lockout) 0 FAILURE_THRESHOLDS"

text \<open>\<open>None\<close> when the account may go on, else the seconds the message names.\<close>

definition assertNotLockedOut :: "(string \<rightharpoonup> attemptState) \<Rightarrow> string \<Rightarrow> int \<Rightarrow> int option" where
  "assertNotLockedOut attempts userId now =
     (case attempts userId of
        None \<Rightarrow> None
      | Some state \<Rightarrow> if lockedUntil state > now then Some (- ((now - lockedUntil state) div 1000)) else None)"

datatype phase =
    Awaiting "nat option"
  | Running
  | Checking int "attemptState option"
  | Done

record secretState =
  attemptsByUser :: "string \<rightharpoonup> attemptState"
  checksByUser :: "string \<rightharpoonup> nat"
  calls :: "(string \<times> phase) list"
  clock :: int

definition phaseOf :: "secretState \<Rightarrow> nat \<Rightarrow> phase option" where
  "phaseOf s p = (if p < length (calls s) then Some (snd (calls s ! p)) else None)"

definition setPhase :: "nat \<Rightarrow> phase \<Rightarrow> secretState \<Rightarrow> secretState" where
  "setPhase p ph s = s\<lparr>calls := (calls s)[p := (fst (calls s ! p), ph)]\<rparr>"

text \<open>The start of \<open>checkSecret\<close>: take the queue's last promise, put one's own in its place, and await it.\<close>

definition enterCheck :: "string \<Rightarrow> secretState \<Rightarrow> secretState" where
  "enterCheck userId s =
     s\<lparr>checksByUser := (checksByUser s)(userId \<mapsto> length (calls s)),
       calls := calls s @ [(userId, Awaiting (checksByUser s userId))]\<rparr>"

text \<open>The \<open>finally\<close> block: resolve, and forget the promise if no later call has replaced it.\<close>

definition finishCheck :: "nat \<Rightarrow> secretState \<Rightarrow> secretState" where
  "finishCheck p s =
     (let userId = fst (calls s ! p); s = setPhase p Done s
      in if checksByUser s userId = Some p then s\<lparr>checksByUser := (checksByUser s)(userId := None)\<rparr> else s)"

text \<open>After the wait: refused while locked out (the throw runs the \<open>finally\<close> block), else the callback runs.\<close>

definition startCheck :: "nat \<Rightarrow> secretState \<Rightarrow> secretState" where
  "startCheck p s =
     (case assertNotLockedOut (attemptsByUser s) (fst (calls s ! p)) (clock s) of
        Some _ \<Rightarrow> finishCheck p s
      | None \<Rightarrow> setPhase p Running s)"

text \<open>\<open>verify\<close> up to the check: the lockout is read again, and the time and the account's state are kept.\<close>

definition beginVerify :: "nat \<Rightarrow> secretState \<Rightarrow> secretState" where
  "beginVerify p s =
     (let userId = fst (calls s ! p)
      in case assertNotLockedOut (attemptsByUser s) userId (clock s) of
           Some _ \<Rightarrow> s
         | None \<Rightarrow> setPhase p (Checking (clock s) (attemptsByUser s userId)) s)"

definition recordFailure :: "int \<Rightarrow> attemptState option \<Rightarrow> attemptState" where
  "recordFailure now state =
     (let prev = (case state of
                    Some st \<Rightarrow> if now - lastFailureAt st < FAILURE_RESET_MS then st
                               else \<lparr>failureCount = 0, lastFailureAt = 0, lockedUntil = 0\<rparr>
                  | None \<Rightarrow> \<lparr>failureCount = 0, lastFailureAt = 0, lockedUntil = 0\<rparr>);
          failures = failureCount prev + 1;
          lockoutMs = lookupLockoutMs failures
      in \<lparr>failureCount = failures, lastFailureAt = now,
          lockedUntil = (if lockoutMs > 0 then now + lockoutMs else 0)\<rparr>)"

definition endVerify :: "nat \<Rightarrow> int \<Rightarrow> attemptState option \<Rightarrow> bool \<Rightarrow> secretState \<Rightarrow> secretState" where
  "endVerify p now state ok s =
     (let userId = fst (calls s ! p)
      in setPhase p Running
           (s\<lparr>attemptsByUser := (if ok then (attemptsByUser s)(userId := None)
                                else (attemptsByUser s)(userId \<mapsto> recordFailure now state))\<rparr>))"

definition initSecrets :: "int \<Rightarrow> secretState" where
  "initSecrets now = \<lparr>attemptsByUser = Map.empty, checksByUser = Map.empty, calls = [], clock = now\<rparr>"

text \<open>What an observer of one account sees: the outcome of each check, with the time it was started at.\<close>

datatype secretEvent = Quiet | Verified string int bool

inductive secret_step :: "secretState \<Rightarrow> secretEvent \<Rightarrow> secretState \<Rightarrow> bool" where
  tick: "0 \<le> d \<Longrightarrow> secret_step s Quiet (s\<lparr>clock := clock s + d\<rparr>)"
| enter: "secret_step s Quiet (enterCheck userId s)"
| start_first: "phaseOf s p = Some (Awaiting None) \<Longrightarrow> secret_step s Quiet (startCheck p s)"
| start_next: "phaseOf s p = Some (Awaiting (Some q)) \<Longrightarrow> phaseOf s q = Some Done \<Longrightarrow>
    secret_step s Quiet (startCheck p s)"
| verify: "phaseOf s p = Some Running \<Longrightarrow> secret_step s Quiet (beginVerify p s)"
| settle: "phaseOf s p = Some (Checking now state) \<Longrightarrow>
    secret_step s (Verified (fst (calls s ! p)) now ok) (endVerify p now state ok s)"
| finish: "phaseOf s p = Some Running \<Longrightarrow> secret_step s Quiet (finishCheck p s)"

text \<open>Traces have the latest event first.\<close>

inductive secret_run :: "int \<Rightarrow> secretEvent list \<Rightarrow> secretState \<Rightarrow> bool" for t0 where
  boot: "secret_run t0 [] (initSecrets t0)"
| more: "secret_run t0 es s \<Longrightarrow> secret_step s e s' \<Longrightarrow> secret_run t0 (e # es) s'"

section \<open>The queue of checks\<close>

abbreviation issued :: "secretState \<Rightarrow> nat \<Rightarrow> bool" where
  "issued s p \<equiv> p < length (calls s)"

abbreviation user :: "secretState \<Rightarrow> nat \<Rightarrow> string" where
  "user s p \<equiv> fst (calls s ! p)"

abbreviation isDone :: "secretState \<Rightarrow> nat \<Rightarrow> bool" where
  "isDone s p \<equiv> snd (calls s ! p) = Done"

text \<open>Every earlier call of the same account has finished.\<close>

definition first_in_line :: "secretState \<Rightarrow> nat \<Rightarrow> bool" where
  "first_in_line s p \<longleftrightarrow> (\<forall>q < p. user s q = user s p \<longrightarrow> isDone s q)"

text \<open>
  The invariant of the promise chain: the map holds each account's latest call, or nothing once all of
  them are done; a waiting call waits for the one just before it; and a call past its wait is first in line.
\<close>

definition waits_ok :: "secretState \<Rightarrow> nat \<Rightarrow> bool" where
  "waits_ok s p \<longleftrightarrow>
     (case snd (calls s ! p) of
        Awaiting (Some r) \<Rightarrow> r < p \<and> user s r = user s p \<and> (\<forall>q < p. user s q = user s p \<longrightarrow> q \<le> r)
      | _ \<Rightarrow> first_in_line s p)"

definition tail_ok :: "secretState \<Rightarrow> string \<Rightarrow> bool" where
  "tail_ok s u \<longleftrightarrow>
     (case checksByUser s u of
        Some p \<Rightarrow> issued s p \<and> user s p = u \<and> (\<forall>q. issued s q \<longrightarrow> user s q = u \<longrightarrow> q \<le> p)
      | None \<Rightarrow> \<forall>q. issued s q \<longrightarrow> user s q = u \<longrightarrow> isDone s q)"

definition queue_ok :: "secretState \<Rightarrow> bool" where
  "queue_ok s \<longleftrightarrow> (\<forall>p. issued s p \<longrightarrow> waits_ok s p) \<and> (\<forall>u. tail_ok s u)"

lemma setPhase_simps [simp]:
  "length (calls (setPhase p ph s)) = length (calls s)"
  "q < length (calls s) \<Longrightarrow> calls (setPhase p ph s) ! q = (if q = p then (user s p, ph) else calls s ! q)"
  "checksByUser (setPhase p ph s) = checksByUser s"
  "attemptsByUser (setPhase p ph s) = attemptsByUser s"
  "clock (setPhase p ph s) = clock s"
  by (auto simp: setPhase_def)

lemma phaseOf_Some: "phaseOf s p = Some ph \<longleftrightarrow> issued s p \<and> snd (calls s ! p) = ph"
  by (auto simp: phaseOf_def)

lemma first_in_line_setPhase:
  assumes "issued s p" "issued s q" "\<not> isDone s p" "first_in_line s q"
  shows "first_in_line (setPhase p ph s) q"
  using assms unfolding first_in_line_def by auto

lemma waits_ok_setPhase:
  assumes "issued s p" "\<not> isDone s p" "first_in_line s p" "\<nexists>r. ph = Awaiting r" "issued s q" "waits_ok s q"
  shows "waits_ok (setPhase p ph s) q"
proof (cases "q = p")
  case True
  with assms first_in_line_setPhase [OF assms(1,1,2,3)] show ?thesis
    by (auto simp: waits_ok_def split: phase.split option.split)
next
  case False
  with assms first_in_line_setPhase [OF assms(1,5,2)] show ?thesis
    by (auto simp: waits_ok_def split: phase.splits option.splits)
qed

lemma queue_ok_setPhase [keeps]:
  assumes "queue_ok s" "issued s p" "\<not> isDone s p" "first_in_line s p" "\<nexists>r. ph = Awaiting r"
  shows "queue_ok (setPhase p ph s)"
proof -
  have "tail_ok (setPhase p ph s) u" for u
  proof -
    have "tail_ok s u" using assms(1) by (simp add: queue_ok_def)
    with assms(2,3) show ?thesis
      unfolding tail_ok_def by (cases "checksByUser s u") (auto split: if_splits)
  qed
  with assms waits_ok_setPhase [OF assms(2-5)] show ?thesis by (simp add: queue_ok_def)
qed

lemma waits_ok_cong: "calls s' = calls s \<Longrightarrow> waits_ok s' p = waits_ok s p"
  unfolding waits_ok_def first_in_line_def by (simp only:)

lemma queue_ok_cong:
  assumes "queue_ok s" "calls s' = calls s" "checksByUser s' = checksByUser s"
  shows "queue_ok s'"
  using assms(1) unfolding queue_ok_def waits_ok_def tail_ok_def first_in_line_def assms(2,3) .

lemma queue_ok_finish [keeps]:
  assumes "queue_ok s" "issued s p" "\<not> isDone s p" "first_in_line s p"
  shows "queue_ok (finishCheck p s)"
proof -
  let ?s = "setPhase p Done s"
  have ok: "queue_ok ?s" using assms by (intro queue_ok_setPhase) auto
  show ?thesis
  proof (cases "checksByUser s (user s p) = Some p")
    case True
    have last: "q \<le> p" if "issued s q" "user s q = user s p" for q
    proof -
      have "tail_ok s (user s p)" using assms(1) by (simp add: queue_ok_def)
      with True that show ?thesis by (simp add: tail_ok_def)
    qed
    have all: "isDone s q" if "issued s q" "user s q = user s p" "q \<noteq> p" for q
      using that(2,3) last [OF that(1,2)] assms(4) by (simp add: first_in_line_def)
    have "tail_ok (finishCheck p s) u" for u
    proof -
      have "tail_ok ?s u" using ok by (simp add: queue_ok_def)
      with all assms(2) True show ?thesis
        by (cases "u = user s p"; cases "checksByUser s u") (simp_all add: tail_ok_def finishCheck_def Let_def)
    qed
    moreover have "waits_ok (finishCheck p s) q" if "issued s q" for q
    proof -
      have "calls (finishCheck p s) = calls ?s" using assms(2) by (simp add: finishCheck_def Let_def)
      moreover have "waits_ok ?s q" using ok that by (simp add: queue_ok_def)
      ultimately show ?thesis using waits_ok_cong by blast
    qed
    ultimately show ?thesis using True assms(2) by (simp add: queue_ok_def finishCheck_def Let_def)
  next
    case False
    with ok assms(2) show ?thesis by (simp add: finishCheck_def Let_def)
  qed
qed

lemma queue_ok_enter [keeps]:
  assumes "queue_ok s"
  shows "queue_ok (enterCheck u s)"
proof -
  let ?s = "enterCheck u s" and ?n = "length (calls s)"
  have old: "calls ?s ! q = calls s ! q" if "issued s q" for q
    using that by (simp add: enterCheck_def nth_append)
  have new: "calls ?s ! ?n = (u, Awaiting (checksByUser s u))" "length (calls ?s) = Suc ?n"
    by (simp_all add: enterCheck_def nth_append)
  have tail: "tail_ok s v" for v using assms by (simp add: queue_ok_def)
  have "waits_ok ?s p" if "issued ?s p" for p
  proof (cases "p = ?n")
    case True
    with tail [of u] new(1) old show ?thesis
      by (auto simp: waits_ok_def tail_ok_def first_in_line_def split: option.splits)
  next
    case False
    with that new(2) have "issued s p" by simp
    with assms have "waits_ok s p" by (simp add: queue_ok_def)
    with \<open>issued s p\<close> old show ?thesis
      by (auto simp: waits_ok_def first_in_line_def split: phase.splits option.splits)
  qed
  moreover have "tail_ok ?s v" for v
  proof (cases "v = u")
    case True
    then show ?thesis using new by (simp add: tail_ok_def enterCheck_def)
  next
    case False
    with tail [of v] new old show ?thesis
      by (auto simp: tail_ok_def enterCheck_def less_Suc_eq split: option.splits)
  qed
  ultimately show ?thesis by (simp add: queue_ok_def)
qed

lemma past_wait_first:
  assumes "queue_ok s" "issued s p" "\<nexists>r. snd (calls s ! p) = Awaiting (Some r)"
  shows "first_in_line s p"
proof -
  have "waits_ok s p" using assms by (simp add: queue_ok_def)
  with assms(3) show ?thesis
    by (cases "snd (calls s ! p)") (auto simp: waits_ok_def split: option.splits)
qed

lemma next_in_line:
  assumes "queue_ok s" "issued s p" "snd (calls s ! p) = Awaiting (Some q)" "isDone s q"
  shows "first_in_line s p"
proof -
  have w: "q < p" "user s q = user s p" "\<forall>r < p. user s r = user s p \<longrightarrow> r \<le> q"
    using assms(1,2,3) unfolding queue_ok_def waits_ok_def by auto
  moreover have "first_in_line s q"
    using assms w(1) by (intro past_wait_first) auto
  ultimately show ?thesis using assms(4) unfolding first_in_line_def by (metis le_neq_implies_less)
qed

text \<open>One at a time: two calls of an account past their wait are the same call.\<close>

lemma one_at_a_time:
  assumes "queue_ok s" "issued s p" "issued s q" "user s p = user s q"
    and "snd (calls s ! p) \<in> {Running, Checking t a}" "snd (calls s ! q) \<in> {Running, Checking t' a'}"
  shows "p = q"
proof (rule ccontr)
  have fil: "first_in_line s p" "first_in_line s q"
    using assms by (auto intro!: past_wait_first)
  assume "p \<noteq> q"
  then consider "p < q" | "q < p" by linarith
  then show False using fil assms(4-6) unfolding first_in_line_def by cases auto
qed

lemma queue_ok_start [keeps]:
  assumes "queue_ok s" "issued s p" "\<not> isDone s p" "first_in_line s p"
  shows "queue_ok (startCheck p s)"
  using assms unfolding startCheck_def by (auto split: option.split intro!: keeps)

lemma queue_ok_step:
  assumes "secret_step s e s'" "queue_ok s"
  shows "queue_ok s'"
  using assms
proof (cases rule: secret_step.cases)
  case (verify p)
  then have "first_in_line s p" using assms(2) by (auto simp: phaseOf_Some intro!: past_wait_first)
  with verify assms(2) show ?thesis
    by (auto simp: beginVerify_def Let_def phaseOf_Some split: option.split intro!: keeps)
next
  case (settle p now state ok)
  have "queue_ok (s\<lparr>attemptsByUser := m\<rparr>)" for m
    using assms(2) by (rule queue_ok_cong) simp_all
  moreover have "first_in_line (s\<lparr>attemptsByUser := m\<rparr>) p" for m
  proof -
    have "first_in_line s p" using settle assms(2) by (auto simp: phaseOf_Some intro!: past_wait_first)
    then show ?thesis by (simp add: first_in_line_def)
  qed
  ultimately show ?thesis
    unfolding settle(2) endVerify_def Let_def using settle(3)
    by (intro queue_ok_setPhase) (auto simp: phaseOf_Some)
next
  case (start_first p)
  then show ?thesis using assms(2) by (auto simp: phaseOf_Some intro!: queue_ok_start past_wait_first)
next
  case (start_next p q)
  then show ?thesis using assms(2) next_in_line [OF assms(2)] by (auto simp: phaseOf_Some intro!: queue_ok_start)
next
  case (finish p)
  then show ?thesis using assms(2) by (auto simp: phaseOf_Some intro!: queue_ok_finish past_wait_first)
qed (auto intro: queue_ok_enter elim: queue_ok_cong)

lemma queue_ok_run: "secret_run t0 es s \<Longrightarrow> queue_ok s"
proof (induction rule: secret_run.induct)
  case boot
  show ?case by (simp add: queue_ok_def tail_ok_def initSecrets_def)
qed (rule queue_ok_step)

section \<open>Counting failures\<close>

abbreviation minute :: int where
  "minute \<equiv> 60000"

text \<open>The times of an account's failed checks since its last successful one, the latest first.\<close>

fun failuresSince :: "string \<Rightarrow> secretEvent list \<Rightarrow> int list" where
  "failuresSince u [] = []"
| "failuresSince u (Quiet # es) = failuresSince u es"
| "failuresSince u (Verified v t ok # es) =
     (if v = u then (if ok then [] else t # failuresSince u es) else failuresSince u es)"

lemma lookupLockoutMs_tiers:
  "lookupLockoutMs n =
     (if 15 \<le> n then 24 * 60 * minute else if 10 \<le> n then 60 * minute else if 5 \<le> n then minute else 0)"
  by (simp add: lookupLockoutMs_def FAILURE_THRESHOLDS_def)

text \<open>What holds of a stored state, and what a check that was let through knows of the state it read.\<close>

definition attempt_ok :: "int \<Rightarrow> attemptState \<Rightarrow> bool" where
  "attempt_ok now a \<longleftrightarrow> 1 \<le> failureCount a \<and> failureCount a \<le> 10 \<and> lastFailureAt a \<le> now \<and>
     lockedUntil a = (if failureCount a < 5 then 0 else lastFailureAt a + lookupLockoutMs (failureCount a))"

lemma recordFailure_first: "recordFailure now None = \<lparr>failureCount = 1, lastFailureAt = now, lockedUntil = 0\<rparr>"
  by (simp add: recordFailure_def Let_def lookupLockoutMs_tiers)

lemma recordFailure_next:
  assumes "attempt_ok now a" "lockedUntil a \<le> now"
  shows "attempt_ok now (recordFailure now (Some a))"
    and "lastFailureAt (recordFailure now (Some a)) = now"
    and "(failureCount (recordFailure now (Some a)) = failureCount a + 1 \<and> failureCount a \<le> 9 \<and>
            (5 \<le> failureCount a \<longrightarrow> lastFailureAt a + minute \<le> now)) \<or>
         (failureCount (recordFailure now (Some a)) = 1 \<and> lastFailureAt a + 30 * minute \<le> now \<and>
            (failureCount a = 10 \<longrightarrow> lastFailureAt a + 60 * minute \<le> now))"
  using assms
  by (auto simp: attempt_ok_def recordFailure_def Let_def lookupLockoutMs_tiers FAILURE_RESET_MS_def split: if_splits)

text \<open>
  The budget: the failures of finished rounds, \<open>n - c\<close> of them, took at least 34 minutes per nine, and the
  round under way, with \<open>c\<close> failures, a minute for each failure past the fifth.
\<close>

definition within_budget :: "nat \<Rightarrow> nat \<Rightarrow> int \<Rightarrow> bool" where
  "within_budget n c elapsed \<longleftrightarrow> 34 * minute * (int n - int c) + 9 * minute * int (c - 5) \<le> 9 * elapsed"

lemma within_budget_same_round:
  assumes "within_budget n c elapsed" "elapsed \<le> elapsed'" "5 \<le> c \<longrightarrow> elapsed + minute \<le> elapsed'"
  shows "within_budget (n + 1) (c + 1) elapsed'"
  using assms unfolding within_budget_def by (cases "5 \<le> c") (auto simp: of_nat_diff)

lemma within_budget_new_round:
  assumes "within_budget n c elapsed" "c \<le> 10" "elapsed + 30 * minute \<le> elapsed'"
    and "c = 10 \<longrightarrow> elapsed + 60 * minute \<le> elapsed'"
  shows "within_budget (n + 1) 1 elapsed'"
  using assms unfolding within_budget_def by (cases "5 \<le> c"; cases "c = 10") (auto simp: of_nat_diff)

definition reads_ok :: "secretState \<Rightarrow> bool" where
  "reads_ok s \<longleftrightarrow> (\<forall>p now st. issued s p \<longrightarrow> snd (calls s ! p) = Checking now st \<longrightarrow>
     st = attemptsByUser s (user s p) \<and> now \<le> clock s \<and>
     (\<forall>a. st = Some a \<longrightarrow> attempt_ok now a \<and> lockedUntil a \<le> now))"

definition account_ok :: "secretEvent list \<Rightarrow> secretState \<Rightarrow> string \<Rightarrow> bool" where
  "account_ok es s u \<longleftrightarrow>
     (case attemptsByUser s u of
        None \<Rightarrow> failuresSince u es = []
      | Some a \<Rightarrow> attempt_ok (clock s) a \<and>
          (\<exists>ts. failuresSince u es = lastFailureAt a # ts \<and>
             within_budget (length ts + 1) (failureCount a) (lastFailureAt a - last (lastFailureAt a # ts))))"

definition secrets_ok :: "secretEvent list \<Rightarrow> secretState \<Rightarrow> bool" where
  "secrets_ok es s \<longleftrightarrow> queue_ok s \<and> 0 \<le> clock s \<and> reads_ok s \<and> (\<forall>u. account_ok es s u)"

lemma attempt_ok_later: "attempt_ok now a \<Longrightarrow> now \<le> now' \<Longrightarrow> attempt_ok now' a"
  by (auto simp: attempt_ok_def)

lemma reads_ok_keep:
  assumes "reads_ok s" "attemptsByUser s' = attemptsByUser s" "clock s \<le> clock s'"
    and "\<And>q now st. issued s' q \<Longrightarrow> snd (calls s' ! q) = Checking now st \<Longrightarrow> issued s q \<and> calls s' ! q = calls s ! q"
  shows "reads_ok s'"
  unfolding reads_ok_def
proof (intro allI impI)
  fix p now st
  assume p: "issued s' p" "snd (calls s' ! p) = Checking now st"
  then have "issued s p" "calls s' ! p = calls s ! p" using assms(4) by blast+
  with p(2) assms(1,2,3) show "st = attemptsByUser s' (user s' p) \<and> now \<le> clock s' \<and>
      (\<forall>a. st = Some a \<longrightarrow> attempt_ok now a \<and> lockedUntil a \<le> now)"
    unfolding reads_ok_def by fastforce
qed

lemma account_ok_keep:
  assumes "account_ok es s u" "attemptsByUser s' u = attemptsByUser s u" "clock s \<le> clock s'"
    and "failuresSince u es' = failuresSince u es"
  shows "account_ok es' s' u"
  using assms attempt_ok_later [OF _ assms(3)] unfolding account_ok_def by (auto split: option.splits)

lemma secrets_ok_keep:
  assumes "secrets_ok es s" "queue_ok s'" "attemptsByUser s' = attemptsByUser s" "clock s \<le> clock s'"
    and "\<And>q now st. issued s' q \<Longrightarrow> snd (calls s' ! q) = Checking now st \<Longrightarrow> issued s q \<and> calls s' ! q = calls s ! q"
  shows "secrets_ok (Quiet # es) s'"
  using assms reads_ok_keep [of s s'] account_ok_keep [of es s _ s' "Quiet # es"]
  unfolding secrets_ok_def by auto

lemma finishCheck_simps:
  "attemptsByUser (finishCheck p s) = attemptsByUser s" "clock (finishCheck p s) = clock s"
  "calls (finishCheck p s) = calls (setPhase p Done s)"
  by (auto simp: finishCheck_def Let_def)

lemma startCheck_simps:
  "attemptsByUser (startCheck p s) = attemptsByUser s" "clock (startCheck p s) = clock s"
  "calls (startCheck p s) \<in> {calls (setPhase p Done s), calls (setPhase p Running s)}"
  by (auto simp: startCheck_def finishCheck_simps split: option.split)

lemma account_ok_fail:
  assumes "account_ok es s u" "attemptsByUser s u = st" "now \<le> clock s"
    and "\<And>a. st = Some a \<Longrightarrow> attempt_ok now a \<and> lockedUntil a \<le> now"
    and "attemptsByUser s' u = Some (recordFailure now st)" "clock s' = clock s"
  shows "account_ok (Verified u now False # es) s' u"
proof (cases st)
  case None
  with assms show ?thesis
    by (simp add: account_ok_def recordFailure_first attempt_ok_def within_budget_def)
next
  case (Some a)
  let ?r = "recordFailure now (Some a)"
  have a: "attempt_ok now a" "lockedUntil a \<le> now" using assms(4) Some by auto
  note r = recordFailure_next [OF a]
  obtain ts where ts: "failuresSince u es = lastFailureAt a # ts"
    and budget: "within_budget (length ts + 1) (failureCount a) (lastFailureAt a - last (lastFailureAt a # ts))"
    using assms(1,2) Some by (auto simp: account_ok_def)
  let ?first = "last (lastFailureAt a # ts)"
  have "within_budget (length ts + 2) (failureCount ?r) (now - ?first)"
  proof (rule disjE [OF r(3)])
    assume "failureCount ?r = failureCount a + 1 \<and> failureCount a \<le> 9 \<and>
      (5 \<le> failureCount a \<longrightarrow> lastFailureAt a + minute \<le> now)"
    then show ?thesis
      using within_budget_same_round [OF budget, of "now - ?first"] a(1) by (auto simp: attempt_ok_def)
  next
    assume "failureCount ?r = 1 \<and> lastFailureAt a + 30 * minute \<le> now \<and>
      (failureCount a = 10 \<longrightarrow> lastFailureAt a + 60 * minute \<le> now)"
    then show ?thesis
      using within_budget_new_round [OF budget _, of "now - ?first"] a(1) by (auto simp: attempt_ok_def)
  qed
  then show ?thesis
    using assms(3,5,6) Some r(1,2) ts attempt_ok_later [OF r(1) assms(3)]
    by (auto simp: account_ok_def)
qed

lemma secrets_ok_settle:
  assumes "secrets_ok es s" "phaseOf s p = Some (Checking now st)" "queue_ok (endVerify p now st ok s)"
  shows "secrets_ok (Verified (user s p) now ok # es) (endVerify p now st ok s)"
proof -
  let ?u = "user s p" and ?s = "endVerify p now st ok s"
  have p: "issued s p" "snd (calls s ! p) = Checking now st" using assms(2) by (simp_all add: phaseOf_Some)
  have ok: "queue_ok s" "reads_ok s" "account_ok es s v" "0 \<le> clock s" for v
    using assms(1) by (simp_all add: secrets_ok_def)
  have st: "attemptsByUser s ?u = st" "now \<le> clock s" "\<And>a. st = Some a \<Longrightarrow> attempt_ok now a \<and> lockedUntil a \<le> now"
    using ok(2) p unfolding reads_ok_def by blast+
  have att: "attemptsByUser ?s = (if ok then (attemptsByUser s)(?u := None) else (attemptsByUser s)(?u \<mapsto> recordFailure now st))"
    and ck: "clock ?s = clock s"
    by (simp_all add: endVerify_def Let_def)
  have same: "calls ?s ! q = (if q = p then (?u, Running) else calls s ! q)" "length (calls ?s) = length (calls s)"
    if "issued s q" for q
    using that p(1) by (simp_all add: endVerify_def Let_def setPhase_def)
  have "reads_ok ?s"
    unfolding reads_ok_def
  proof (intro allI impI)
    fix q t st'
    assume q: "issued ?s q" "snd (calls ?s ! q) = Checking t st'"
    then have q': "issued s q" using same(2) p(1) by metis
    with q(2) same(1) have sq: "snd (calls s ! q) = Checking t st'" "q \<noteq> p" "user ?s q = user s q"
      by (auto split: if_splits)
    have "user s q \<noteq> ?u"
      using one_at_a_time [OF ok(1) q' p(1), of t st' now st] sq p(2) by auto
    with sq q' ok(2) show "st' = attemptsByUser ?s (user ?s q) \<and> t \<le> clock ?s \<and>
        (\<forall>a. st' = Some a \<longrightarrow> attempt_ok t a \<and> lockedUntil a \<le> t)"
      unfolding reads_ok_def att ck by simp
  qed
  moreover have "account_ok (Verified ?u now ok # es) ?s v" for v
  proof (cases "v = ?u")
    case True
    show ?thesis
    proof (cases ok)
      case ok: True
      then have "attemptsByUser ?s ?u = None" using att by simp
      then show ?thesis unfolding account_ok_def True using ok by simp
    next
      case False
      then show ?thesis using account_ok_fail [OF ok(3) st, of ?s] att ck True by simp
    qed
  next
    case False
    then have "attemptsByUser ?s v = attemptsByUser s v" unfolding att by simp
    then show ?thesis using False by (intro account_ok_keep [OF ok(3)]) (simp_all add: ck)
  qed
  ultimately show ?thesis using assms(3) ok(4) ck by (simp add: secrets_ok_def)
qed

lemma secrets_ok_verify:
  assumes "secrets_ok es s" "phaseOf s p = Some Running" "queue_ok (beginVerify p s)"
  shows "secrets_ok (Quiet # es) (beginVerify p s)"
proof (cases "assertNotLockedOut (attemptsByUser s) (user s p) (clock s)")
  case None
  let ?s = "setPhase p (Checking (clock s) (attemptsByUser s (user s p))) s"
  have eq: "beginVerify p s = ?s" using None by (simp add: beginVerify_def Let_def)
  have p: "issued s p" using assms(2) by (simp add: phaseOf_Some)
  have ok: "reads_ok s" "account_ok es s v" "0 \<le> clock s" for v using assms(1) by (simp_all add: secrets_ok_def)
  have "attempt_ok (clock s) a \<and> lockedUntil a \<le> clock s" if "attemptsByUser s (user s p) = Some a" for a
    using None that ok(2) [of "user s p"] by (auto simp: assertNotLockedOut_def account_ok_def split: if_splits)
  with ok(1) p have "reads_ok ?s" unfolding reads_ok_def by auto
  moreover have "account_ok (Quiet # es) ?s v" for v by (rule account_ok_keep [OF ok(2)]) simp_all
  ultimately show ?thesis using assms(3) ok(3) unfolding eq secrets_ok_def by auto
next
  case (Some n)
  then show ?thesis using assms by (intro secrets_ok_keep) (auto simp: beginVerify_def Let_def)
qed

lemma secrets_ok_step:
  assumes "secret_step s e s'" "secrets_ok es s"
  shows "secrets_ok (e # es) s'"
proof -
  have q: "queue_ok s'" using assms by (auto simp: secrets_ok_def intro: queue_ok_step)
  from assms(1) show ?thesis
  proof (cases rule: secret_step.cases)
    case (enter u)
    show ?thesis unfolding enter(1)
      using assms(2) q unfolding enter(2)
      by (rule secrets_ok_keep) (auto simp: enterCheck_def nth_append less_Suc_eq split: if_splits)
  next
    case (start_first p)
    then show ?thesis using assms(2) q startCheck_simps [of p s]
      by (auto intro!: secrets_ok_keep simp: phaseOf_Some split: if_splits)
  next
    case (start_next p r)
    then show ?thesis using assms(2) q startCheck_simps [of p s]
      by (auto intro!: secrets_ok_keep simp: phaseOf_Some split: if_splits)
  next
    case (verify p)
    then show ?thesis using assms(2) q by (auto intro: secrets_ok_verify)
  next
    case (settle p now st ok)
    then show ?thesis using assms(2) q by (auto intro: secrets_ok_settle)
  next
    case (finish p)
    then show ?thesis using assms(2) q
      by (auto intro!: secrets_ok_keep simp: phaseOf_Some finishCheck_simps split: if_splits)
  next
    case (tick d)
    then show ?thesis using assms(2) q by (auto intro!: secrets_ok_keep)
  qed
qed

lemma secrets_ok_run:
  assumes "secret_run t0 es s" "0 \<le> t0"
  shows "secrets_ok es s"
  using assms(1)
proof (induction rule: secret_run.induct)
  case boot
  have "queue_ok (initSecrets t0)" by (rule queue_ok_run [OF secret_run.boot])
  then show ?case
    using assms(2) by (simp add: secrets_ok_def reads_ok_def account_ok_def initSecrets_def)
qed (rule secrets_ok_step)

section \<open>Properties\<close>

text \<open>
  Secret checks of one account never overlap and keep their order of arrival, however the calls of
  all accounts interleave: once a call has passed its wait, every earlier call of that account has finished.
\<close>

theorem secret_checks_serial:
  assumes "secret_run t0 es s" "phaseOf s q = Some ph" "\<nexists>r. ph = Awaiting r"
    and "p < q" "user s p = user s q"
  shows "phaseOf s p = Some Done"
proof -
  have "first_in_line s q"
    using queue_ok_run [OF assms(1)] assms(2,3) by (auto simp: phaseOf_Some intro!: past_wait_first)
  with assms(2,4,5) show ?thesis by (auto simp: first_in_line_def phaseOf_Some)
qed

lemma example_serial:
  "\<exists>s. secret_run 0 [Quiet, Quiet, Quiet, Quiet, Quiet] s \<and> phaseOf s 1 = Some Running \<and>
     user s 0 = ''ann'' \<and> user s 1 = ''ann''"
proof -
  let ?s = "initSecrets 0"
  note step = secret_run.more [OF _ secret_step.enter] secret_run.more [OF _ secret_step.start_first]
    secret_run.more [OF _ secret_step.finish] secret_run.more [OF _ secret_step.start_next]
  have "secret_run 0 [Quiet, Quiet] (enterCheck ''ann'' (enterCheck ''ann'' ?s))"
    by (intro step(1) secret_run.boot)
  from step(2) [OF this, of 0]
  have "secret_run 0 [Quiet, Quiet, Quiet] (startCheck 0 (enterCheck ''ann'' (enterCheck ''ann'' ?s)))"
    by (simp add: phaseOf_Some enterCheck_def initSecrets_def)
  from step(3) [OF this, of 0]
  have run: "secret_run 0 [Quiet, Quiet, Quiet, Quiet] (finishCheck 0 (startCheck 0 (enterCheck ''ann'' (enterCheck ''ann'' ?s))))"
    by (simp add: phaseOf_Some enterCheck_def initSecrets_def startCheck_def assertNotLockedOut_def setPhase_def)
  have "phaseOf (finishCheck 0 (startCheck 0 (enterCheck ''ann'' (enterCheck ''ann'' ?s)))) 1 = Some (Awaiting (Some 0))"
    "phaseOf (finishCheck 0 (startCheck 0 (enterCheck ''ann'' (enterCheck ''ann'' ?s)))) 0 = Some Done"
    by (simp_all add: phaseOf_Some enterCheck_def initSecrets_def startCheck_def assertNotLockedOut_def setPhase_def
        finishCheck_def Let_def)
  from step(4) [OF run this] show ?thesis
    by (intro exI [of _ "startCheck 1 (finishCheck 0 (startCheck 0 (enterCheck ''ann'' (enterCheck ''ann'' ?s))))"])
       (simp add: phaseOf_Some enterCheck_def initSecrets_def startCheck_def assertNotLockedOut_def setPhase_def
        finishCheck_def Let_def)
qed

theorem secret_checks_serial_witness:
  "\<exists>s. secret_run 0 [Quiet, Quiet, Quiet, Quiet, Quiet] s \<and> phaseOf s 1 = Some Running \<and> phaseOf s 0 = Some Done"
proof -
  obtain s where "secret_run 0 [Quiet, Quiet, Quiet, Quiet, Quiet] s" "phaseOf s 1 = Some Running"
    "user s 0 = ''ann''" "user s 1 = ''ann''"
    using example_serial by blast
  with secret_checks_serial [of 0 _ s 1 Running 0] show ?thesis by auto
qed

text \<open>
  C21. The limit on guessing. Whatever mixture of calls, waits and accounts an attacker uses, the failed
  checks of one account since its last success, beyond the first ten, take at least 34 minutes for every
  nine: \<open>n\<close> failures span at least \<open>(n - 10) * 34 / 9\<close> minutes.
\<close>

theorem secret_guess_rate:
  assumes "secret_run t0 es s" "0 \<le> t0" "failuresSince u es = t # ts"
  shows "34 * 60000 * (int (length (t # ts)) - 10) \<le> 9 * (t - last (t # ts))"
proof -
  have "account_ok es s u" using secrets_ok_run [OF assms(1,2)] by (simp add: secrets_ok_def)
  then obtain a where "attempt_ok (clock s) a" "lastFailureAt a = t"
    "within_budget (length ts + 1) (failureCount a) (t - last (t # ts))"
    using assms(3) unfolding account_ok_def by (auto split: option.splits)
  then show ?thesis unfolding within_budget_def attempt_ok_def by simp
qed

lemma example_failure:
  "\<exists>s. secret_run 0 [Verified ''ann'' 0 False, Quiet, Quiet, Quiet] s \<and>
     attemptsByUser s ''ann'' = Some \<lparr>failureCount = 1, lastFailureAt = 0, lockedUntil = 0\<rparr>"
proof -
  let ?s = "initSecrets 0"
  have "secret_run 0 [Quiet] (enterCheck ''ann'' ?s)"
    by (intro secret_run.more [OF _ secret_step.enter] secret_run.boot)
  from secret_run.more [OF this secret_step.start_first, of 0]
  have "secret_run 0 [Quiet, Quiet] (startCheck 0 (enterCheck ''ann'' ?s))"
    by (simp add: phaseOf_Some enterCheck_def initSecrets_def)
  from secret_run.more [OF this secret_step.verify, of 0]
  have run: "secret_run 0 [Quiet, Quiet, Quiet] (beginVerify 0 (startCheck 0 (enterCheck ''ann'' ?s)))"
    by (simp add: phaseOf_Some enterCheck_def initSecrets_def startCheck_def assertNotLockedOut_def setPhase_def)
  have "phaseOf (beginVerify 0 (startCheck 0 (enterCheck ''ann'' ?s))) 0 = Some (Checking 0 None)"
    "user (beginVerify 0 (startCheck 0 (enterCheck ''ann'' ?s))) 0 = ''ann''"
    by (simp_all add: phaseOf_Some enterCheck_def initSecrets_def startCheck_def assertNotLockedOut_def setPhase_def
        beginVerify_def Let_def)
  from secret_run.more [OF run secret_step.settle [OF this(1), of False]] this(2) show ?thesis
    by (intro exI [of _ "endVerify 0 0 None False (beginVerify 0 (startCheck 0 (enterCheck ''ann'' ?s)))"])
       (simp add: endVerify_def Let_def recordFailure_first)
qed

theorem secret_guess_rate_witness:
  "\<exists>s. secret_run 0 [Verified ''ann'' 0 False, Quiet, Quiet, Quiet] s \<and>
     34 * 60000 * (int (length (failuresSince ''ann'' [Verified ''ann'' 0 False, Quiet, Quiet, Quiet])) - 10) \<le> 9 * (0 - 0)"
  using example_failure secret_guess_rate [of 0 "[Verified ''ann'' 0 False, Quiet, Quiet, Quiet]" _ "''ann''" 0 "[]"]
  by auto

text \<open>
  C40. A lockout never lasts longer than an hour, and the count never passes ten: the hour that follows the
  tenth failure is longer than the half hour after which failures are forgotten, so the tier of fifteen
  failures and a day is never reached.
\<close>

theorem lockout_at_most_an_hour:
  assumes "secret_run t0 es s" "0 \<le> t0" "attemptsByUser s u = Some a"
  shows "failureCount a \<le> 10 \<and> assertNotLockedOut (attemptsByUser s) u (clock s) \<notin> Some ` {n. n > 3600}"
proof -
  have "account_ok es s u" "0 \<le> clock s" using secrets_ok_run [OF assms(1,2)] by (simp_all add: secrets_ok_def)
  then have "attempt_ok (clock s) a" "0 \<le> clock s" using assms(3) by (auto simp: account_ok_def)
  then have "failureCount a \<le> 10" "lockedUntil a \<le> clock s + 60 * minute"
    by (auto simp: attempt_ok_def lookupLockoutMs_tiers split: if_splits)
  then show ?thesis using assms(3) by (auto simp: assertNotLockedOut_def)
qed

theorem lockout_at_most_an_hour_witness:
  "\<exists>s a. secret_run 0 [Verified ''ann'' 0 False, Quiet, Quiet, Quiet] s \<and> attemptsByUser s ''ann'' = Some a \<and>
     failureCount a \<le> 10 \<and> assertNotLockedOut (attemptsByUser s) ''ann'' (clock s) \<notin> Some ` {n. n > 3600}"
proof -
  obtain s where "secret_run 0 [Verified ''ann'' 0 False, Quiet, Quiet, Quiet] s"
    "attemptsByUser s ''ann'' = Some \<lparr>failureCount = 1, lastFailureAt = 0, lockedUntil = 0\<rparr>"
    using example_failure by blast
  with lockout_at_most_an_hour [OF this(1) _ this(2)] show ?thesis by auto
qed

end
