(* ===== verification/JobQueue.thy ===== *)
theory JobQueue
  imports Frameleaf_Prelude
begin

text \<open>
  The local execution control of the job queue (\<open>server/src/queue\<close>).

  \<^item> \<open>admission.ts\<close>: the class \<open>QueueAdmission\<close>, which bounds how many jobs run at once. Its fields are the
    record \<open>queueAdmission\<close>; the \<open>waiting\<close> set is a list in insertion order. A call of \<open>acquire\<close> is a
    ticket, whose life is the map \<open>tickets\<close>: \<open>Waiting\<close> while its promise is pending, \<open>Granted\<close> from the
    grant to the moment its continuation resumes (an abort can arrive in between), \<open>Holding\<close> once its
    \<open>release\<close> is returned, \<open>Ended\<close> after a refusal or the release.
  \<^item> \<open>coalesced-task.ts\<close>: \<open>coalescedTask\<close>, one visit at a time with one more when asked meanwhile.
  \<^item> \<open>watchdog.ts\<close>: the class \<open>QueueWatchdog\<close>, the deadline policy of running jobs.
  \<^item> \<open>dependency.ts\<close>: which refusals make a job wait, and for what.
\<close>

section \<open>Admission\<close>

definition QUEUE_BATCH :: nat where
  "QUEUE_BATCH = 250"

datatype ticketState = Waiting | Granted bool | Holding | Ended

record queueAdmission =
  active :: nat
  waiting :: "nat list"
  capacity :: nat
  tickets :: "nat \<rightharpoonup> ticketState"

definition newAdmission :: "nat \<Rightarrow> queueAdmission" where
  "newAdmission n = \<lparr>active = 0, waiting = [], capacity = n, tickets = Map.empty\<rparr>"

text \<open>\<open>grant\<close>: the waiter's promise resolves and its abort listener goes.\<close>

definition grant :: "nat \<Rightarrow> queueAdmission \<Rightarrow> queueAdmission" where
  "grant t q = q\<lparr>tickets := (tickets q)(t \<mapsto> Granted False)\<rparr>"

text \<open>The loop of \<open>resize\<close>.\<close>

fun grantLoop :: "nat list \<Rightarrow> queueAdmission \<Rightarrow> queueAdmission" where
  "grantLoop [] q = q"
| "grantLoop (t # ts) q =
     (if active q < capacity q then grantLoop ts (grant t (q\<lparr>waiting := ts, active := active q + 1\<rparr>)) else q)"

definition resize :: "nat \<Rightarrow> queueAdmission \<Rightarrow> queueAdmission" where
  "resize n q = grantLoop (waiting q) (q\<lparr>capacity := n\<rparr>)"

datatype admissionError = Aborted | QueueAdmissionFull

text \<open>
  \<open>acquire\<close> up to its first await: the ticket \<open>t\<close> is new. \<open>Inr\<close> carries the new state, in which the ticket
  holds a slot or waits; a throw leaves the admission as it was.
\<close>

definition acquire :: "nat \<Rightarrow> bool \<Rightarrow> queueAdmission \<Rightarrow> admissionError + queueAdmission" where
  "acquire t aborted q =
     (if aborted then Inl Aborted
      else if capacity q \<le> active q then
        (if QUEUE_BATCH \<le> length (waiting q) then Inl QueueAdmissionFull
         else Inr (q\<lparr>waiting := waiting q @ [t], tickets := (tickets q)(t \<mapsto> Waiting)\<rparr>))
      else Inr (q\<lparr>active := active q + 1, tickets := (tickets q)(t \<mapsto> Holding)\<rparr>))"

text \<open>\<open>release\<close>: a second call, or one after the end, does nothing.\<close>

definition release :: "nat \<Rightarrow> queueAdmission \<Rightarrow> queueAdmission" where
  "release t q =
     (if tickets q t = Some Ended then q
      else let q = q\<lparr>tickets := (tickets q)(t \<mapsto> Ended)\<rparr>
           in case (if active q \<le> capacity q then waiting q else []) of
                next # rest \<Rightarrow> grant next (q\<lparr>waiting := rest\<rparr>)
              | [] \<Rightarrow> q\<lparr>active := active q - 1\<rparr>)"

text \<open>An abort: a waiter leaves the queue, a granted call will see it when it resumes.\<close>

definition abort :: "nat \<Rightarrow> queueAdmission \<Rightarrow> queueAdmission" where
  "abort t q =
     (case tickets q t of
        Some Waiting \<Rightarrow> q\<lparr>waiting := removeAll t (waiting q), tickets := (tickets q)(t \<mapsto> Ended)\<rparr>
      | Some (Granted _) \<Rightarrow> q\<lparr>tickets := (tickets q)(t \<mapsto> Granted True)\<rparr>
      | _ \<Rightarrow> q)"

text \<open>The continuation after a grant: an aborted call gives its slot back at once.\<close>

definition resume :: "nat \<Rightarrow> bool \<Rightarrow> queueAdmission \<Rightarrow> queueAdmission" where
  "resume t aborted q = (if aborted then release t q else q\<lparr>tickets := (tickets q)(t \<mapsto> Holding)\<rparr>)"

text \<open>
  Every interleaving of the calls on one admission object. \<open>run\<close> adds nothing to them: it holds its slot
  from \<open>acquire\<close> to the \<open>release\<close> of its \<open>finally\<close> block.
\<close>

datatype admissionEvent = Resize nat | Acquire nat | Refuse nat | Abort nat | Resume nat | Release nat

inductive admission_step :: "queueAdmission \<Rightarrow> admissionEvent \<Rightarrow> queueAdmission \<Rightarrow> bool" where
  resizes: "admission_step q (Resize n) (resize n q)"
| acquires: "tickets q t = None \<Longrightarrow> acquire t aborted q = Inr q' \<Longrightarrow> admission_step q (Acquire t) q'"
| refuses: "tickets q t = None \<Longrightarrow> acquire t aborted q = Inl e \<Longrightarrow>
    admission_step q (Refuse t) (q\<lparr>tickets := (tickets q)(t \<mapsto> Ended)\<rparr>)"
| aborts: "admission_step q (Abort t) (abort t q)"
| resumes: "tickets q t = Some (Granted aborted) \<Longrightarrow> admission_step q (Resume t) (resume t aborted q)"
| releases: "tickets q t \<in> {Some Holding, Some Ended} \<Longrightarrow> admission_step q (Release t) (release t q)"

inductive_cases admission_stepE: "admission_step q e q'"

inductive admission_run :: "nat \<Rightarrow> admissionEvent list \<Rightarrow> queueAdmission \<Rightarrow> bool" for n where
  start: "admission_run n [] (newAdmission n)"
| step: "admission_run n es q \<Longrightarrow> admission_step q e q' \<Longrightarrow> admission_run n (e # es) q'"

section \<open>Coalesced visits\<close>

text \<open>
  The closure's two variables, with \<open>visiting\<close> for \<open>active !== undefined\<close>. \<open>starts\<close> counts the calls of the
  action, \<open>finished\<close> those that returned, \<open>failed\<close> those that threw.
\<close>

record coalesced =
  visiting :: bool
  requested :: bool
  starts :: nat

definition coalescedTask :: coalesced where
  "coalescedTask = \<lparr>visiting = False, requested = False, starts = 0\<rparr>"

text \<open>A request: \<open>requested\<close> is set, and the loop is entered when none runs, which starts the action.\<close>

definition request :: "coalesced \<Rightarrow> coalesced" where
  "request c = (if visiting c then c\<lparr>requested := True\<rparr> else \<lparr>visiting = True, requested = False, starts = starts c + 1\<rparr>)"

text \<open>The action returns: the loop goes round while a request came meanwhile, else ends.\<close>

definition visited :: "coalesced \<Rightarrow> coalesced" where
  "visited c = (if requested c then c\<lparr>requested := False, starts := starts c + 1\<rparr> else c\<lparr>visiting := False\<rparr>)"

text \<open>The action throws: the loop ends at once.\<close>

definition visit_failed :: "coalesced \<Rightarrow> coalesced" where
  "visit_failed c = c\<lparr>visiting := False\<rparr>"

section \<open>Watchdog\<close>

record watchdogTiming =
  noProgressDeadline :: int
  lease :: int
  cancelGrace :: int

record watchdogEntry =
  started :: int
  progressAt :: int
  units :: int
  deadline :: int
  cancelAt :: "int option"

type_synonym watchdog = "(string \<times> watchdogEntry) list"

text \<open>\<open>Map.set\<close> keeps the place of a key it replaces.\<close>

fun map_set :: "'k \<Rightarrow> 'v \<Rightarrow> ('k \<times> 'v) list \<Rightarrow> ('k \<times> 'v) list" where
  "map_set k v [] = [(k, v)]"
| "map_set k v ((k', v') # m) = (if k' = k then (k, v) # m else (k', v') # map_set k v m)"

definition watchdog_add :: "string \<Rightarrow> int \<Rightarrow> int \<Rightarrow> watchdog \<Rightarrow> watchdog" where
  "watchdog_add i now d w =
     map_set i \<lparr>started = now, progressAt = now, units = 0, deadline = d, cancelAt = None\<rparr> w"

definition update_entry :: "string \<Rightarrow> (watchdogEntry \<Rightarrow> watchdogEntry) \<Rightarrow> watchdog \<Rightarrow> watchdog" where
  "update_entry i f w = map (\<lambda>(k, e). (k, if k = i then f e else e)) w"

definition watchdog_progress :: "string \<Rightarrow> int \<Rightarrow> int \<Rightarrow> watchdog \<Rightarrow> watchdog" where
  "watchdog_progress i n now w =
     update_entry i (\<lambda>e. if isSafeInteger n \<and> n > units e then e\<lparr>units := n, progressAt := now\<rparr> else e) w"

definition first_set :: "'a \<Rightarrow> 'a option \<Rightarrow> 'a option" where
  "first_set x m = (case m of None \<Rightarrow> Some x | Some y \<Rightarrow> Some y)"

definition watchdog_cancel :: "string \<Rightarrow> int \<Rightarrow> watchdog \<Rightarrow> watchdog" where
  "watchdog_cancel i now w = update_entry i (\<lambda>e. e\<lparr>cancelAt := first_set now (cancelAt e)\<rparr>) w"

definition watchdog_remove :: "string \<Rightarrow> watchdog \<Rightarrow> watchdog" where
  "watchdog_remove i w = filter (\<lambda>(k, e). k \<noteq> i) w"

text \<open>The body of \<open>inspect\<close>'s loop: is this entry to be cancelled now, and with what mark.\<close>

definition overdue :: "watchdogTiming \<Rightarrow> int \<Rightarrow> int \<Rightarrow> watchdogEntry \<Rightarrow> bool" where
  "overdue timing now heartbeat e \<longleftrightarrow>
     (let due = (if units e > 0 then progressAt e + noProgressDeadline timing else started e + deadline e);
          unavailable = now - heartbeat \<ge> lease timing - cancelGrace timing
      in cancelAt e \<noteq> None \<or> now \<ge> due \<or> unavailable)"

fun inspect :: "watchdogTiming \<Rightarrow> int \<Rightarrow> int \<Rightarrow> watchdog \<Rightarrow> watchdog \<times> string list \<times> bool" where
  "inspect timing now heartbeat [] = ([], [], False)"
| "inspect timing now heartbeat ((i, e) # w) =
     (let (w', cancel, terminate) = inspect timing now heartbeat w
      in if overdue timing now heartbeat e then
           (let at' = (case cancelAt e of None \<Rightarrow> now | Some t \<Rightarrow> t)
            in ((i, e\<lparr>cancelAt := Some at'\<rparr>) # w', i # cancel, terminate \<or> now - at' \<ge> cancelGrace timing))
         else ((i, e) # w', cancel, terminate))"

section \<open>Dependencies\<close>

datatype mlAdmissionRefusal =
    DestinationMissing | DestinationDisabled | WorkloadNotRouted | WorkloadNotAllowed | WorkloadNotServed
  | ConsentMissing | DisclosurePending | BudgetExceeded | EndpointUnresolved | DestinationUnhealthy
  | RoleConflict | CloudUnavailable | EntitlementMissing | ConsentVersionOutdated | WalletInsufficient
  | QuotaExceeded | ModelMismatch | InsufficientMemory | RequestInvalid

datatype jobDependencyReason =
    WorkloadDisabled | DestinationIsUnavailable | DestinationCapacity | DestinationConfiguration
  | DestinationConsent | DestinationBudget | SourceUnavailable | LocalCapacity | LockedKeyUnavailable

text \<open>The part of the execution scope the functions read: \<open>undefined\<close> outside a queue execution.\<close>

record queueContext =
  operationId :: bool
  safeToRetry :: bool
  attempt :: nat
  signalAborted :: bool
  dependencyReason :: "jobDependencyReason option"

datatype dependencyThrow = SignalAborted | JobDependencyUnavailable jobDependencyReason

definition deferJobUntilDependency ::
  "jobDependencyReason \<Rightarrow> queueContext option \<Rightarrow> dependencyThrow option \<times> queueContext option" where
  "deferJobUntilDependency reason ctx =
     (case ctx of
        None \<Rightarrow> (None, None)
      | Some c \<Rightarrow>
          if operationId c then (None, ctx)
          else if signalAborted c then (Some SignalAborted, ctx)
          else (Some (JobDependencyUnavailable reason), Some (c\<lparr>dependencyReason := Some reason\<rparr>)))"

definition deferJobOnTransientFailure ::
  "jobDependencyReason \<Rightarrow> nat \<Rightarrow> queueContext option \<Rightarrow> dependencyThrow option \<times> queueContext option" where
  "deferJobOnTransientFailure reason maxAttempts ctx =
     (case ctx of
        None \<Rightarrow> (None, None)
      | Some c \<Rightarrow>
          if \<not> safeToRetry c \<or> attempt c > maxAttempts then (None, ctx)
          else deferJobUntilDependency (case dependencyReason c of Some r \<Rightarrow> r | None \<Rightarrow> reason) ctx)"

definition refusalReason :: "mlAdmissionRefusal \<Rightarrow> jobDependencyReason" where
  "refusalReason refusal =
     (if refusal \<in> {ConsentMissing, ConsentVersionOutdated, DisclosurePending} then DestinationConsent
      else if refusal \<in> {BudgetExceeded, WalletInsufficient, QuotaExceeded} then DestinationBudget
      else if refusal \<in> {DestinationUnhealthy, CloudUnavailable, InsufficientMemory} then DestinationIsUnavailable
      else DestinationConfiguration)"

definition noteAdmissionDependency :: "mlAdmissionRefusal \<Rightarrow> queueContext option \<Rightarrow> queueContext option" where
  "noteAdmissionDependency refusal ctx =
     (case ctx of
        None \<Rightarrow> None
      | Some c \<Rightarrow>
          if \<not> safeToRetry c \<or> operationId c \<or> refusal = RequestInvalid then ctx
          else Some (c\<lparr>dependencyReason := first_set (refusalReason refusal) (dependencyReason c)\<rparr>))"

section \<open>Lemmas on admission\<close>

definition slots :: "queueAdmission \<Rightarrow> nat set" where
  "slots q = {t. tickets q t = Some Holding \<or> (\<exists>b. tickets q t = Some (Granted b))}"

text \<open>What holds at every moment, even inside the loop of \<open>resize\<close>.\<close>

definition slots_ok :: "queueAdmission \<Rightarrow> bool" where
  "slots_ok q \<longleftrightarrow> finite (slots q) \<and> card (slots q) = active q \<and> distinct (waiting q) \<and>
     (\<forall>t. t \<in> set (waiting q) \<longleftrightarrow> tickets q t = Some Waiting) \<and> length (waiting q) \<le> QUEUE_BATCH"

definition admission_ok :: "queueAdmission \<Rightarrow> bool" where
  "admission_ok q \<longleftrightarrow> slots_ok q \<and> (waiting q \<noteq> [] \<longrightarrow> capacity q \<le> active q)"

lemma slots_update:
  "slots (q\<lparr>tickets := (tickets q)(t \<mapsto> st)\<rparr>) =
     (if st = Holding \<or> (\<exists>b. st = Granted b) then insert t (slots q) else slots q - {t})"
  by (auto simp: slots_def)

lemma slots_fields [simp]:
  "slots (q\<lparr>waiting := w\<rparr>) = slots q" "slots (q\<lparr>active := a\<rparr>) = slots q" "slots (q\<lparr>capacity := c\<rparr>) = slots q"
  by (simp_all add: slots_def)

lemma slots_cong: "tickets q = tickets q' \<Longrightarrow> slots q = slots q'"
  by (simp add: slots_def)

lemma waiting_no_slot: "tickets q t = Some Waiting \<Longrightarrow> t \<notin> slots q"
  by (simp add: slots_def)

text \<open>The head of the queue is granted: with a new slot, or with the one its owner gives up.\<close>

lemma slots_ok_grant_new:
  assumes "slots_ok q" "waiting q = t # ts"
  shows "slots_ok (grant t (q\<lparr>waiting := ts, active := active q + 1\<rparr>))"
proof -
  have t: "tickets q t = Some Waiting" using assms by (auto simp: slots_ok_def)
  have s: "slots (grant t (q\<lparr>waiting := ts, active := active q + 1\<rparr>)) = insert t (slots q)"
    by (auto simp: slots_def grant_def)
  have w: "u \<in> set ts \<longleftrightarrow> tickets q u = Some Waiting \<and> u \<noteq> t" for u
    using assms unfolding slots_ok_def by (metis distinct.simps(2) list.set_intros(1) list.set_intros(2) set_ConsD)
  show ?thesis
    using assms s waiting_no_slot [OF t] unfolding slots_ok_def
    by (auto simp: grant_def w)
qed

lemma slots_ok_hand_over:
  assumes "slots_ok q" "waiting q = t # ts" "u \<in> slots q"
  shows "slots_ok (grant t (q\<lparr>tickets := (tickets q)(u \<mapsto> Ended), waiting := ts\<rparr>))"
proof -
  have t: "tickets q t = Some Waiting" using assms by (auto simp: slots_ok_def)
  then have tu: "t \<noteq> u" "t \<notin> slots q" using assms(3) by (auto simp: slots_def)
  have s: "slots (grant t (q\<lparr>tickets := (tickets q)(u \<mapsto> Ended), waiting := ts\<rparr>)) = insert t (slots q - {u})"
    using tu by (auto simp: slots_def grant_def)
  have w: "v \<in> set ts \<longleftrightarrow> tickets q v = Some Waiting \<and> v \<noteq> t" for v
    using assms unfolding slots_ok_def by (metis distinct.simps(2) list.set_intros(1) list.set_intros(2) set_ConsD)
  have "card (insert t (slots q - {u})) = card (slots q)"
    using assms(1,3) tu card_Suc_Diff1 [of "slots q" u] by (simp add: slots_ok_def del: card_Diff_insert)
  moreover have "tickets q u \<noteq> Some Waiting" using assms(3) by (auto simp: slots_def)
  ultimately show ?thesis
    using assms s unfolding slots_ok_def by (auto simp: grant_def w)
qed

lemma slots_ok_give_up:
  assumes "slots_ok q" "u \<in> slots q"
  shows "slots_ok (q\<lparr>tickets := (tickets q)(u \<mapsto> Ended), active := active q - 1\<rparr>)"
proof -
  have s: "slots (q\<lparr>tickets := (tickets q)(u \<mapsto> Ended), active := active q - 1\<rparr>) = slots q - {u}"
    by (auto simp: slots_def)
  have "tickets q u \<noteq> Some Waiting" using assms(2) by (auto simp: slots_def)
  with assms s show ?thesis unfolding slots_ok_def by auto
qed

lemma active_pos: "slots_ok q \<Longrightarrow> u \<in> slots q \<Longrightarrow> 0 < active q"
  unfolding slots_ok_def by (metis card_gt_0_iff empty_iff)

lemma release_cases:
  assumes "u \<in> slots q"
  obtains t ts where "active q \<le> capacity q" "waiting q = t # ts"
      "release u q = grant t (q\<lparr>tickets := (tickets q)(u \<mapsto> Ended), waiting := ts\<rparr>)"
  | "active q \<le> capacity q \<longrightarrow> waiting q = []"
      "release u q = q\<lparr>tickets := (tickets q)(u \<mapsto> Ended), active := active q - 1\<rparr>"
proof -
  have "tickets q u \<noteq> Some Ended" using assms by (auto simp: slots_def)
  then show ?thesis
    using that by (cases "active q \<le> capacity q"; cases "waiting q") (auto simp: release_def Let_def)
qed

lemma admission_ok_release [keeps]:
  assumes "admission_ok q" "u \<in> slots q"
  shows "admission_ok (release u q)"
proof -
  have ok: "slots_ok q" "waiting q \<noteq> [] \<longrightarrow> capacity q \<le> active q" using assms(1) by (auto simp: admission_ok_def)
  from assms(2) show ?thesis
  proof (cases rule: release_cases)
    case (1 t ts)
    with slots_ok_hand_over [OF ok(1) 1(2) assms(2)] ok(2) show ?thesis
      by (simp add: admission_ok_def) (simp add: grant_def)
  next
    case 2
    with slots_ok_give_up [OF ok(1) assms(2)] ok(2) show ?thesis by (auto simp: admission_ok_def)
  qed
qed

lemma grantLoop_ok:
  assumes "slots_ok q" "ts = waiting q"
  shows "admission_ok (grantLoop ts q)"
  using assms
proof (induction ts q rule: grantLoop.induct)
  case (2 t ts q)
  show ?case
  proof (cases "active q < capacity q")
    case True
    have "slots_ok (grant t (q\<lparr>waiting := ts, active := active q + 1\<rparr>))"
      using 2(2) 2(3) [symmetric] by (rule slots_ok_grant_new)
    then have "admission_ok (grantLoop ts (grant t (q\<lparr>waiting := ts, active := active q + 1\<rparr>)))"
      using True by (intro 2(1)) (simp_all add: grant_def)
    with True show ?thesis by simp
  next
    case False
    with 2(2) show ?thesis by (simp add: admission_ok_def)
  qed
qed (simp add: admission_ok_def)

lemma admission_ok_resize [keeps]: "admission_ok q \<Longrightarrow> admission_ok (resize n q)"
  unfolding resize_def by (rule grantLoop_ok) (auto simp: admission_ok_def slots_ok_def)

lemma admission_ok_acquire [keeps]:
  assumes "admission_ok q" "tickets q t = None" "acquire t aborted q = Inr q'"
  shows "admission_ok q'"
proof -
  have ok: "slots_ok q" "waiting q \<noteq> [] \<longrightarrow> capacity q \<le> active q" using assms(1) by (auto simp: admission_ok_def)
  have t: "t \<notin> slots q" "t \<notin> set (waiting q)" using assms(2) ok(1) by (auto simp: slots_def slots_ok_def)
  show ?thesis
  proof (cases "capacity q \<le> active q")
    case True
    then have q': "q' = q\<lparr>waiting := waiting q @ [t], tickets := (tickets q)(t \<mapsto> Waiting)\<rparr>"
      and room: "length (waiting q) < QUEUE_BATCH"
      using assms(3) by (auto simp: acquire_def split: if_splits)
    have "slots q' = slots q" using t unfolding q' by (auto simp: slots_def)
    with ok t room True show ?thesis unfolding q' by (auto simp: admission_ok_def slots_ok_def)
  next
    case False
    then have q': "q' = q\<lparr>active := active q + 1, tickets := (tickets q)(t \<mapsto> Holding)\<rparr>"
      using assms(3) by (auto simp: acquire_def split: if_splits)
    have "slots q' = insert t (slots q)" unfolding q' by (auto simp: slots_def)
    with ok t False show ?thesis unfolding q' by (auto simp: admission_ok_def slots_ok_def)
  qed
qed

lemma admission_ok_same_kind:
  assumes "admission_ok q" "t \<in> slots q" "st = Holding \<or> (\<exists>b. st = Granted b)"
  shows "admission_ok (q\<lparr>tickets := (tickets q)(t \<mapsto> st)\<rparr>)"
proof -
  have "slots (q\<lparr>tickets := (tickets q)(t \<mapsto> st)\<rparr>) = slots q" using assms(2,3) by (auto simp: slots_update)
  moreover have "tickets q t \<noteq> Some Waiting" "st \<noteq> Waiting" using assms(2,3) by (auto simp: slots_def)
  ultimately show ?thesis using assms(1) by (auto simp: admission_ok_def slots_ok_def)
qed

lemma admission_ok_abort [keeps]:
  assumes "admission_ok q"
  shows "admission_ok (abort t q)"
proof (cases "tickets q t = Some Waiting")
  case True
  have "slots (q\<lparr>waiting := removeAll t (waiting q), tickets := (tickets q)(t \<mapsto> Ended)\<rparr>) = slots q"
    using True by (auto simp: slots_def)
  moreover have "length (removeAll t (waiting q)) \<le> QUEUE_BATCH" "removeAll t (waiting q) \<noteq> [] \<longrightarrow> waiting q \<noteq> []"
    using assms by (auto simp: admission_ok_def slots_ok_def removeAll_filter_not_eq intro: order_trans [OF length_filter_le])
  ultimately show ?thesis
    using assms True by (auto simp: abort_def admission_ok_def slots_ok_def distinct_removeAll)
next
  case False
  then show ?thesis
    using assms admission_ok_same_kind [OF assms, of t "Granted True"]
    by (auto simp: abort_def slots_def split: option.split ticketState.split)
qed

lemma admission_ok_step:
  assumes "admission_step q e q'" "admission_ok q"
  shows "admission_ok q'"
  using assms
proof (cases rule: admission_step.cases)
  case (refuses t aborted e)
  moreover have "slots (q\<lparr>tickets := (tickets q)(t \<mapsto> Ended)\<rparr>) = slots q"
    using refuses(3) by (auto simp: slots_def)
  ultimately show ?thesis using assms(2) by (auto simp: admission_ok_def slots_ok_def)
next
  case (resumes t aborted)
  then have "t \<in> slots q" by (auto simp: slots_def)
  with assms(2) resumes show ?thesis
    by (auto simp: resume_def intro: keeps admission_ok_same_kind)
next
  case (releases t)
  then show ?thesis
    using admission_ok_release [OF assms(2), of t] assms(2) by (auto simp: slots_def release_def)
qed (auto intro: keeps)

lemma admission_ok_run: "admission_run n es q \<Longrightarrow> admission_ok q"
proof (induction rule: admission_run.induct)
  case start
  show ?case by (simp add: newAdmission_def admission_ok_def slots_ok_def slots_def)
qed (rule admission_ok_step)

text \<open>How a step moves the count and the capacity.\<close>

lemma grantLoop_fields:
  "capacity (grantLoop ts q) = capacity q" "active (grantLoop ts q) \<le> max (active q) (capacity q)"
  by (induction ts q rule: grantLoop.induct) (auto simp: grant_def)

lemma release_fields: "capacity (release u q) = capacity q" "active (release u q) \<le> active q"
  by (auto simp: release_def Let_def grant_def split: list.split)

lemma admission_step_fields:
  assumes "admission_step q e q'"
  shows "capacity q' = (case e of Resize m \<Rightarrow> m | _ \<Rightarrow> capacity q)" "active q' \<le> max (active q) (capacity q')"
  using assms
  by (cases rule: admission_step.cases;
      auto simp: resize_def grantLoop_fields [of _ "q\<lparr>capacity := _\<rparr>", simplified] acquire_def abort_def resume_def
        release_fields max.coboundedI1 intro: order_trans [OF release_fields(2)]
        split: if_splits option.splits ticketState.splits)+

lemma admission_run_bound:
  assumes "admission_run n es q" "n \<le> c" "\<And>m. Resize m \<in> set es \<Longrightarrow> m \<le> c"
  shows "active q \<le> c \<and> capacity q \<le> c"
  using assms
proof (induction rule: admission_run.induct)
  case start
  then show ?case by (simp add: newAdmission_def)
next
  case (step es q e q')
  then have q: "active q \<le> c" "capacity q \<le> c" by auto
  moreover have "capacity q' \<le> c"
    using admission_step_fields(1) [OF step(2)] q(2) step.prems by (cases e) auto
  ultimately show ?case using admission_step_fields(2) [OF step(2)] by linarith
qed

text \<open>
  C25. Slots are neither leaked nor duplicated. In every interleaving of calls, aborts, resizes and repeated
  releases, the count is the number of calls that hold a slot, it never passes the largest capacity that
  was set, at most 250 calls wait, and nobody waits while a slot is free.
\<close>

theorem admission_slots_exact:
  assumes "admission_run n es q" "n \<le> c" "\<And>m. Resize m \<in> set es \<Longrightarrow> m \<le> c"
  shows "finite (slots q) \<and> card (slots q) = active q \<and> active q \<le> c \<and> length (waiting q) \<le> 250 \<and>
    (active q < capacity q \<longrightarrow> waiting q = [])"
  using admission_ok_run [OF assms(1)] admission_run_bound [OF assms]
  by (auto simp: admission_ok_def slots_ok_def QUEUE_BATCH_def)

lemma example_admission:
  "admission_run 1 [Acquire 1, Acquire 0] \<lparr>active = 1, waiting = [1], capacity = 1,
     tickets = [0 \<mapsto> Holding, 1 \<mapsto> Waiting]\<rparr>"
proof -
  let ?q = "\<lparr>active = 1, waiting = [], capacity = 1, tickets = [0 \<mapsto> Holding]\<rparr>"
  have "acquire 0 False (newAdmission 1) = Inr ?q" by (simp add: acquire_def newAdmission_def)
  from admission_run.step [OF admission_run.start admission_step.acquires [OF _ this]]
  have run: "admission_run 1 [Acquire 0] ?q" by (simp add: newAdmission_def)
  have "acquire 1 False ?q =
      Inr \<lparr>active = 1, waiting = [1], capacity = 1, tickets = [0 \<mapsto> Holding, 1 \<mapsto> Waiting]\<rparr>"
    by (simp add: acquire_def QUEUE_BATCH_def)
  from admission_run.step [OF run admission_step.acquires [OF _ this]] show ?thesis by simp
qed

theorem admission_slots_exact_witness:
  "card (slots \<lparr>active = 1, waiting = [1], capacity = 1, tickets = [0 \<mapsto> Holding, 1 \<mapsto> Waiting]\<rparr>) = 1"
  using admission_slots_exact [OF example_admission, of 1] by simp

text \<open>How many slots must come free before a waiter is served.\<close>

definition rank :: "nat \<Rightarrow> queueAdmission \<Rightarrow> nat" where
  "rank t q = length (takeWhile (\<lambda>u. u \<noteq> t) (waiting q)) + (active q - capacity q)"

lemma rank_removeAll:
  "length (takeWhile (\<lambda>u. u \<noteq> t) (removeAll v ws)) \<le> length (takeWhile (\<lambda>u. u \<noteq> t) ws)" if "v \<noteq> t"
  using that by (induction ws) auto

lemma release_moves_up:
  assumes "admission_ok q" "u \<in> slots q" "tickets q t = Some Waiting"
  shows "(tickets (release u q) t = Some Waiting \<and> rank t (release u q) < rank t q) \<or>
    tickets (release u q) t = Some (Granted False)"
proof -
  have t: "t \<in> set (waiting q)" "t \<noteq> u" and full: "capacity q \<le> active q"
    using assms by (auto simp: admission_ok_def slots_ok_def slots_def)
  from assms(2) show ?thesis
  proof (cases rule: release_cases)
    case (1 v vs)
    with t full assms(3) show ?thesis by (cases "v = t") (auto simp: grant_def rank_def)
  next
    case 2
    with t full assms(3) show ?thesis by (auto simp: rank_def)
  qed
qed

text \<open>
  C38. Waiters are served in order and none is starved. Every event other than a resize either leaves a
  waiting call waiting and no further from its turn, or grants it, or is its own abort; and every release
  of a held slot moves it one step nearer its turn or grants it.
\<close>

theorem admission_waiter_progress:
  assumes "admission_run n es q" "tickets q t = Some Waiting" "admission_step q e q'" "\<nexists>m. e = Resize m"
  shows "tickets q' t = Some (Granted False) \<or> (e = Abort t \<and> tickets q' t = Some Ended) \<or>
    (tickets q' t = Some Waiting \<and> rank t q' \<le> rank t q \<and>
      (\<forall>u. e = Release u \<longrightarrow> tickets q u = Some Holding \<longrightarrow> rank t q' < rank t q))"
proof -
  have ok: "admission_ok q" by (rule admission_ok_run [OF assms(1)])
  note up = release_moves_up [OF ok _ assms(2)]
  have t: "t \<in> set (waiting q)" and full: "capacity q \<le> active q"
    using ok assms(2) by (auto simp: admission_ok_def slots_ok_def)
  from assms(3) show ?thesis
  proof (cases rule: admission_step.cases)
    case (resizes n)
    with assms(4) show ?thesis by simp
  next
    case (acquires v aborted)
    with full assms(2) t show ?thesis
      by (auto simp: acquire_def rank_def takeWhile_append1 split: if_splits)
  next
    case (refuses v aborted e)
    with assms(2) show ?thesis by (auto simp: rank_def)
  next
    case (aborts v)
    with assms(2) rank_removeAll [of v t "waiting q"] show ?thesis
      by (cases "v = t") (auto simp: abort_def rank_def split: option.split ticketState.split)
  next
    case (resumes v aborted)
    then have "v \<in> slots q" "v \<noteq> t" using assms(2) by (auto simp: slots_def)
    with up [of v] resumes assms(2) show ?thesis by (auto simp: resume_def rank_def)
  next
    case (releases v)
    show ?thesis
    proof (cases "tickets q v = Some Ended")
      case True
      with releases assms(2) show ?thesis by (auto simp: release_def)
    next
      case False
      with releases have "v \<in> slots q" by (auto simp: slots_def)
      with up [of v] releases show ?thesis by auto
    qed
  qed
qed

theorem admission_waiter_progress_witness:
  "tickets (release 0 \<lparr>active = 1, waiting = [1], capacity = 1, tickets = [0 \<mapsto> Holding, 1 \<mapsto> Waiting]\<rparr>) 1 = Some (Granted False)"
proof -
  let ?q = "\<lparr>active = 1, waiting = [1], capacity = 1, tickets = [0 \<mapsto> Holding, 1 \<mapsto> Waiting]\<rparr>"
  have "admission_step ?q (Release 0) (release 0 ?q)" by (rule admission_step.releases) simp
  from admission_waiter_progress [OF example_admission _ this, of 1] show ?thesis
    by (auto simp: rank_def)
qed

section \<open>Lemmas on coalesced visits\<close>

datatype visitEvent = Request | Visited

fun coalesced_after :: "visitEvent list \<Rightarrow> coalesced \<Rightarrow> coalesced" where
  "coalesced_after [] c = c"
| "coalesced_after (Request # es) c = coalesced_after es (request c)"
| "coalesced_after (Visited # es) c = coalesced_after es (visited c)"

lemma coalesced_pending:
  assumes "(visiting c \<and> requested c \<and> n \<le> starts c) \<or> n < starts c" "\<not> visiting (coalesced_after es c)"
  shows "n < starts (coalesced_after es c)"
  using assms
proof (induction es c rule: coalesced_after.induct)
  case (2 es c)
  then show ?case by (auto simp: request_def split: if_splits)
next
  case (3 es c)
  then show ?case by (auto simp: visited_def split: if_splits)
qed auto

text \<open>No request is lost: when the loop is idle again, an action was started after it.\<close>

lemma request_not_lost:
  assumes "\<not> visiting (coalesced_after es (request c))"
  shows "starts c < starts (coalesced_after es (request c))"
  using assms by (rule coalesced_pending [rotated]) (auto simp: request_def)

section \<open>Lemmas on dependencies\<close>

text \<open>
  A refusal that was noted decides what a job waits for when its worker then breaks; past its attempts, or
  for work that may not be repeated, the job does not wait.
\<close>

lemma noted_refusal_kept:
  assumes "safeToRetry c" "\<not> operationId c" "\<not> signalAborted c" "refusal \<noteq> RequestInvalid" "dependencyReason c = None"
  shows "fst (deferJobOnTransientFailure reason n (noteAdmissionDependency refusal (Some c))) =
    (if attempt c \<le> n then Some (JobDependencyUnavailable (refusalReason refusal)) else None)"
  using assms
  by (simp add: deferJobOnTransientFailure_def noteAdmissionDependency_def deferJobUntilDependency_def first_set_def)

section \<open>Lemmas on the watchdog\<close>

text \<open>Everything that can happen to the watchdog's entries.\<close>

datatype watchdogOp =
    Add string int int
  | Progress string int int
  | Cancel string int
  | Remove string
  | Inspect int int

fun watchdog_op :: "watchdogTiming \<Rightarrow> watchdogOp \<Rightarrow> watchdog \<Rightarrow> watchdog" where
  "watchdog_op tm (Add i now d) w = watchdog_add i now d w"
| "watchdog_op tm (Progress i n now) w = watchdog_progress i n now w"
| "watchdog_op tm (Cancel i now) w = watchdog_cancel i now w"
| "watchdog_op tm (Remove i) w = watchdog_remove i w"
| "watchdog_op tm (Inspect now h) w = fst (inspect tm now h w)"

definition marked :: "string \<Rightarrow> int \<Rightarrow> watchdog \<Rightarrow> bool" where
  "marked i t w \<longleftrightarrow> (\<exists>e t'. (i, e) \<in> set w \<and> cancelAt e = Some t' \<and> t' \<le> t)"

lemma marked_cases [simp]:
  "\<not> marked i t []"
  "marked i t ((k, e) # w) \<longleftrightarrow> (k = i \<and> (\<exists>t'. cancelAt e = Some t' \<and> t' \<le> t)) \<or> marked i t w"
  by (auto simp: marked_def)

lemma marked_map_set: "marked i t w \<Longrightarrow> j \<noteq> i \<Longrightarrow> marked i t (map_set j e w)"
  by (induction w) auto

lemma marked_update:
  assumes "\<And>e t'. cancelAt e = Some t' \<Longrightarrow> cancelAt (f e) = Some t'" "marked i t w"
  shows "marked i t (update_entry j f w)"
  using assms(2) by (induction w) (auto simp: update_entry_def, blast dest: assms(1))

lemma marked_remove: "marked i t w \<Longrightarrow> j \<noteq> i \<Longrightarrow> marked i t (watchdog_remove j w)"
  by (induction w) (auto simp: watchdog_remove_def)

lemma marked_inspect: "marked i t w \<Longrightarrow> marked i t (fst (inspect tm now h w))"
  by (induction w) (auto simp: Let_def split: prod.split)

text \<open>A mark stays until the job is removed or started anew.\<close>

lemma marked_op:
  assumes "marked i t w" "\<nexists>n d. opr = Add i n d" "opr \<noteq> Remove i"
  shows "marked i t (watchdog_op tm opr w)"
  using assms
  by (cases opr)
     (auto simp: watchdog_add_def watchdog_progress_def watchdog_cancel_def first_set_def
       intro: marked_map_set marked_remove marked_inspect intro!: marked_update)

lemma marked_ops:
  assumes "marked i t w" "\<And>n d. Add i n d \<notin> set ops" "Remove i \<notin> set ops"
  shows "marked i t (foldl (\<lambda>w opr. watchdog_op tm opr w) w ops)"
  using assms
proof (induction ops arbitrary: w)
  case (Cons opr ops)
  then have "marked i t (watchdog_op tm opr w)" by (intro marked_op) auto
  with Cons show ?case by simp
qed simp

lemma inspect_marks:
  "(i, e) \<in> set w \<Longrightarrow> overdue tm now h e \<Longrightarrow> (\<And>t. cancelAt e = Some t \<Longrightarrow> t \<le> now) \<Longrightarrow>
     i \<in> set (fst (snd (inspect tm now h w))) \<and> marked i now (fst (inspect tm now h w))"
  by (induction w) (auto simp: Let_def split: prod.split option.split)

lemma inspect_terminates:
  "marked i t w \<Longrightarrow> t + cancelGrace tm \<le> now \<Longrightarrow>
     i \<in> set (fst (snd (inspect tm now h w))) \<and> snd (snd (inspect tm now h w))"
  by (induction w) (auto simp: Let_def overdue_def split: prod.split)

text \<open>
  The watchdog's policy is enforced. A job past its deadline (no first progress in its own time, no new
  progress in the common one), or cut off from the database for all but the grace of its lease, is named
  for cancelling by the next inspection; and if it is still there when the grace has passed, whatever else
  was added, cancelled, inspected or reported as progress meanwhile, the inspection orders termination.
\<close>

theorem watchdog_enforces:
  assumes "(i, e) \<in> set w" "cancelAt e = None"
    and "now \<ge> (if units e > 0 then progressAt e + noProgressDeadline tm else started e + deadline e) \<or>
      now - heartbeat \<ge> lease tm - cancelGrace tm"
    and "\<And>n d. Add i n d \<notin> set ops" "Remove i \<notin> set ops" "now + cancelGrace tm \<le> later"
  shows "i \<in> set (fst (snd (inspect tm now heartbeat w))) \<and>
    snd (snd (inspect tm later heartbeat' (foldl (\<lambda>w opr. watchdog_op tm opr w) (fst (inspect tm now heartbeat w)) ops)))"
proof -
  have "overdue tm now heartbeat e" using assms(3) by (auto simp: overdue_def Let_def split: if_splits)
  with assms(1,2) have m: "i \<in> set (fst (snd (inspect tm now heartbeat w)))" "marked i now (fst (inspect tm now heartbeat w))"
    using inspect_marks [of i e w tm now heartbeat] by simp_all
  with inspect_terminates [OF marked_ops [OF m(2) assms(4,5)] assms(6)] show ?thesis by blast
qed

theorem watchdog_enforces_witness:
  "let tm = \<lparr>noProgressDeadline = 100, lease = 60, cancelGrace = 10\<rparr>;
       w = watchdog_add ''job'' 0 50 [];
       w' = watchdog_progress ''job'' 7 55 (fst (inspect tm 50 45 w))
   in fst (snd (inspect tm 50 45 w)) = [''job''] \<and> snd (snd (inspect tm 60 58 w'))"
proof -
  let ?e = "\<lparr>started = 0, progressAt = 0, units = 0, deadline = 50, cancelAt = None\<rparr>"
  show ?thesis
    using watchdog_enforces [of "''job''" ?e "watchdog_add ''job'' 0 50 []"
        "\<lparr>noProgressDeadline = 100, lease = 60, cancelGrace = 10\<rparr>" 50 45 "[Progress ''job'' 7 55]" 60 58]
    by (simp add: watchdog_add_def Let_def overdue_def)
qed

end
