(* ===== verification/LockedFormat.thy ===== *)
theory LockedFormat
  imports Frameleaf_Prelude "HOL-Library.Word"
begin

text \<open>
  The encrypted file format of Locked (\<open>packages/locked-crypto/src/format.ts\<close>).

  A \<open>Buffer\<close> is a list of bytes (8-bit words), a file is its content, and reading a range of an open file
  is \<open>readFully\<close> on that content. The primitives of \<open>node:crypto\<close> and JSON are the fields of the record
  \<open>lockedCrypto\<close>, an argument of every function that uses them; random file keys and ephemeral keys are
  arguments too. \<open>crypto_ok\<close> names what is relied on: AES-GCM opens exactly what it sealed and adds a
  16-byte tag, X25519 agrees on both sides, digests have 32 bytes, JSON reads back what it wrote.

  \<open>openDecrypt\<close> returns the bytes its stream yields together with the error that ended the stream, if
  any, since a reader sees the segments that came before it. Opening, syncing and unlinking files are
  not modelled: a function that writes a file returns its content.
\<close>

section \<open>Model\<close>

type_synonym byte = "8 word"
type_synonym bytes = "byte list"

record lockedCrypto =
  hkdfSync :: "bytes \<Rightarrow> bytes \<Rightarrow> string \<Rightarrow> bytes"
  gcmSeal :: "bytes \<Rightarrow> bytes \<Rightarrow> bytes \<Rightarrow> bytes \<Rightarrow> bytes \<times> bytes"
  gcmOpen :: "bytes \<Rightarrow> bytes \<Rightarrow> bytes \<Rightarrow> bytes \<Rightarrow> bytes \<Rightarrow> bytes option"
  x25519Public :: "bytes \<Rightarrow> bytes"
  x25519Shared :: "bytes \<Rightarrow> bytes \<Rightarrow> bytes"
  sha256 :: "bytes \<Rightarrow> bytes"
  jsonBytes :: "json \<Rightarrow> bytes"
  jsonParse :: "bytes \<Rightarrow> json option"

datatype lockedError =
    WrongSecretError
  | LockedFileCorruptError string
  | RangeError
  | PlainError string

definition LOCKED_MAGIC :: string where "LOCKED_MAGIC = ''FLLK''"
definition SEGMENT_SIZE :: nat where "SEGMENT_SIZE = 65536"
definition VERSION :: byte where "VERSION = 1"
definition TAG :: nat where "TAG = 16"
definition SEALED_SEGMENT :: nat where "SEALED_SEGMENT = SEGMENT_SIZE + TAG"
definition PREFIX_LENGTH :: nat where "PREFIX_LENGTH = 18"
definition KEY_ID_LENGTH :: nat where "KEY_ID_LENGTH = 8"
definition RECIPIENT_LENGTH :: nat where "RECIPIENT_LENGTH = KEY_ID_LENGTH + 32 + 32 + TAG"
definition MAX_INFO_LENGTH :: nat where "MAX_INFO_LENGTH = 64 * 1024"
definition ZERO_NONCE :: bytes where "ZERO_NONCE = replicate 12 0"
definition MAGIC :: bytes where "MAGIC = map of_char LOCKED_MAGIC"
definition COPY_CHUNK :: nat where "COPY_CHUNK = 16 * SEALED_SEGMENT"

text \<open>Big-endian integers: \<open>writeBigUInt64BE\<close>, \<open>writeUInt32BE\<close> and their readers, by width.\<close>

fun write_be :: "nat \<Rightarrow> nat \<Rightarrow> bytes" where
  "write_be 0 n = []"
| "write_be (Suc k) n = write_be k (n div 256) @ [word_of_nat n]"

definition read_be :: "bytes \<Rightarrow> nat" where
  "read_be bs = foldl (\<lambda>n b. n * 256 + unat b) 0 bs"

definition hkdf :: "lockedCrypto \<Rightarrow> bytes \<Rightarrow> bytes \<Rightarrow> string \<Rightarrow> bytes" where
  "hkdf c key salt purpose = hkdfSync c key salt (''frameleaf-locked/1/'' @ purpose)"

definition seal :: "lockedCrypto \<Rightarrow> bytes \<Rightarrow> bytes \<Rightarrow> bytes \<Rightarrow> bytes \<Rightarrow> bytes" where
  "seal c key nonce plaintext aad = (let (ciphertext, tag) = gcmSeal c key nonce aad plaintext in ciphertext @ tag)"

definition unseal :: "lockedCrypto \<Rightarrow> bytes \<Rightarrow> bytes \<Rightarrow> bytes \<Rightarrow> bytes \<Rightarrow> bytes option" where
  "unseal c key nonce sealed aad =
     (if length sealed < TAG then None
      else gcmOpen c key nonce aad (take (length sealed - TAG) sealed) (drop (length sealed - TAG) sealed))"

definition segmentNonce :: "nat \<Rightarrow> bytes" where
  "segmentNonce i = replicate 4 0 @ write_be 8 i"

definition segmentAad :: "nat \<Rightarrow> bool \<Rightarrow> bytes" where
  "segmentAad i isLast = write_be 8 i @ [if isLast then 1 else 0]"

definition segmentCount :: "nat \<Rightarrow> nat" where
  "segmentCount n = max 1 ((n + SEGMENT_SIZE - 1) div SEGMENT_SIZE)"

definition segmentPlainLength :: "nat \<Rightarrow> nat \<Rightarrow> nat" where
  "segmentPlainLength n i = min SEGMENT_SIZE (n - i * SEGMENT_SIZE)"

subsection \<open>X25519 keys\<close>

definition assertRawKey :: "bytes \<Rightarrow> lockedError + unit" where
  "assertRawKey key = (if length key \<noteq> 32 then Inl (PlainError ''must be 32 raw bytes'') else Inr ())"

definition publicKeyFromPrivate :: "lockedCrypto \<Rightarrow> bytes \<Rightarrow> lockedError + bytes" where
  "publicKeyFromPrivate c key = mapR (\<lambda>_. x25519Public c key) (assertRawKey key)"

definition sharedSecret :: "lockedCrypto \<Rightarrow> bytes \<Rightarrow> bytes \<Rightarrow> lockedError + bytes" where
  "sharedSecret c privateKey publicKey =
     bindR (assertRawKey publicKey) (\<lambda>_.
       let secret = x25519Shared c privateKey publicKey
       in if list_all (\<lambda>b. b = 0) secret then Inl (PlainError ''Invalid X25519 public key'') else Inr secret)"

definition keyId :: "lockedCrypto \<Rightarrow> bytes \<Rightarrow> lockedError + bytes" where
  "keyId c publicKey = mapR (\<lambda>_. take KEY_ID_LENGTH (sha256 c publicKey)) (assertRawKey publicKey)"

subsection \<open>Header\<close>

record parsedRecipient =
  recipient_keyId :: bytes
  recipient_ephemeral :: bytes
  recipient_wrapped :: bytes

record parsedHeader =
  plaintextLength :: nat
  keyIds :: "bytes list"
  headerLength :: nat
  header_prefix :: bytes
  recipients :: "parsedRecipient list"
  infoRecord :: bytes
  infoCiphertext :: bytes

definition buildPrefix :: "nat \<Rightarrow> bytes" where
  "buildPrefix n = MAGIC @ [VERSION, 0] @ write_be 8 n @ write_be 4 SEGMENT_SIZE"

definition wrapAad :: "bytes \<Rightarrow> bytes \<Rightarrow> bytes" where
  "wrapAad kid ephemeral = kid @ ephemeral"

text \<open>One entry of the list, for a recipient's public key and the ephemeral private key drawn for it.\<close>

definition buildRecipient :: "lockedCrypto \<Rightarrow> bytes \<Rightarrow> bytes \<Rightarrow> bytes \<times> bytes \<Rightarrow> lockedError + bytes" where
  "buildRecipient c prefix fileKey pair =
     (let (publicKey, ephemeral) = pair
      in bindR (keyId c publicKey) (\<lambda>kid.
           let ephemeralPublic = x25519Public c ephemeral
           in bindR (sharedSecret c ephemeral publicKey) (\<lambda>secret.
                let wrapKey = hkdf c secret prefix ''wrap'';
                    wrapped = seal c wrapKey ZERO_NONCE fileKey (wrapAad kid ephemeralPublic)
                in Inr (kid @ ephemeralPublic @ wrapped))))"

definition buildRecipients :: "lockedCrypto \<Rightarrow> bytes \<Rightarrow> bytes \<Rightarrow> (bytes \<times> bytes) list \<Rightarrow> lockedError + bytes" where
  "buildRecipients c prefix fileKey rs =
     (if length rs = 0 \<or> length rs > 255 then Inl (PlainError ''A locked file needs 1 to 255 recipients'')
      else bindR (traverseR (buildRecipient c prefix fileKey) rs) (\<lambda>entries.
             Inr (word_of_nat (length rs) # concat entries)))"

definition readFully :: "bytes \<Rightarrow> nat \<Rightarrow> nat \<Rightarrow> bytes" where
  "readFully file len position = take len (drop position file)"

definition corrupt :: "string \<Rightarrow> lockedError" where
  "corrupt message = LockedFileCorruptError message"

definition recipientAt :: "bytes \<Rightarrow> nat \<Rightarrow> parsedRecipient" where
  "recipientAt rest i =
     (let entry = take RECIPIENT_LENGTH (drop (i * RECIPIENT_LENGTH) rest)
      in \<lparr>recipient_keyId = take 8 entry, recipient_ephemeral = take 32 (drop 8 entry),
          recipient_wrapped = drop 40 entry\<rparr>)"

text \<open>The second half of \<open>parseHeader\<close>, once the fixed part has been read: \<open>n\<close> is the recipient count.\<close>

definition parseRest :: "bytes \<Rightarrow> bytes \<Rightarrow> nat \<Rightarrow> nat \<Rightarrow> lockedError + parsedHeader" where
  "parseRest file fixed len n =
     (let listLength = n * RECIPIENT_LENGTH;
          rest = readFully file (listLength + 4) (PREFIX_LENGTH + 1)
      in if length rest < listLength + 4 then Inl (corrupt ''Locked file header is truncated'')
         else let rs = map (recipientAt rest) [0..<n];
                  infoLength = read_be (take 4 (drop listLength rest))
              in if infoLength < TAG \<or> infoLength > MAX_INFO_LENGTH then Inl (corrupt ''Locked file info is out of range'')
                 else let infoStart = PREFIX_LENGTH + 1 + listLength;
                          info = readFully file infoLength (infoStart + 4)
                      in if length info < infoLength then Inl (corrupt ''Locked file header is truncated'')
                         else Inr \<lparr>plaintextLength = len, keyIds = map recipient_keyId rs,
                                   headerLength = infoStart + 4 + infoLength,
                                   header_prefix = take PREFIX_LENGTH fixed, recipients = rs,
                                   infoRecord = drop listLength rest @ info, infoCiphertext = info\<rparr>)"

definition parseHeader :: "bytes \<Rightarrow> lockedError + parsedHeader" where
  "parseHeader file =
     (let fixed = readFully file (PREFIX_LENGTH + 1) 0
      in if length fixed < PREFIX_LENGTH + 1 \<or> take 4 fixed \<noteq> MAGIC then Inl (corrupt ''Not a locked file'')
         else if fixed ! 4 \<noteq> VERSION then Inl (corrupt ''Unsupported locked file version'')
         else if fixed ! 5 \<noteq> 0 then Inl (corrupt ''Unknown locked file flags'')
         else let len = read_be (take 8 (drop 6 fixed))
              in if int len > MAX_SAFE_INTEGER then Inl (corrupt ''Locked file length is out of range'')
                 else if read_be (take 4 (drop 14 fixed)) \<noteq> SEGMENT_SIZE then Inl (corrupt ''Unsupported locked file segment size'')
                 else let n = unat (fixed ! PREFIX_LENGTH)
                      in if n = 0 then Inl (corrupt ''Locked file has no recipients'')
                         else parseRest file fixed len n)"

definition expectedFileLength :: "parsedHeader \<Rightarrow> nat" where
  "expectedFileLength h = headerLength h + plaintextLength h + segmentCount (plaintextLength h) * TAG"

definition assertFileLength :: "bytes \<Rightarrow> parsedHeader \<Rightarrow> lockedError + unit" where
  "assertFileLength file h =
     (if length file \<noteq> expectedFileLength h then Inl (corrupt ''Locked file is truncated or extended'') else Inr ())"

text \<open>A failure inside the \<open>try\<close> block, of the agreement or of the tag, is reported as corruption.\<close>

definition unwrapFileKey :: "lockedCrypto \<Rightarrow> parsedHeader \<Rightarrow> bytes \<Rightarrow> lockedError + bytes" where
  "unwrapFileKey c h privateKey =
     bindR (publicKeyFromPrivate c privateKey) (\<lambda>publicKey.
     bindR (keyId c publicKey) (\<lambda>kid.
       case find (\<lambda>entry. recipient_keyId entry = kid) (recipients h) of
         None \<Rightarrow> Inl WrongSecretError
       | Some r \<Rightarrow>
           (case sharedSecret c privateKey (recipient_ephemeral r) of
              Inl _ \<Rightarrow> Inl (corrupt ''The locked file key does not authenticate'')
            | Inr secret \<Rightarrow>
                (case unseal c (hkdf c secret (header_prefix h) ''wrap'') ZERO_NONCE (recipient_wrapped r)
                        (wrapAad (recipient_keyId r) (recipient_ephemeral r)) of
                   None \<Rightarrow> Inl (corrupt ''The locked file key does not authenticate'')
                 | Some key \<Rightarrow> Inr key))))"

definition openInfo :: "lockedCrypto \<Rightarrow> parsedHeader \<Rightarrow> bytes \<Rightarrow> lockedError + json" where
  "openInfo c h fileKey =
     (case unseal c (hkdf c fileKey (header_prefix h) ''info'') ZERO_NONCE (infoCiphertext h) [] of
        None \<Rightarrow> Inl (corrupt ''Locked file info does not authenticate'')
      | Some text \<Rightarrow>
          (case jsonParse c text of
             None \<Rightarrow> Inl (corrupt ''Locked file info does not authenticate'')
           | Some info \<Rightarrow> Inr info))"

subsection \<open>Public API\<close>

definition isLockedFile :: "bytes \<Rightarrow> bool" where
  "isLockedFile file \<longleftrightarrow> readFully file 4 0 = MAGIC"

definition readHeader :: "bytes \<Rightarrow> lockedError + (nat \<times> bytes list \<times> nat)" where
  "readHeader file = mapR (\<lambda>h. (plaintextLength h, keyIds h, headerLength h)) (parseHeader file)"

text \<open>One segment as stored, read and opened: the shared body of the two reading loops.\<close>

definition openSegment :: "lockedCrypto \<Rightarrow> bytes \<Rightarrow> parsedHeader \<Rightarrow> bytes \<Rightarrow> nat \<Rightarrow> lockedError + bytes" where
  "openSegment c file h segmentKey i =
     (let sealedLength = segmentPlainLength (plaintextLength h) i + TAG;
          sealed = readFully file sealedLength (headerLength h + i * SEALED_SEGMENT)
      in if length sealed \<noteq> sealedLength then Inl (corrupt ''Locked file segment is truncated'')
         else case unseal c segmentKey (segmentNonce i) sealed (segmentAad i (i + 1 = segmentCount (plaintextLength h))) of
                None \<Rightarrow> Inl (corrupt ''Locked file segment does not authenticate'')
              | Some plain \<Rightarrow> Inr plain)"

definition verifyWithFileKey ::
  "lockedCrypto \<Rightarrow> bytes \<Rightarrow> bytes \<Rightarrow> bytes \<Rightarrow> json \<Rightarrow> lockedError + bytes" where
  "verifyWithFileKey c file fileKey prefix info =
     bindR (parseHeader file) (\<lambda>h.
       if header_prefix h \<noteq> prefix then Inl (corrupt ''The locked file prefix changed while it was written'')
       else bindR (assertFileLength file h) (\<lambda>_.
            bindR (openInfo c h fileKey) (\<lambda>info'.
              if jsonBytes c info' \<noteq> jsonBytes c info then Inl (corrupt ''Locked file info does not match what was written'')
              else bindR (traverseR (openSegment c file h (hkdf c fileKey (header_prefix h) ''segment''))
                            [0..<segmentCount (plaintextLength h)]) (\<lambda>segments.
                   Inr (sha256 c (concat segments))))))"

definition sealSegment :: "lockedCrypto \<Rightarrow> bytes \<Rightarrow> bytes \<Rightarrow> nat \<Rightarrow> bytes" where
  "sealSegment c segmentKey plaintext i =
     (let n = length plaintext
      in seal c segmentKey (segmentNonce i) (readFully plaintext (segmentPlainLength n i) (i * SEGMENT_SIZE))
           (segmentAad i (i + 1 = segmentCount n)))"

text \<open>The bytes \<open>encryptFile\<close> writes for a source that does not change while it is read.\<close>

definition encryptFile ::
  "lockedCrypto \<Rightarrow> bytes \<Rightarrow> bytes \<Rightarrow> (bytes \<times> bytes) list \<Rightarrow> json \<Rightarrow> bool \<Rightarrow> lockedError + bytes \<times> bytes option" where
  "encryptFile c plaintext fileKey rs info verify =
     (let n = length plaintext; prefix = buildPrefix n; segmentKey = hkdf c fileKey prefix ''segment''
      in bindR (buildRecipients c prefix fileKey rs) (\<lambda>recipientList.
           let infoCiphertext = seal c (hkdf c fileKey prefix ''info'') ZERO_NONCE (jsonBytes c info) []
           in if length infoCiphertext > MAX_INFO_LENGTH then Inl (PlainError ''Locked file info is too long'')
              else let dst = prefix @ recipientList @ write_be 4 (length infoCiphertext) @ infoCiphertext @
                             concat (map (sealSegment c segmentKey plaintext) [0..<segmentCount n])
                   in if \<not> verify then Inr (dst, None)
                      else bindR (verifyWithFileKey c dst fileKey prefix info) (\<lambda>digest.
                             if digest \<noteq> sha256 c plaintext
                             then Inl (corrupt ''The locked file does not decrypt to its source'')
                             else Inr (dst, Some digest))))"

text \<open>The generator's loop: the bytes yielded so far and the error that stopped it.\<close>

fun streamSegments ::
  "(nat \<Rightarrow> lockedError + bytes) \<Rightarrow> nat \<Rightarrow> nat \<Rightarrow> int \<Rightarrow> int \<Rightarrow> nat list \<Rightarrow> bytes \<times> lockedError option" where
  "streamSegments openOne first final start end [] = ([], None)"
| "streamSegments openOne first final start end (i # is) =
     (case openOne i of
        Inl e \<Rightarrow> ([], Some e)
      | Inr plain \<Rightarrow>
          (let from = (if i = first then start - int (i * SEGMENT_SIZE) else 0);
               to = (if i = final then end - int (i * SEGMENT_SIZE) + 1 else int (length plain));
               chunk = (if to > from then drop (nat from) (take (nat to) plain) else []);
               (rest, err) = streamSegments openOne first final start end is
           in (chunk @ rest, err)))"

definition openDecrypt ::
  "lockedCrypto \<Rightarrow> bytes \<Rightarrow> bytes \<Rightarrow> (int \<times> int) option \<Rightarrow>
     lockedError + (bytes \<times> lockedError option) \<times> nat \<times> json" where
  "openDecrypt c file privateKey rng =
     bindR (parseHeader file) (\<lambda>h.
       let n = plaintextLength h;
           start = (case rng of None \<Rightarrow> 0 | Some (s, _) \<Rightarrow> s);
           end = (case rng of None \<Rightarrow> int n - 1 | Some (_, e) \<Rightarrow> e)
       in if rng \<noteq> None \<and> (\<not> isSafeInteger start \<or> \<not> isSafeInteger end \<or> start < 0 \<or> start > end \<or> end \<ge> int n)
          then Inl RangeError
          else bindR (unwrapFileKey c h privateKey) (\<lambda>fileKey.
               bindR (openInfo c h fileKey) (\<lambda>info.
                 let segmentKey = hkdf c fileKey (header_prefix h) ''segment'';
                     first = (if n = 0 then 0 else nat (start div int SEGMENT_SIZE));
                     final = (if n = 0 then 0 else nat (end div int SEGMENT_SIZE));
                     stream = (case assertFileLength file h of
                                 Inl e \<Rightarrow> ([], Some e)
                               | Inr _ \<Rightarrow> streamSegments (openSegment c file h segmentKey) first final start end [first..<final + 1])
                 in Inr (stream, n, info))))"

definition decryptFile :: "lockedCrypto \<Rightarrow> bytes \<Rightarrow> bytes \<Rightarrow> lockedError + bytes \<times> json" where
  "decryptFile c src privateKey =
     bindR (openDecrypt c src privateKey None) (\<lambda>((out, err), n, info).
       case err of Some e \<Rightarrow> Inl e | None \<Rightarrow> Inr (out, info))"

text \<open>The copy loop of \<open>rewrapFile\<close>, a few segments at a time.\<close>

function copyLoop :: "bytes \<Rightarrow> nat \<Rightarrow> nat \<Rightarrow> nat \<Rightarrow> bytes" where
  "copyLoop input base whole offset =
     (if offset < whole
      then readFully input (min COPY_CHUNK (whole - offset)) (base + offset) @ copyLoop input base whole (offset + COPY_CHUNK)
      else [])"
  by pat_completeness auto
termination
  by (relation "measure (\<lambda>(_, _, whole, offset). whole - offset)")
     (auto simp: COPY_CHUNK_def SEALED_SEGMENT_def SEGMENT_SIZE_def)

declare copyLoop.simps [simp del]

definition rewrapFile :: "lockedCrypto \<Rightarrow> bytes \<Rightarrow> bytes \<Rightarrow> (bytes \<times> bytes) list \<Rightarrow> lockedError + bytes" where
  "rewrapFile c src privateKey rs =
     bindR (parseHeader src) (\<lambda>h.
     bindR (assertFileLength src h) (\<lambda>_.
     bindR (unwrapFileKey c h privateKey) (\<lambda>fileKey.
     bindR (openInfo c h fileKey) (\<lambda>_.
     bindR (buildRecipients c (header_prefix h) fileKey rs) (\<lambda>recipientList.
       Inr (header_prefix h @ recipientList @ infoRecord h @
            copyLoop src (headerLength h) (expectedFileLength h - headerLength h) 0))))))"

definition verifyFile :: "lockedCrypto \<Rightarrow> bytes \<Rightarrow> bytes \<Rightarrow> lockedError + unit" where
  "verifyFile c file privateKey =
     bindR (openDecrypt c file privateKey None) (\<lambda>((_, err), _, _).
       case err of Some e \<Rightarrow> Inl e | None \<Rightarrow> Inr ())"

section \<open>What is relied on\<close>

definition aead_ok :: "lockedCrypto \<Rightarrow> bool" where
  "aead_ok c \<longleftrightarrow>
     (\<forall>k n a p. length (fst (gcmSeal c k n a p)) = length p \<and> length (snd (gcmSeal c k n a p)) = 16) \<and>
     (\<forall>k n a ct tag p. gcmOpen c k n a ct tag = Some p \<longleftrightarrow> gcmSeal c k n a p = (ct, tag))"

definition x25519_ok :: "lockedCrypto \<Rightarrow> bool" where
  "x25519_ok c \<longleftrightarrow>
     (\<forall>a b. x25519Shared c a (x25519Public c b) = x25519Shared c b (x25519Public c a)) \<and>
     (\<forall>a. length (x25519Public c a) = 32) \<and> (\<forall>x. length (sha256 c x) = 32)"

definition json_ok :: "lockedCrypto \<Rightarrow> json \<Rightarrow> bool" where
  "json_ok c info \<longleftrightarrow> jsonParse c (jsonBytes c info) = Some info"

lemmas sizes = SEGMENT_SIZE_def TAG_def SEALED_SEGMENT_def PREFIX_LENGTH_def KEY_ID_LENGTH_def RECIPIENT_LENGTH_def
  MAX_INFO_LENGTH_def

section \<open>Bytes\<close>

lemma length_write_be [simp]: "length (write_be k n) = k"
  by (induction k arbitrary: n) auto

lemma read_be_snoc: "read_be (bs @ [b]) = read_be bs * 256 + unat b"
  by (simp add: read_be_def)

lemma read_write_be: "read_be (write_be k n) = n mod 256 ^ k"
proof (induction k arbitrary: n)
  case 0
  show ?case by (simp add: read_be_def)
next
  case (Suc k)
  have "n mod (256 * 256 ^ k) = 256 * (n div 256 mod 256 ^ k) + n mod 256"
    by (rule mod_mult2_eq)
  then show ?case by (simp add: read_be_snoc Suc unat_of_nat)
qed

lemma read_write_be_small: "n < 256 ^ k \<Longrightarrow> read_be (write_be k n) = n"
  by (simp add: read_write_be)

lemma length_MAGIC [simp]: "length MAGIC = 4"
  by (simp add: MAGIC_def LOCKED_MAGIC_def)

lemma length_buildPrefix [simp]: "length (buildPrefix n) = 18"
  by (simp add: buildPrefix_def)

lemma take_drop_middle: "length xs = n \<Longrightarrow> length ys = k \<Longrightarrow> take k (drop n (xs @ ys @ zs)) = ys"
  by simp

lemma concat_take_drop:
  assumes "\<And>i. i < j \<Longrightarrow> length (f i) = l" "j < n"
  shows "take (length (f j)) (drop (j * l) (concat (map f [0..<n]))) = f j"
proof -
  have "[0..<n] = [0..<j] @ j # [Suc j..<n]"
    using assms(2) upt_add_eq_append [of 0 j "n - j"] upt_conv_Cons [of j n] by simp
  then have "concat (map f [0..<n]) = concat (map f [0..<j]) @ f j @ concat (map f [Suc j..<n])"
    by (metis append.assoc concat.simps(2) concat_append list.simps(9) map_append)
  moreover have "length (concat (map f [0..<j])) = j * l"
    using assms(1) by (induction j) auto
  ultimately show ?thesis by simp
qed

section \<open>Sealing\<close>

lemma length_seal: "aead_ok c \<Longrightarrow> length (seal c k n p a) = length p + 16"
  by (auto simp: seal_def aead_ok_def split: prod.split) (metis fst_conv snd_conv)

lemma unseal_iff:
  assumes "aead_ok c"
  shows "unseal c k n s a = Some p \<longleftrightarrow> s = seal c k n p a"
proof
  assume "unseal c k n s a = Some p"
  then have "16 \<le> length s" "gcmSeal c k n a p = (take (length s - 16) s, drop (length s - 16) s)"
    using assms by (auto simp: unseal_def aead_ok_def TAG_def split: if_splits)
  then show "s = seal c k n p a" by (simp add: seal_def)
next
  obtain ct tag where g: "gcmSeal c k n a p = (ct, tag)" by fastforce
  then have "length tag = 16" using assms unfolding aead_ok_def by (metis snd_conv)
  moreover assume "s = seal c k n p a"
  ultimately show "unseal c k n s a = Some p"
    using assms g by (simp add: unseal_def seal_def TAG_def aead_ok_def)
qed

lemma unseal_seal [simp]: "aead_ok c \<Longrightarrow> unseal c k n (seal c k n p a) a = Some p"
  by (simp add: unseal_iff)

section \<open>Segments\<close>

definition segment :: "bytes \<Rightarrow> nat \<Rightarrow> bytes" where
  "segment p i = take SEGMENT_SIZE (drop (i * SEGMENT_SIZE) p)"

lemma segment_read: "readFully p (segmentPlainLength (length p) i) (i * SEGMENT_SIZE) = segment p i"
  by (auto simp: readFully_def segmentPlainLength_def segment_def min_def)

lemma length_segment: "length (segment p i) = segmentPlainLength (length p) i"
  by (simp add: segment_def segmentPlainLength_def min.commute)

lemma concat_pieces: "concat (map (\<lambda>i. take l (drop (i * l) xs)) [0..<k]) = take (k * l) xs"
proof (induction k)
  case (Suc k)
  have "take (k * l + l) xs = take (k * l) xs @ take l (drop (k * l) xs)" by (rule take_add)
  with Suc show ?case by (simp add: add.commute)
qed simp

lemma concat_segments: "concat (map (segment p) [0..<k]) = take (k * SEGMENT_SIZE) p"
  unfolding segment_def by (rule concat_pieces)

lemma segmentCount_covers: "n \<le> segmentCount n * SEGMENT_SIZE"
  and segmentCount_pos: "0 < segmentCount n"
  and segment_full: "i + 1 < segmentCount n \<Longrightarrow> segmentPlainLength n i = SEGMENT_SIZE"
  by (auto simp: segmentCount_def segmentPlainLength_def SEGMENT_SIZE_def max_def split: if_splits)

lemma concat_all_segments: "concat (map (segment p) [0..<segmentCount (length p)]) = p"
  using segmentCount_covers by (simp add: concat_segments)

lemma sealSegment_eq:
  "sealSegment c key p i = seal c key (segmentNonce i) (segment p i) (segmentAad i (i + 1 = segmentCount (length p)))"
  by (simp add: sealSegment_def Let_def segment_read)

lemma length_sealSegment:
  assumes "aead_ok c"
  shows "length (sealSegment c key p i) = segmentPlainLength (length p) i + TAG"
  using assms by (simp add: sealSegment_eq length_seal length_segment TAG_def)

lemma length_sealed:
  assumes "aead_ok c"
  shows "length (concat (map (sealSegment c key p) [0..<segmentCount (length p)])) =
    length p + segmentCount (length p) * TAG"
proof -
  have "length (concat (map (sealSegment c key p) [0..<k])) = length (concat (map (segment p) [0..<k])) + k * TAG" for k
    using assms by (induction k) (simp_all add: length_sealSegment length_segment)
  then show ?thesis by (simp add: concat_all_segments)
qed

lemma openSegment_sealed:
  assumes "aead_ok c" "i < segmentCount (length p)" "plaintextLength h = length p"
    and "drop (headerLength h) file = concat (map (sealSegment c key p) [0..<segmentCount (length p)])"
  shows "openSegment c file h key i = Inr (segment p i)"
proof -
  have "take (length (sealSegment c key p i)) (drop (i * SEALED_SEGMENT)
      (concat (map (sealSegment c key p) [0..<segmentCount (length p)]))) = sealSegment c key p i"
    using assms(1,2) by (intro concat_take_drop) (simp_all add: length_sealSegment segment_full SEALED_SEGMENT_def)
  moreover have "drop (headerLength h + i * SEALED_SEGMENT) file = drop (i * SEALED_SEGMENT) (drop (headerLength h) file)"
    by (simp add: add.commute)
  ultimately have read: "readFully file (segmentPlainLength (length p) i + TAG) (headerLength h + i * SEALED_SEGMENT) = sealSegment c key p i"
    using assms(1,4) by (simp add: readFully_def length_sealSegment)
  then show ?thesis
    using assms(1,3) by (simp add: openSegment_def Let_def length_sealSegment sealSegment_eq [symmetric])
      (simp add: sealSegment_eq)
qed

section \<open>The stream\<close>

text \<open>The part of the wanted bytes that lies in the segments from the \<open>j\<close>-th on.\<close>

definition wanted :: "nat \<Rightarrow> nat \<Rightarrow> bytes \<Rightarrow> nat \<Rightarrow> bytes" where
  "wanted start stop p j = drop (max start (j * SEGMENT_SIZE)) (take stop p)"

lemma drop_take_split:
  assumes "a \<le> b" "b \<le> stop"
  shows "drop a (take stop p) = drop a (take b p) @ drop b (take stop p)"
proof -
  have "take (stop - a) (drop a p) = take ((b - a) + (stop - b)) (drop a p)" using assms by simp
  also have "\<dots> = take (b - a) (drop a p) @ take (stop - b) (drop b p)"
    using assms(1) unfolding take_add by simp
  finally show ?thesis by (simp add: drop_take)
qed

lemma chunk_of_segment:
  assumes "t \<le> SEGMENT_SIZE"
  shows "drop f (take t (segment p j)) = drop (j * SEGMENT_SIZE + f) (take (j * SEGMENT_SIZE + t) p)"
  using assms by (simp add: segment_def min_absorb1 take_drop add.commute)

lemma stream_step:
  assumes "openOne j = Inr (segment p j)" "j * SEGMENT_SIZE \<le> a" "a \<le> b" "b \<le> j * SEGMENT_SIZE + SEGMENT_SIZE" "b \<le> length p"
    and "(if j = first then start - int (j * SEGMENT_SIZE) else 0) = int a - int (j * SEGMENT_SIZE)"
    and "j = final \<longrightarrow> end = int b - 1" "j \<noteq> final \<longrightarrow> b = j * SEGMENT_SIZE + SEGMENT_SIZE"
    and "streamSegments openOne first final start end is = (drop b (take stop p), None)" "b \<le> stop"
  shows "streamSegments openOne first final start end (j # is) = (drop a (take stop p), None)"
proof -
  define o' where "o' = j * SEGMENT_SIZE"
  define f where "f = a - o'"
  define t where "t = b - o'"
  have ft: "a = o' + f" "b = o' + t" "f \<le> t" "t \<le> SEGMENT_SIZE"
    using assms(2,3,4) unfolding f_def t_def o'_def [symmetric] by linarith+
  have len: "length (segment p j) = t" if "j \<noteq> final"
  proof -
    have "t = SEGMENT_SIZE" "SEGMENT_SIZE \<le> length p - o'"
      using that assms(5,8) ft(2) unfolding o'_def [symmetric] by linarith+
    then show ?thesis by (simp add: length_segment segmentPlainLength_def o'_def)
  qed
  have to: "(if j = final then end - int (j * SEGMENT_SIZE) + 1 else int (length (segment p j))) = int t"
    using assms(7) len ft(2) unfolding o'_def [symmetric] by simp
  have frm: "(if j = first then start - int (j * SEGMENT_SIZE) else 0) = int f"
    unfolding assms(6) using ft(1) unfolding o'_def [symmetric] by simp
  have chunk: "drop f (take t (segment p j)) = drop a (take b p)"
    using chunk_of_segment [of t f p j] ft unfolding o'_def [symmetric] by simp
  have "(if int f < int t then drop (nat (int f)) (take (nat (int t)) (segment p j)) else []) = drop a (take b p)"
    using chunk ft by simp
  with assms(1,9) drop_take_split [OF assms(3,10), of p] show ?thesis
    unfolding streamSegments.simps assms(1) sum.case Let_def to frm by simp
qed

lemma stream_slice:
  assumes "start < stop" "stop \<le> length p" "first = start div SEGMENT_SIZE" "final = (stop - 1) div SEGMENT_SIZE"
    and "\<And>i. first \<le> i \<Longrightarrow> i \<le> final \<Longrightarrow> openOne i = Inr (segment p i)" "first \<le> j" "j \<le> final"
  shows "streamSegments openOne first final (int start) (int stop - 1) [j..<final + 1] = (wanted start stop p j, None)"
  using assms(6,7)
proof (induction "final - j" arbitrary: j)
  case 0
  have "j * SEGMENT_SIZE < stop" "stop \<le> j * SEGMENT_SIZE + SEGMENT_SIZE"
    using 0 assms(1,4) by (auto simp: SEGMENT_SIZE_def)
  then show ?case
    using 0 assms(1,2,3) unfolding wanted_def
    by (simp del: streamSegments.simps(2))
       (rule stream_step [where b = stop]; auto simp: assms(5) SEGMENT_SIZE_def)
next
  case (Suc k)
  then have j: "j < final" by simp
  have "(j + 1) * SEGMENT_SIZE < stop" using j assms(1,4) by (auto simp: SEGMENT_SIZE_def)
  moreover have "start < (first + 1) * SEGMENT_SIZE" "first * SEGMENT_SIZE \<le> start" using assms(3) by (auto simp: SEGMENT_SIZE_def)
  moreover have "streamSegments openOne first final (int start) (int stop - 1) [Suc j..<final + 1] =
      (wanted start stop p (Suc j), None)"
    using Suc by auto
  moreover have "[j..<final + 1] = j # [Suc j..<final + 1]" using j by (simp add: upt_conv_Cons)
  ultimately show ?case
    using j assms(2) Suc.prems unfolding wanted_def
    apply (simp only:)
    apply (rule stream_step [where b = "(j + 1) * SEGMENT_SIZE"])
    by (auto simp: assms(5) SEGMENT_SIZE_def max_def)
qed

section \<open>The header\<close>

definition entryOf :: "bytes \<Rightarrow> parsedRecipient" where
  "entryOf e = \<lparr>recipient_keyId = take 8 e, recipient_ephemeral = take 32 (drop 8 e), recipient_wrapped = drop 40 e\<rparr>"

text \<open>The header as it is written, and what is read back from it.\<close>

definition headerBytes :: "nat \<Rightarrow> bytes list \<Rightarrow> bytes \<Rightarrow> bytes" where
  "headerBytes n entries ic =
     buildPrefix n @ (word_of_nat (length entries) # concat entries) @ write_be 4 (length ic) @ ic"

definition builtHeader :: "nat \<Rightarrow> bytes list \<Rightarrow> bytes \<Rightarrow> parsedHeader" where
  "builtHeader n entries ic =
     \<lparr>plaintextLength = n, keyIds = map recipient_keyId (map entryOf entries),
      headerLength = 23 + length entries * RECIPIENT_LENGTH + length ic,
      header_prefix = buildPrefix n, recipients = map entryOf entries,
      infoRecord = write_be 4 (length ic) @ ic, infoCiphertext = ic\<rparr>"

lemma buildPrefix_parts:
  "take 4 (buildPrefix n) = MAGIC" "buildPrefix n ! 4 = VERSION" "buildPrefix n ! 5 = 0"
  "take 8 (drop 6 (buildPrefix n)) = write_be 8 n" "take 4 (drop 14 (buildPrefix n)) = write_be 4 SEGMENT_SIZE"
  by (simp_all add: buildPrefix_def nth_append)

lemma length_entries:
  assumes "\<And>e. e \<in> set entries \<Longrightarrow> length e = RECIPIENT_LENGTH"
  shows "length (concat entries) = length entries * RECIPIENT_LENGTH"
  using assms by (induction entries) auto

lemma recipientAt_entry:
  assumes "\<And>e. e \<in> set entries \<Longrightarrow> length e = RECIPIENT_LENGTH" "i < length entries"
  shows "recipientAt (concat entries @ xs) i = entryOf (entries ! i)"
proof -
  have "take RECIPIENT_LENGTH (drop (i * RECIPIENT_LENGTH) (concat entries @ xs)) = entries ! i"
    using assms
  proof (induction entries arbitrary: i)
    case (Cons e es)
    then show ?case by (cases i) auto
  qed simp
  then show ?thesis by (simp add: recipientAt_def entryOf_def Let_def)
qed

lemma length_headerBytes:
  assumes "\<And>e. e \<in> set entries \<Longrightarrow> length e = RECIPIENT_LENGTH"
  shows "length (headerBytes n entries ic) = headerLength (builtHeader n entries ic)"
  using length_entries [OF assms] by (simp add: headerBytes_def builtHeader_def)

lemma parseRest_built:
  assumes "\<And>e. e \<in> set entries \<Longrightarrow> length e = RECIPIENT_LENGTH" "TAG \<le> length ic" "length ic \<le> MAX_INFO_LENGTH"
  shows "parseRest (headerBytes n entries ic @ xs) (buildPrefix n @ ys) n (length entries) = Inr (builtHeader n entries ic)"
proof -
  note len = length_entries [OF assms(1)]
  let ?file = "headerBytes n entries ic @ xs" and ?l = "length entries * RECIPIENT_LENGTH"
  have rest: "readFully ?file (?l + 4) (PREFIX_LENGTH + 1) = concat entries @ write_be 4 (length ic)"
    by (simp add: readFully_def headerBytes_def PREFIX_LENGTH_def len)
  have info: "readFully ?file (length ic) (PREFIX_LENGTH + 1 + ?l + 4) = ic"
    by (simp add: readFully_def headerBytes_def PREFIX_LENGTH_def len drop_Cons')
  have rs: "map (recipientAt (concat entries @ write_be 4 (length ic))) [0..<length entries] = map entryOf entries"
    by (rule nth_equalityI) (simp_all add: recipientAt_entry [OF assms(1)])
  have il: "read_be (take 4 (drop ?l (concat entries @ write_be 4 (length ic)))) = length ic"
    using assms(3) by (simp add: len read_write_be MAX_INFO_LENGTH_def)
  have "drop ?l (concat entries @ write_be 4 (length ic)) = write_be 4 (length ic)" by (simp add: len)
  moreover have "length (concat entries @ write_be 4 (length ic)) = ?l + 4" by (simp add: len)
  ultimately show ?thesis
    unfolding parseRest_def Let_def rest rs il info
    using assms(2,3) by (simp add: builtHeader_def PREFIX_LENGTH_def)
qed

lemma parseHeader_built:
  assumes "\<And>e. e \<in> set entries \<Longrightarrow> length e = RECIPIENT_LENGTH" "TAG \<le> length ic" "length ic \<le> MAX_INFO_LENGTH"
    and "0 < length entries" "length entries \<le> 255" "int n \<le> MAX_SAFE_INTEGER"
  shows "parseHeader (headerBytes n entries ic @ xs) = Inr (builtHeader n entries ic)"
proof -
  let ?file = "headerBytes n entries ic @ xs"
  have fixed: "readFully ?file (PREFIX_LENGTH + 1) 0 = buildPrefix n @ [word_of_nat (length entries)]"
    by (simp add: readFully_def headerBytes_def PREFIX_LENGTH_def)
  have "n < 256 ^ 8" using assms(6) by (simp add: MAX_SAFE_INTEGER_def)
  then have "read_be (write_be 8 n) = n" by (rule read_write_be_small)
  moreover have "read_be (write_be 4 SEGMENT_SIZE) = SEGMENT_SIZE"
    by (rule read_write_be_small) (simp add: SEGMENT_SIZE_def)
  moreover have "unat (word_of_nat (length entries) :: byte) = length entries"
    using assms(5) by (simp add: unat_of_nat)
  ultimately show ?thesis
    unfolding parseHeader_def Let_def fixed
    using assms(4,6) by (simp add: nth_append buildPrefix_parts PREFIX_LENGTH_def parseRest_built [OF assms(1-3)])
qed

section \<open>Recipients\<close>

definition entryFor :: "lockedCrypto \<Rightarrow> bytes \<Rightarrow> bytes \<Rightarrow> bytes \<Rightarrow> bytes \<Rightarrow> bytes" where
  "entryFor c prefix fileKey publicKey ephemeral =
     (let kid = take 8 (sha256 c publicKey); ephemeralPublic = x25519Public c ephemeral
      in kid @ ephemeralPublic @
         seal c (hkdf c (x25519Shared c ephemeral publicKey) prefix ''wrap'') ZERO_NONCE fileKey (wrapAad kid ephemeralPublic))"

lemma buildRecipient_eq:
  "buildRecipient c prefix fileKey (pub, eph) = Inr e \<longleftrightarrow>
     length pub = 32 \<and> \<not> list_all (\<lambda>b. b = 0) (x25519Shared c eph pub) \<and> e = entryFor c prefix fileKey pub eph"
  by (auto simp: buildRecipient_def keyId_def sharedSecret_def assertRawKey_def entryFor_def Let_def KEY_ID_LENGTH_def)

lemma traverse_recipients:
  "traverseR (buildRecipient c prefix fileKey) rs = Inr entries \<longleftrightarrow>
     (\<forall>(pub, eph) \<in> set rs. length pub = 32 \<and> \<not> list_all (\<lambda>b. b = 0) (x25519Shared c eph pub)) \<and>
     entries = map (\<lambda>(pub, eph). entryFor c prefix fileKey pub eph) rs"
proof (induction rs arbitrary: entries)
  case (Cons r rs)
  obtain pub eph where r: "r = (pub, eph)" by fastforce
  show ?case
    by (auto simp: r bindR_eq_Inr mapR_eq_Inr buildRecipient_eq Cons)
qed auto

lemma buildRecipients_eq:
  "buildRecipients c prefix fileKey rs = Inr out \<longleftrightarrow>
     0 < length rs \<and> length rs \<le> 255 \<and>
     (\<forall>(pub, eph) \<in> set rs. length pub = 32 \<and> \<not> list_all (\<lambda>b. b = 0) (x25519Shared c eph pub)) \<and>
     out = word_of_nat (length rs) # concat (map (\<lambda>(pub, eph). entryFor c prefix fileKey pub eph) rs)"
  by (auto simp: buildRecipients_def bindR_eq_Inr traverse_recipients)

lemma length_entryFor:
  assumes "aead_ok c" "x25519_ok c" "length fileKey = 32"
  shows "length (entryFor c prefix fileKey pub eph) = RECIPIENT_LENGTH"
  using assms by (simp add: entryFor_def Let_def length_seal x25519_ok_def sizes)

lemma entryOf_entryFor:
  assumes "x25519_ok c"
  shows "entryOf (entryFor c prefix fileKey pub eph) =
    \<lparr>recipient_keyId = take 8 (sha256 c pub), recipient_ephemeral = x25519Public c eph,
     recipient_wrapped = seal c (hkdf c (x25519Shared c eph pub) prefix ''wrap'') ZERO_NONCE fileKey
       (wrapAad (take 8 (sha256 c pub)) (x25519Public c eph))\<rparr>"
proof -
  have l: "length (sha256 c pub) = 32" "length (x25519Public c eph) = 32" using assms by (simp_all add: x25519_ok_def)
  then have "drop 8 (take 8 (sha256 c pub) @ xs) = xs" "take 8 (take 8 (sha256 c pub) @ xs) = take 8 (sha256 c pub)"
    "drop 40 (take 8 (sha256 c pub) @ x25519Public c eph @ xs) = xs" for xs
    by simp_all
  with l show ?thesis unfolding entryOf_def entryFor_def Let_def by simp
qed

text \<open>No other recipient's key id is this key's: the ids are eight bytes of a digest.\<close>

definition id_unique :: "lockedCrypto \<Rightarrow> (bytes \<times> bytes) list \<Rightarrow> bytes \<Rightarrow> bool" where
  "id_unique c rs publicKey \<longleftrightarrow>
     (\<forall>r \<in> set rs. take 8 (sha256 c (fst r)) = take 8 (sha256 c publicKey) \<longrightarrow> fst r = publicKey)"

lemma unwrap_recipient:
  assumes ok: "aead_ok c" "x25519_ok c" and key: "length privateKey = 32"
    and rs: "x25519Public c privateKey \<in> fst ` set rs" "id_unique c rs (x25519Public c privateKey)"
    and nz: "\<forall>(pub, eph) \<in> set rs. length pub = 32 \<and> \<not> list_all (\<lambda>b. b = 0) (x25519Shared c eph pub)"
    and h: "recipients h = map (\<lambda>(pub, eph). entryOf (entryFor c (header_prefix h) fileKey pub eph)) rs"
  shows "unwrapFileKey c h privateKey = Inr fileKey"
proof -
  let ?pub = "x25519Public c privateKey"
  let ?P = "\<lambda>entry. recipient_keyId entry = take 8 (sha256 c ?pub)"
  have pub: "length ?pub = 32" using ok(2) by (simp add: x25519_ok_def)
  have ids: "?P (entryOf (entryFor c (header_prefix h) fileKey pub eph)) \<longleftrightarrow> take 8 (sha256 c pub) = take 8 (sha256 c ?pub)" for pub eph
    by (simp add: entryOf_entryFor [OF ok(2)])
  obtain r where r: "find (?P) (recipients h) = Some r"
  proof (cases "find ?P (recipients h)")
    case None
    then have "\<not> (\<exists>r \<in> set rs. fst r = ?pub)"
      unfolding find_None_iff h using ids by fastforce
    with rs(1) show ?thesis by auto
  qed
  then obtain pub eph where mem: "(pub, eph) \<in> set rs" and req: "r = entryOf (entryFor c (header_prefix h) fileKey pub eph)" and "?P r"
    unfolding find_Some_iff h by (auto simp: case_prod_beta) (metis nth_mem prod.collapse)
  then have "pub = ?pub" using rs(2) ids unfolding id_unique_def by fastforce
  have sh: "x25519Shared c privateKey (x25519Public c eph) = x25519Shared c eph ?pub"
    using ok(2) by (simp add: x25519_ok_def)
  moreover have "\<not> list_all (\<lambda>b. b = 0) (x25519Shared c eph ?pub)" using nz mem \<open>pub = ?pub\<close> by auto
  moreover have "length (x25519Public c eph) = 32" using ok(2) by (simp add: x25519_ok_def)
  ultimately have "sharedSecret c privateKey (recipient_ephemeral r) = Inr (x25519Shared c eph ?pub)"
    by (simp add: req \<open>pub = ?pub\<close> entryOf_entryFor [OF ok(2)] sharedSecret_def assertRawKey_def Let_def)
  with r pub key show ?thesis
    unfolding unwrapFileKey_def publicKeyFromPrivate_def keyId_def assertRawKey_def
    by (simp add: KEY_ID_LENGTH_def req \<open>pub = ?pub\<close> entryOf_entryFor [OF ok(2)] unseal_seal [OF ok(1)])
qed

lemma unwrap_stranger:
  assumes "x25519_ok c" "length privateKey = 32"
    and "take 8 (sha256 c (x25519Public c privateKey)) \<notin> set (keyIds (builtHeader n entries ic))"
  shows "unwrapFileKey c (builtHeader n entries ic) privateKey = Inl WrongSecretError"
proof -
  let ?kid = "take 8 (sha256 c (x25519Public c privateKey))"
  have "find (\<lambda>entry. recipient_keyId entry = ?kid) (recipients (builtHeader n entries ic)) = None"
    using assms(3) unfolding find_None_iff builtHeader_def by force
  moreover have "length (x25519Public c privateKey) = 32" using assms(1) by (simp add: x25519_ok_def)
  ultimately show ?thesis
    using assms(2) by (simp add: unwrapFileKey_def publicKeyFromPrivate_def keyId_def assertRawKey_def KEY_ID_LENGTH_def)
qed

section \<open>Files\<close>

text \<open>\<open>locked_file c p key rs info file\<close>: the file holds \<open>p\<close> under the file key, for these recipients, with this info.\<close>

definition entriesFor :: "lockedCrypto \<Rightarrow> bytes \<Rightarrow> bytes \<Rightarrow> (bytes \<times> bytes) list \<Rightarrow> bytes list" where
  "entriesFor c prefix fileKey rs = map (\<lambda>(pub, eph). entryFor c prefix fileKey pub eph) rs"

definition sealedInfo :: "lockedCrypto \<Rightarrow> bytes \<Rightarrow> bytes \<Rightarrow> json \<Rightarrow> bytes" where
  "sealedInfo c prefix fileKey info = seal c (hkdf c fileKey prefix ''info'') ZERO_NONCE (jsonBytes c info) []"

definition sealedSegments :: "lockedCrypto \<Rightarrow> bytes \<Rightarrow> bytes \<Rightarrow> bytes" where
  "sealedSegments c key p = concat (map (sealSegment c key p) [0..<segmentCount (length p)])"

definition locked_header :: "lockedCrypto \<Rightarrow> bytes \<Rightarrow> bytes \<Rightarrow> (bytes \<times> bytes) list \<Rightarrow> json \<Rightarrow> parsedHeader" where
  "locked_header c p fileKey rs info =
     builtHeader (length p) (entriesFor c (buildPrefix (length p)) fileKey rs) (sealedInfo c (buildPrefix (length p)) fileKey info)"

definition locked_file :: "lockedCrypto \<Rightarrow> bytes \<Rightarrow> bytes \<Rightarrow> (bytes \<times> bytes) list \<Rightarrow> json \<Rightarrow> bytes \<Rightarrow> bool" where
  "locked_file c p fileKey rs info file \<longleftrightarrow>
     (let prefix = buildPrefix (length p); ic = sealedInfo c prefix fileKey info
      in file = headerBytes (length p) (entriesFor c prefix fileKey rs) ic @
                sealedSegments c (hkdf c fileKey prefix ''segment'') p \<and>
         length ic \<le> MAX_INFO_LENGTH \<and> 0 < length rs \<and> length rs \<le> 255 \<and>
         (\<forall>(pub, eph) \<in> set rs. length pub = 32 \<and> \<not> list_all (\<lambda>b. b = 0) (x25519Shared c eph pub)))"

lemma header_fields:
  "plaintextLength (locked_header c p fileKey rs info) = length p"
  "header_prefix (locked_header c p fileKey rs info) = buildPrefix (length p)"
  "infoCiphertext (locked_header c p fileKey rs info) = sealedInfo c (buildPrefix (length p)) fileKey info"
  "recipients (locked_header c p fileKey rs info) =
     map (\<lambda>(pub, eph). entryOf (entryFor c (buildPrefix (length p)) fileKey pub eph)) rs"
  by (auto simp: locked_header_def builtHeader_def entriesFor_def)

text \<open>What a recipient may rely on: keys of the right length and a file length JavaScript can hold.\<close>

definition setting_ok :: "lockedCrypto \<Rightarrow> bytes \<Rightarrow> bytes \<Rightarrow> json \<Rightarrow> bool" where
  "setting_ok c p fileKey info \<longleftrightarrow>
     aead_ok c \<and> x25519_ok c \<and> json_ok c info \<and> length fileKey = 32 \<and> int (length p) \<le> MAX_SAFE_INTEGER"

lemma locked_file_read:
  assumes "setting_ok c p fileKey info" "locked_file c p fileKey rs info file"
  shows "parseHeader file = Inr (locked_header c p fileKey rs info)"
    and "drop (headerLength (locked_header c p fileKey rs info)) file = sealedSegments c (hkdf c fileKey (buildPrefix (length p)) ''segment'') p"
    and "assertFileLength file (locked_header c p fileKey rs info) = Inr ()"
proof -
  have ok: "aead_ok c" "x25519_ok c" "length fileKey = 32" "int (length p) \<le> MAX_SAFE_INTEGER"
    using assms(1) by (simp_all add: setting_ok_def)
  let ?prefix = "buildPrefix (length p)"
  let ?es = "entriesFor c ?prefix fileKey rs" and ?ic = "sealedInfo c ?prefix fileKey info"
  have es: "length e = RECIPIENT_LENGTH" if "e \<in> set ?es" for e
    using that length_entryFor [OF ok(1,2,3)] by (auto simp: entriesFor_def)
  have ic: "TAG \<le> length ?ic" by (simp add: sealedInfo_def length_seal [OF ok(1)] TAG_def)
  have shape: "file = headerBytes (length p) ?es ?ic @ sealedSegments c (hkdf c fileKey ?prefix ''segment'') p"
    "length ?ic \<le> MAX_INFO_LENGTH" "0 < length ?es" "length ?es \<le> 255"
    using assms(2) by (auto simp: locked_file_def Let_def entriesFor_def)
  show "parseHeader file = Inr (locked_header c p fileKey rs info)"
    unfolding shape(1) locked_header_def using parseHeader_built [OF es ic shape(2,3,4) ok(4)] by simp
  have hl: "length (headerBytes (length p) ?es ?ic) = headerLength (locked_header c p fileKey rs info)"
    unfolding locked_header_def by (rule length_headerBytes [OF es])
  show "drop (headerLength (locked_header c p fileKey rs info)) file = sealedSegments c (hkdf c fileKey ?prefix ''segment'') p"
    unfolding shape(1) hl [symmetric] by simp
  show "assertFileLength file (locked_header c p fileKey rs info) = Inr ()"
    unfolding assertFileLength_def expectedFileLength_def header_fields
    using hl shape(1) length_sealed [OF ok(1)] by (simp add: sealedSegments_def)
qed

lemma locked_file_info:
  assumes "setting_ok c p fileKey info"
  shows "openInfo c (locked_header c p fileKey rs info) fileKey = Inr info"
  using assms by (simp add: openInfo_def header_fields sealedInfo_def setting_ok_def json_ok_def)

lemma locked_file_segment:
  assumes "setting_ok c p fileKey info" "locked_file c p fileKey rs info file" "i < segmentCount (length p)"
  shows "openSegment c file (locked_header c p fileKey rs info) (hkdf c fileKey (buildPrefix (length p)) ''segment'') i = Inr (segment p i)"
  using assms locked_file_read(2) [OF assms(1,2)]
  by (intro openSegment_sealed) (simp_all add: setting_ok_def header_fields sealedSegments_def)

definition recipient :: "lockedCrypto \<Rightarrow> (bytes \<times> bytes) list \<Rightarrow> bytes \<Rightarrow> bool" where
  "recipient c rs privateKey \<longleftrightarrow>
     length privateKey = 32 \<and> x25519Public c privateKey \<in> fst ` set rs \<and> id_unique c rs (x25519Public c privateKey)"

lemma locked_file_key:
  assumes "setting_ok c p fileKey info" "locked_file c p fileKey rs info file" "recipient c rs privateKey"
  shows "unwrapFileKey c (locked_header c p fileKey rs info) privateKey = Inr fileKey"
  using assms by (intro unwrap_recipient [where rs = rs])
    (simp_all add: setting_ok_def locked_file_def Let_def recipient_def header_fields)

lemma last_segment: "n \<noteq> 0 \<Longrightarrow> i \<le> (n - 1) div SEGMENT_SIZE \<Longrightarrow> i < segmentCount n"
  by (auto simp: segmentCount_def SEGMENT_SIZE_def max_def)

text \<open>A recipient gets as far as the segments, whatever the range.\<close>

lemma openDecrypt_recipient:
  assumes "setting_ok c p fileKey info" "locked_file c p fileKey rs info file" "recipient c rs privateKey"
    and "start = (case rng of None \<Rightarrow> 0 | Some (s, _) \<Rightarrow> s)"
    and "end = (case rng of None \<Rightarrow> int (length p) - 1 | Some (_, e) \<Rightarrow> e)"
  shows "openDecrypt c file privateKey rng =
    (if rng \<noteq> None \<and> (\<not> isSafeInteger start \<or> \<not> isSafeInteger end \<or> start < 0 \<or> start > end \<or> end \<ge> int (length p))
     then Inl RangeError
     else let first = (if length p = 0 then 0 else nat (start div int SEGMENT_SIZE));
              final = (if length p = 0 then 0 else nat (end div int SEGMENT_SIZE))
          in Inr (streamSegments (openSegment c file (locked_header c p fileKey rs info)
               (hkdf c fileKey (buildPrefix (length p)) ''segment'')) first final start end [first..<final + 1], length p, info))"
  unfolding openDecrypt_def Let_def locked_file_read(1) [OF assms(1,2)] bindR_simps header_fields assms(4,5)
    locked_file_key [OF assms(1-3)] locked_file_info [OF assms(1)] locked_file_read(3) [OF assms(1,2)] sum.case
  by (rule refl)

lemma openDecrypt_slice:
  assumes "setting_ok c p fileKey info" "locked_file c p fileKey rs info file" "start < stop" "stop \<le> length p"
    and "first = nat (int start div int SEGMENT_SIZE)" "final = nat ((int stop - 1) div int SEGMENT_SIZE)"
  shows "streamSegments (openSegment c file (locked_header c p fileKey rs info)
      (hkdf c fileKey (buildPrefix (length p)) ''segment'')) first final (int start) (int stop - 1) [first..<final + 1] =
    (take (stop - start) (drop start p), None)"
proof -
  have idx: "first = start div SEGMENT_SIZE" "final = (stop - 1) div SEGMENT_SIZE"
    using assms(3,5,6) by (simp_all add: nat_div_distrib nat_diff_distrib)
  have seg: "openSegment c file (locked_header c p fileKey rs info)
      (hkdf c fileKey (buildPrefix (length p)) ''segment'') i = Inr (segment p i)" if "first \<le> i" "i \<le> final" for i
  proof (rule locked_file_segment [OF assms(1,2)])
    have "i \<le> (length p - 1) div SEGMENT_SIZE"
      using that(2) assms(4) unfolding idx by (meson diff_le_mono div_le_mono order_trans)
    then show "i < segmentCount (length p)" using assms(3,4) by (intro last_segment) auto
  qed
  have "first \<le> final" using assms(3) unfolding idx by (intro div_le_mono) simp
  from stream_slice [OF assms(3,4) idx seg order_refl this] show ?thesis
    by (simp add: wanted_def max_absorb1 drop_take idx)
qed

lemma openDecrypt_range:
  assumes "setting_ok c p fileKey info" "locked_file c p fileKey rs info file" "recipient c rs privateKey"
  shows "openDecrypt c file privateKey (Some (s, e)) =
    (if 0 \<le> s \<and> s \<le> e \<and> e < int (length p)
     then Inr ((take (nat (e - s + 1)) (drop (nat s) p), None), length p, info) else Inl RangeError)"
proof (cases "0 \<le> s \<and> s \<le> e \<and> e < int (length p)")
  case True
  have safe: "isSafeInteger s" "isSafeInteger e"
    using assms(1) True by (auto simp: setting_ok_def isSafeInteger_def MAX_SAFE_INTEGER_def)
  have eqs: "int (nat s) = s" "int (nat e + 1) - 1 = e" "nat e + 1 - nat s = nat (e - s + 1)" "length p \<noteq> 0"
    using True by auto
  have "nat s < nat e + 1" "nat e + 1 \<le> length p" using True by auto
  from openDecrypt_slice [OF assms(1,2) this refl refl] show ?thesis
    unfolding openDecrypt_recipient [OF assms refl refl] eqs(1,2,3) using True safe eqs(4)
    by (simp add: Let_def del: upt_Suc)
next
  case False
  then show ?thesis unfolding openDecrypt_recipient [OF assms refl refl] by auto
qed

lemma openDecrypt_whole:
  assumes "setting_ok c p fileKey info" "locked_file c p fileKey rs info file" "recipient c rs privateKey"
  shows "openDecrypt c file privateKey None = Inr ((p, None), length p, info)"
proof (cases "length p = 0")
  case True
  then have "segment p 0 = []" by (simp add: segment_def)
  with True locked_file_segment [OF assms(1,2), of 0] show ?thesis
    unfolding openDecrypt_recipient [OF assms refl refl] by (simp add: Let_def segmentCount_pos)
next
  case False
  with openDecrypt_slice [OF assms(1,2), of 0 "length p"] show ?thesis
    unfolding openDecrypt_recipient [OF assms refl refl] by (simp add: Let_def del: upt_Suc)
qed

section \<open>Writing and rewriting\<close>

lemma encryptFile_locked:
  assumes "encryptFile c p fileKey rs info verify = Inr (file, digest)"
  shows "locked_file c p fileKey rs info file"
  using assms
  by (auto simp: encryptFile_def Let_def bindR_eq_Inr buildRecipients_eq locked_file_def sealedInfo_def
      headerBytes_def entriesFor_def sealedSegments_def split: if_splits)

lemma traverseR_all: "(\<And>i. i \<in> set is \<Longrightarrow> f i = Inr (g i)) \<Longrightarrow> traverseR f is = Inr (map g is)"
  by (induction "is") auto

lemma verifyWithFileKey_ok:
  assumes "setting_ok c p fileKey info" "locked_file c p fileKey rs info file"
  shows "verifyWithFileKey c file fileKey (buildPrefix (length p)) info = Inr (sha256 c p)"
proof -
  have "traverseR (openSegment c file (locked_header c p fileKey rs info) (hkdf c fileKey (buildPrefix (length p)) ''segment''))
      [0..<segmentCount (length p)] = Inr (map (segment p) [0..<segmentCount (length p)])"
    by (rule traverseR_all) (simp add: locked_file_segment [OF assms])
  then show ?thesis
    unfolding verifyWithFileKey_def locked_file_read(1) [OF assms] bindR_simps header_fields
      locked_file_read(3) [OF assms] locked_file_info [OF assms(1)]
    by (simp add: concat_all_segments)
qed

text \<open>Asking for verification changes nothing but the digest returned: it never fails on what was just written.\<close>

lemma encryptFile_digest:
  assumes "setting_ok c p fileKey info" "encryptFile c p fileKey rs info verify = Inr (file, digest)"
  shows "digest = (if verify then Some (sha256 c p) else None)"
  using assms(2) verifyWithFileKey_ok [OF assms(1) encryptFile_locked [OF assms(2)]]
  by (auto simp: encryptFile_def Let_def bindR_eq_Inr split: if_splits)

text \<open>Conversely a file of that shape is what is written.\<close>

lemma encryptFile_writes:
  assumes "setting_ok c p fileKey info" "locked_file c p fileKey rs info file"
  shows "encryptFile c p fileKey rs info verify = Inr (file, if verify then Some (sha256 c p) else None)"
proof -
  let ?prefix = "buildPrefix (length p)"
  have list: "buildRecipients c ?prefix fileKey rs = Inr (word_of_nat (length rs) # concat (entriesFor c ?prefix fileKey rs))"
    using assms(2) by (simp add: buildRecipients_eq locked_file_def Let_def entriesFor_def)
  have shape: "file = ?prefix @ (word_of_nat (length rs) # concat (entriesFor c ?prefix fileKey rs)) @
      write_be 4 (length (sealedInfo c ?prefix fileKey info)) @ sealedInfo c ?prefix fileKey info @
      concat (map (sealSegment c (hkdf c fileKey ?prefix ''segment'') p) [0..<segmentCount (length p)])"
    and len: "length (sealedInfo c ?prefix fileKey info) \<le> MAX_INFO_LENGTH"
    using assms(2) by (simp_all add: locked_file_def Let_def headerBytes_def sealedSegments_def entriesFor_def)
  then show ?thesis
    unfolding encryptFile_def Let_def list bindR_simps sealedInfo_def [symmetric] shape [symmetric]
    using verifyWithFileKey_ok [OF assms] by simp
qed

lemma copyLoop_all:
  assumes "whole \<le> length input - base" "offset \<le> whole"
  shows "copyLoop input base whole offset = take (whole - offset) (drop (base + offset) input)"
  using assms
proof (induction input base whole offset rule: copyLoop.induct)
  case (1 input base whole offset)
  define r where "r = drop (base + offset) input"
  show ?case
  proof (cases "offset + COPY_CHUNK \<le> whole")
    case True
    have pos: "0 < COPY_CHUNK" by (simp add: COPY_CHUNK_def SEALED_SEGMENT_def SEGMENT_SIZE_def)
    have "copyLoop input base whole (offset + COPY_CHUNK) = take (whole - (offset + COPY_CHUNK)) (drop COPY_CHUNK r)"
      using 1(1) 1(2) True pos by (simp add: r_def add.commute add.left_commute)
    moreover have "take (whole - offset) r = take COPY_CHUNK r @ take (whole - (offset + COPY_CHUNK)) (drop COPY_CHUNK r)"
      using True take_add [of COPY_CHUNK "whole - (offset + COPY_CHUNK)" r] by simp
    ultimately show ?thesis
      using True pos by (subst copyLoop.simps) (simp add: readFully_def r_def min_def)
  next
    case False
    then have "copyLoop input base whole (offset + COPY_CHUNK) = []" by (subst copyLoop.simps) simp
    with False 1(3) show ?thesis
      by (subst copyLoop.simps) (auto simp: readFully_def min_def)
  qed
qed

lemma rewrapFile_locked:
  assumes "setting_ok c p fileKey info" "locked_file c p fileKey rs info file" "recipient c rs privateKey"
    and "rewrapFile c file privateKey rs' = Inr file'"
  shows "locked_file c p fileKey rs' info file'"
proof -
  let ?h = "locked_header c p fileKey rs info"
  have len: "length file = expectedFileLength ?h"
    using locked_file_read(3) [OF assms(1,2)] by (simp add: assertFileLength_def split: if_splits)
  have "copyLoop file (headerLength ?h) (expectedFileLength ?h - headerLength ?h) 0 = drop (headerLength ?h) file"
    by (subst copyLoop_all) (simp_all add: len)
  then have copy: "copyLoop file (headerLength ?h) (expectedFileLength ?h - headerLength ?h) 0 =
      sealedSegments c (hkdf c fileKey (buildPrefix (length p)) ''segment'') p"
    using locked_file_read(2) [OF assms(1,2)] by simp
  have rec: "infoRecord ?h = write_be 4 (length (sealedInfo c (buildPrefix (length p)) fileKey info)) @
      sealedInfo c (buildPrefix (length p)) fileKey info"
    by (simp add: locked_header_def builtHeader_def)
  from assms(4) show ?thesis
    unfolding rewrapFile_def locked_file_read(1,3) [OF assms(1,2)] bindR_simps locked_file_key [OF assms(1-3)]
      locked_file_info [OF assms(1)] header_fields copy rec
    using assms(2) unfolding locked_file_def Let_def
    by (auto simp: bindR_eq_Inr buildRecipients_eq headerBytes_def entriesFor_def)
qed

lemma locked_file_unique: "locked_file c p k rs info f \<Longrightarrow> locked_file c p k rs info f' \<Longrightarrow> f = f'"
  by (simp add: locked_file_def Let_def)

lemma rewrapFile_writes:
  assumes "setting_ok c p fileKey info" "locked_file c p fileKey rs info file" "recipient c rs privateKey"
    and "locked_file c p fileKey rs' info file'"
  shows "rewrapFile c file privateKey rs' = Inr file'"
proof -
  have "\<exists>out. buildRecipients c (buildPrefix (length p)) fileKey rs' = Inr out"
    using assms(4) by (auto simp: buildRecipients_eq locked_file_def Let_def)
  then obtain f where "rewrapFile c file privateKey rs' = Inr f"
    unfolding rewrapFile_def locked_file_read(1,3) [OF assms(1,2)] bindR_simps locked_file_key [OF assms(1-3)]
      locked_file_info [OF assms(1)] header_fields by auto
  moreover from rewrapFile_locked [OF assms(1-3) this] assms(4) have "f = file'" by (rule locked_file_unique)
  ultimately show ?thesis by simp
qed

section \<open>What a reader accepts\<close>







section \<open>Properties\<close>

text \<open>
  C19. What a recipient reads from a locked file. For every source, every list of recipients and every
  choice of keys, if \<open>encryptFile\<close> writes a file then each recipient's private key reads back the info and
  the whole source, and for every byte range exactly the bytes of that range, or a range error when the
  range does not lie in the source; and the verification pass returns the digest of the source.
\<close>

theorem locked_file_roundtrip:
  assumes "setting_ok c p fileKey info" "encryptFile c p fileKey rs info verify = Inr (file, digest)" "recipient c rs privateKey"
  shows "openDecrypt c file privateKey None = Inr ((p, None), length p, info) \<and>
    openDecrypt c file privateKey (Some (s, e)) =
      (if 0 \<le> s \<and> s \<le> e \<and> e < int (length p)
       then Inr ((take (nat (e - s + 1)) (drop (nat s) p), None), length p, info) else Inl RangeError) \<and>
    digest = (if verify then Some (sha256 c p) else None)"
  using openDecrypt_whole [OF assms(1) encryptFile_locked [OF assms(2)] assms(3)]
    openDecrypt_range [OF assms(1) encryptFile_locked [OF assms(2)] assms(3), of s e]
    encryptFile_digest [OF assms(1,2)] by simp

definition pad :: "nat \<Rightarrow> bytes \<Rightarrow> bytes" where
  "pad n x = take n (x @ replicate n 0)"

text \<open>A concrete instance of the primitives, enough to run the code and to show that the hypotheses can hold.\<close>

definition exampleCrypto :: lockedCrypto where
  "exampleCrypto =
     \<lparr>hkdfSync = (\<lambda>key salt purpose. key),
      gcmSeal = (\<lambda>key nonce aad plain. (plain, pad 16 nonce)),
      gcmOpen = (\<lambda>key nonce aad ct tag. if tag = pad 16 nonce then Some ct else None),
      x25519Public = pad 32, x25519Shared = (\<lambda>a b. map (\<lambda>(x, y). x + y) (zip (pad 32 a) (pad 32 b))),
      sha256 = pad 32, jsonBytes = (\<lambda>_. []), jsonParse = (\<lambda>_. Some JNull)\<rparr>"

definition exampleKey :: "byte \<Rightarrow> bytes" where
  "exampleKey b = replicate 32 b"

lemma length_pad [simp]: "length (pad n x) = n"
  by (simp add: pad_def)

lemma pad_pad [simp]: "pad n (pad n x) = pad n x"
  by (simp add: pad_def)

lemma pad_exampleKey [simp]: "pad 32 (exampleKey b) = exampleKey b" "length (exampleKey b) = 32"
  by (simp_all add: pad_def exampleKey_def)

lemma exampleCrypto_ok: "aead_ok exampleCrypto" "x25519_ok exampleCrypto" "json_ok exampleCrypto JNull"
proof -
  show "aead_ok exampleCrypto" by (auto simp: aead_ok_def exampleCrypto_def)
  have "map (\<lambda>(x, y). x + y) (zip xs ys) = map (\<lambda>(x, y). x + y) (zip ys xs)" for xs ys :: bytes
    by (induction xs ys rule: list_induct2') (simp_all add: add.commute)
  then show "x25519_ok exampleCrypto" by (simp add: x25519_ok_def exampleCrypto_def)
  show "json_ok exampleCrypto JNull" by (simp add: json_ok_def exampleCrypto_def)
qed

definition exampleRecipients :: "(bytes \<times> bytes) list" where
  "exampleRecipients = [(exampleKey 1, exampleKey 2)]"

definition exampleFile :: "(bytes \<times> bytes) list \<Rightarrow> bytes" where
  "exampleFile rs =
     (let prefix = buildPrefix 3
      in headerBytes 3 (entriesFor exampleCrypto prefix (exampleKey 7) rs) (sealedInfo exampleCrypto prefix (exampleKey 7) JNull) @
         sealedSegments exampleCrypto (hkdf exampleCrypto (exampleKey 7) prefix ''segment'') [10, 20, 30])"

lemma example_locked:
  assumes "b \<in> {1, 3}"
  shows "locked_file exampleCrypto [10, 20, 30] (exampleKey 7) [(exampleKey b, exampleKey 2)] JNull (exampleFile [(exampleKey b, exampleKey 2)])"
proof -
  have "\<not> list_all (\<lambda>b. b = 0) (x25519Shared exampleCrypto (exampleKey 2) (exampleKey b))"
    using assms by (auto simp: exampleCrypto_def exampleKey_def pad_def list_all_iff)
  moreover have "length (sealedInfo exampleCrypto (buildPrefix 3) (exampleKey 7) JNull) \<le> MAX_INFO_LENGTH"
    by (simp add: sealedInfo_def length_seal [OF exampleCrypto_ok(1)] MAX_INFO_LENGTH_def) (simp add: exampleCrypto_def)
  moreover have three: "length [10, 20, 30 :: byte] = 3" by simp
  ultimately show ?thesis unfolding locked_file_def exampleFile_def Let_def three by simp
qed

lemma example_setting: "setting_ok exampleCrypto [10, 20, 30] (exampleKey 7) JNull"
  by (simp add: setting_ok_def exampleCrypto_ok MAX_SAFE_INTEGER_def)

lemma example_recipient: "recipient exampleCrypto exampleRecipients (exampleKey 1)"
proof -
  have "x25519Public exampleCrypto (exampleKey 1) = exampleKey 1" by (simp add: exampleCrypto_def)
  then show ?thesis by (simp add: recipient_def exampleRecipients_def id_unique_def)
qed

lemma example_file: "encryptFile exampleCrypto [10, 20, 30] (exampleKey 7) exampleRecipients JNull True =
    Inr (exampleFile exampleRecipients, Some (sha256 exampleCrypto [10, 20, 30]))"
  unfolding exampleRecipients_def by (subst encryptFile_writes [OF example_setting example_locked]) simp_all

theorem locked_file_roundtrip_witness:
  "openDecrypt exampleCrypto (exampleFile exampleRecipients) (exampleKey 1) (Some (1, 2)) = Inr (([20, 30], None), 3, JNull)"
  using locked_file_roundtrip [OF example_setting example_file example_recipient, of 1 2] by simp

text \<open>
  Changing who can open a file changes nothing else. After \<open>rewrapFile\<close> the new recipients read the
  same info and the same bytes, the sealed segments are the old ones byte for byte, and a key whose id is
  not in the new list is told it is the wrong secret, whether or not it could open the file before.
\<close>

theorem locked_rewrap:
  assumes "setting_ok c p fileKey info" "encryptFile c p fileKey rs info verify = Inr (file, digest)" "recipient c rs privateKey"
    and "rewrapFile c file privateKey rs' = Inr file'"
    and "recipient c rs' newKey" "length oldKey = 32"
    and "take 8 (sha256 c (x25519Public c oldKey)) \<notin> (\<lambda>r. take 8 (sha256 c (fst r))) ` set rs'"
  shows "decryptFile c file' newKey = Inr (p, info) \<and> decryptFile c file' oldKey = Inl WrongSecretError \<and>
    (\<exists>h h'. parseHeader file = Inr h \<and> parseHeader file' = Inr h' \<and> drop (headerLength h) file = drop (headerLength h') file')"
proof -
  have ok: "locked_file c p fileKey rs info file" by (rule encryptFile_locked [OF assms(2)])
  then have ok': "locked_file c p fileKey rs' info file'" by (rule rewrapFile_locked [OF assms(1) _ assms(3,4)])
  have x: "x25519_ok c" using assms(1) by (simp add: setting_ok_def)
  have "decryptFile c file' newKey = Inr (p, info)"
    using openDecrypt_whole [OF assms(1) ok' assms(5)] by (simp add: decryptFile_def)
  moreover have "unwrapFileKey c (locked_header c p fileKey rs' info) oldKey = Inl WrongSecretError"
    unfolding locked_header_def
    by (rule unwrap_stranger [OF x assms(6)])
       (use assms(7) in \<open>force simp: builtHeader_def entriesFor_def entryOf_entryFor [OF x]\<close>)
  then have "decryptFile c file' oldKey = Inl WrongSecretError"
    unfolding decryptFile_def openDecrypt_def Let_def locked_file_read(1) [OF assms(1) ok'] by simp
  ultimately show ?thesis
    using locked_file_read(1,2) [OF assms(1) ok] locked_file_read(1,2) [OF assms(1) ok'] by simp
qed

definition exampleRecipients' :: "(bytes \<times> bytes) list" where
  "exampleRecipients' = [(exampleKey 3, exampleKey 2)]"

lemma example_rewrap:
  "rewrapFile exampleCrypto (exampleFile exampleRecipients) (exampleKey 1) exampleRecipients' = Inr (exampleFile exampleRecipients')"
  using rewrapFile_writes [OF example_setting _ example_recipient] example_locked
  unfolding exampleRecipients_def exampleRecipients'_def by simp

lemma example_recipient': "recipient exampleCrypto exampleRecipients' (exampleKey 3)"
proof -
  have "x25519Public exampleCrypto (exampleKey 3) = exampleKey 3" by (simp add: exampleCrypto_def)
  then show ?thesis by (simp add: recipient_def exampleRecipients'_def id_unique_def)
qed

theorem locked_rewrap_witness:
  "decryptFile exampleCrypto (exampleFile exampleRecipients') (exampleKey 3) = Inr ([10, 20, 30], JNull) \<and>
   decryptFile exampleCrypto (exampleFile exampleRecipients') (exampleKey 1) = Inl WrongSecretError"
proof -
  have "take 8 (sha256 exampleCrypto (x25519Public exampleCrypto (exampleKey 1))) \<notin>
      (\<lambda>r. take 8 (sha256 exampleCrypto (fst r))) ` set exampleRecipients'"
    by (simp add: exampleCrypto_def exampleRecipients'_def) (simp add: exampleKey_def)
  from locked_rewrap [OF example_setting example_file example_recipient example_rewrap example_recipient' _ this] show ?thesis
    by simp
qed



end
