(* ===== verification/RecoveryKey.thy ===== *)
theory RecoveryKey
  imports LockedFormat
begin

text \<open>
  Recovery keys (\<open>packages/locked-crypto/src/recovery.ts\<close>): 160 random bits written as base32.

  The bit buffers of the two loops are 32-bit words, as JavaScript's shifts and masks compute them. A text
  is a string of code units below 256; \<open>toUpperCase\<close> is JavaScript's on those characters (the sharp s
  becomes two letters, and the two characters whose capital lies beyond are left, as neither form is a
  digit of the alphabet).
\<close>

unbundle bit_operations_syntax

section \<open>Model\<close>

definition ALPHABET :: string where
  "ALPHABET = ''ABCDEFGHIJKLMNOPQRSTUVWXYZ234567''"

definition PREFIX :: string where
  "PREFIX = ''FLRK''"

definition RAW_LENGTH :: nat where
  "RAW_LENGTH = 20"

definition ENCODED_LENGTH :: nat where
  "ENCODED_LENGTH = RAW_LENGTH * 8 div 5"

text \<open>The inner loop of \<open>encode\<close>: the digits it writes, while at least five bits are pending.\<close>

fun emitDigits :: "nat \<Rightarrow> 32 word \<Rightarrow> nat list" where
  "emitDigits bits val =
     (if 5 \<le> bits then unat (drop_bit (bits - 5) val AND 31) # emitDigits (bits - 5) val else [])"

declare emitDigits.simps [simp del]

fun encodeLoop :: "nat \<Rightarrow> 32 word \<Rightarrow> bytes \<Rightarrow> nat list" where
  "encodeLoop bits val [] = []"
| "encodeLoop bits val (byte # bs) =
     (let val' = push_bit 8 val OR ucast byte
      in emitDigits (bits + 8) val' @ encodeLoop ((bits + 8) mod 5) val' bs)"

definition encode :: "bytes \<Rightarrow> string" where
  "encode bs = map (\<lambda>d. ALPHABET ! d) (encodeLoop 0 0 bs)"

fun groups4 :: "string \<Rightarrow> string list" where
  "groups4 (a # b # c # d # s) = [a, b, c, d] # groups4 s"
| "groups4 _ = []"

fun join :: "string \<Rightarrow> string list \<Rightarrow> string" where
  "join sep [] = []"
| "join sep [x] = x"
| "join sep (x # y # xs) = x @ sep @ join sep (y # xs)"

text \<open>\<open>generateRecoveryKey\<close> for the random bytes it draws.\<close>

definition generateRecoveryKey :: "bytes \<Rightarrow> string" where
  "generateRecoveryKey raw = join ''-'' (PREFIX # groups4 (encode raw))"

definition upperChar :: "char \<Rightarrow> string" where
  "upperChar ch =
     (let n = of_char ch :: nat
      in if (97 \<le> n \<and> n \<le> 122) \<or> (224 \<le> n \<and> n \<le> 254 \<and> n \<noteq> 247) then [char_of (n - 32)]
         else if n = 223 then ''SS'' else [ch])"

definition toUpperCase :: "string \<Rightarrow> string" where
  "toUpperCase s = concat (map upperChar s)"

definition indexOf :: "char \<Rightarrow> string \<Rightarrow> nat option" where
  "indexOf ch s = (if ch \<in> set s then Some (length (takeWhile (\<lambda>x. x \<noteq> ch) s)) else None)"

datatype recoveryError = WrongLength | WrongCharacter

fun decodeLoop :: "nat \<Rightarrow> 32 word \<Rightarrow> string \<Rightarrow> recoveryError + bytes" where
  "decodeLoop bits val [] = Inr []"
| "decodeLoop bits val (ch # s) =
     (case indexOf ch ALPHABET of
        None \<Rightarrow> Inl WrongCharacter
      | Some digit \<Rightarrow>
          (let val' = (push_bit 5 val OR word_of_nat digit) AND 0xffff; bits' = bits + 5
           in if 8 \<le> bits' then
                mapR (\<lambda>out. ucast (drop_bit (bits' - 8) val' AND 0xff) # out) (decodeLoop (bits' - 8) val' s)
              else decodeLoop bits' val' s))"

definition compactKey :: "string \<Rightarrow> string" where
  "compactKey text =
     (let compact = filter (\<lambda>ch. \<not> is_space ch \<and> ch \<noteq> CHR ''-'') (toUpperCase text)
      in if length compact = length PREFIX + ENCODED_LENGTH \<and> take (length PREFIX) compact = PREFIX
         then drop (length PREFIX) compact else compact)"

definition parseRecoveryKey :: "string \<Rightarrow> recoveryError + bytes" where
  "parseRecoveryKey text =
     (let compact = compactKey text
      in if length compact \<noteq> ENCODED_LENGTH then Inl WrongLength else decodeLoop 0 0 compact)"

section \<open>Positional values\<close>

definition posVal :: "nat \<Rightarrow> nat list \<Rightarrow> nat" where
  "posVal base ds = foldl (\<lambda>n d. n * base + d) 0 ds"

lemma posVal_simps [simp]: "posVal b [] = 0" "posVal b (ds @ [d]) = posVal b ds * b + d"
  by (simp_all add: posVal_def)

lemma posVal_append: "posVal b (xs @ ys) = posVal b xs * b ^ length ys + posVal b ys"
proof (induction ys rule: rev_induct)
  case (snoc y ys)
  then show ?case by (simp flip: append_assoc add: algebra_simps)
qed simp

lemma posVal_inj:
  assumes "length xs = length ys" "\<forall>x \<in> set xs. x < b" "\<forall>y \<in> set ys. y < b" "posVal b xs = posVal b ys"
  shows "xs = ys"
  using assms
proof (induction xs arbitrary: ys rule: rev_induct)
  case (snoc x xs)
  then obtain y zs where ys: "ys = zs @ [y]" by (cases ys rule: rev_cases) auto
  with snoc.prems have *: "posVal b xs * b + x = posVal b zs * b + y" "x < b" "y < b" by auto
  then have "x = y" by (metis mod_less mod_mult_self3 add.commute)
  with * have "posVal b xs = posVal b zs" by auto
  with snoc ys \<open>x = y\<close> show ?case by auto
qed simp

section \<open>The bit buffers\<close>

lemma unat_low_bits: "unat (drop_bit k (v :: 32 word) AND 31) = unat v div 2 ^ k mod 32"
  and unat_low_byte: "unat (drop_bit k (v :: 32 word) AND 0xff) = unat v div 2 ^ k mod 256"
proof -
  have m: "(31 :: 32 word) = mask 5" "(0xff :: 32 word) = mask 8" by (simp_all add: mask_eq_exp_minus_1)
  show "unat (drop_bit k v AND 31) = unat v div 2 ^ k mod 32"
    unfolding m take_bit_eq_mask [symmetric] unsigned_take_bit_eq unat_drop_bit_eq
    by (simp add: take_bit_eq_mod drop_bit_eq_div)
  show "unat (drop_bit k v AND 0xff) = unat v div 2 ^ k mod 256"
    unfolding m take_bit_eq_mask [symmetric] unsigned_take_bit_eq unat_drop_bit_eq
    by (simp add: take_bit_eq_mod drop_bit_eq_div)
qed

lemma unat_low_half: "unat ((v :: 32 word) AND 0xffff) = unat v mod 2 ^ 16"
proof -
  have m: "(0xffff :: 32 word) = mask 16" by (simp add: mask_eq_exp_minus_1)
  show ?thesis unfolding m take_bit_eq_mask [symmetric] unsigned_take_bit_eq by (rule take_bit_eq_mod)
qed

lemma shift_in:
  fixes v x :: "32 word"
  assumes "unat x < 2 ^ k"
  shows "unat (push_bit k v OR x) = (unat v * 2 ^ k + unat x) mod 2 ^ 32"
proof -
  have "unat (take_bit k x) = unat x"
    unfolding unsigned_take_bit_eq using assms by (simp add: take_bit_eq_mod)
  then have x: "take_bit k x = x" by (simp only: unsigned_word_eqI)
  have "push_bit k v AND take_bit k x = 0"
    by (auto simp: bit_eq_iff bit_simps)
  then have "push_bit k v OR x = push_bit k v + x"
    unfolding x by (simp add: disjunctive_add_eq_or)
  also have "\<dots> = word_of_nat (unat v * 2 ^ k + unat x)" by (simp add: push_bit_eq_mult)
  finally show ?thesis by (simp only: unat_of_nat) simp
qed

lemma shift_in_low:
  assumes "x < 2 ^ k" "n + k \<le> m"
  shows "(v * 2 ^ k + x) mod 2 ^ m mod 2 ^ (n + k) = v mod 2 ^ n * 2 ^ k + (x :: nat)"
proof -
  have "(v * 2 ^ k + x) mod 2 ^ m mod 2 ^ (n + k) = (v * 2 ^ k + x) mod 2 ^ (n + k)"
    using assms(2) by (intro mod_mod_cancel le_imp_power_dvd)
  also have "\<dots> = (v * 2 ^ k + x) mod (2 ^ k * 2 ^ n)" by (simp add: power_add mult.commute)
  also have "\<dots> = 2 ^ k * ((v * 2 ^ k + x) div 2 ^ k mod 2 ^ n) + (v * 2 ^ k + x) mod 2 ^ k"
    by (rule mod_mult2_eq)
  finally show ?thesis using assms(1) by simp
qed

text \<open>
  Digits already written, of value \<open>h\<close>, followed by \<open>l\<close> digits of value \<open>p\<close> that represent \<open>t\<close> but for its
  last \<open>r\<close> bits.
\<close>

lemma combine_digits:
  fixes p t h :: nat
  assumes "p * 2 ^ r + t mod 2 ^ r = t"
  shows "(h * (2 ^ w) ^ l + p) * 2 ^ r + (h * 2 ^ (w * l + r) + t) mod 2 ^ r = h * 2 ^ (w * l + r) + t"
proof -
  define q where "q = h * (2 ^ w) ^ l"
  have q: "h * 2 ^ (w * l + r) = q * 2 ^ r" by (simp add: power_add power_mult q_def)
  have "(q + p) * 2 ^ r + t mod 2 ^ r = q * 2 ^ r + (p * 2 ^ r + t mod 2 ^ r)" by (simp add: distrib_right)
  also have "\<dots> = q * 2 ^ r + t" unfolding assms ..
  finally show ?thesis unfolding q q_def [symmetric] by simp
qed

lemma posVal_Cons: "posVal b (x # xs) = x * b ^ length xs + posVal b xs"
  using posVal_append [of b "[x]" xs] by (simp add: posVal_def)

lemma split_top: "v mod 2 ^ (k + w) = v div 2 ^ k mod 2 ^ w * 2 ^ k + v mod (2 ^ k :: nat)"
  using mod_mult2_eq [of v "2 ^ k" "2 ^ w"] by (simp add: power_add mult.commute)

lemma emitDigits_spec:
  "length (emitDigits bits v) = bits div 5 \<and> (\<forall>d \<in> set (emitDigits bits v). d < 32) \<and>
   posVal 32 (emitDigits bits v) * 2 ^ (bits mod 5) + unat v mod 2 ^ (bits mod 5) = unat v mod 2 ^ bits"
proof (induction bits v rule: emitDigits.induct)
  case (1 bits v)
  show ?case
  proof (cases "5 \<le> bits")
    case True
    define k where "k = bits - 5"
    define t where "t = unat v mod 2 ^ k"
    have k: "bits = k + 5" using True by (simp add: k_def)
    let ?d = "unat v div 2 ^ k mod 32"
    have e: "emitDigits bits v = ?d # emitDigits k v"
      using True by (subst emitDigits.simps) (simp add: unat_low_bits k_def)
    have ih: "length (emitDigits k v) = k div 5" "\<forall>d \<in> set (emitDigits k v). d < 32"
      "posVal 32 (emitDigits k v) * 2 ^ (k mod 5) + unat v mod 2 ^ (k mod 5) = t"
      using 1 True by (simp_all add: k_def t_def)
    have "t mod 2 ^ (k mod 5) = unat v mod 2 ^ (k mod 5)"
      by (simp add: t_def mod_mod_cancel le_imp_power_dvd)
    with ih(3) have "posVal 32 (emitDigits k v) * 2 ^ (k mod 5) + t mod 2 ^ (k mod 5) = t" by simp
    from combine_digits [OF this, of ?d 5 "k div 5"]
    have "(?d * 32 ^ (k div 5) + posVal 32 (emitDigits k v)) * 2 ^ (k mod 5) + (?d * 2 ^ k + t) mod 2 ^ (k mod 5) = ?d * 2 ^ k + t"
      by simp
    moreover have "?d * 2 ^ k + t = unat v mod 2 ^ bits"
      unfolding k t_def using split_top [of "unat v" k 5] by simp
    moreover have "unat v mod 2 ^ bits mod 2 ^ (k mod 5) = unat v mod 2 ^ (k mod 5)"
      by (rule mod_mod_cancel) (simp add: le_imp_power_dvd k order_trans [OF mod_less_eq_dividend])
    ultimately show ?thesis using ih(1,2) k unfolding e by (simp add: posVal_Cons)
  next
    case False
    then show ?thesis by (subst (1 2 3) emitDigits.simps) simp
  qed
qed

text \<open>Both loops turn a number held in one base into the same number in the other, up to the bits still pending.\<close>

lemma encodeLoop_spec:
  assumes "bits < 5" "t = unat v mod 2 ^ bits * 256 ^ length bs + posVal 256 (map unat bs)"
    and "r = (bits + 8 * length bs) mod 5"
  shows "length (encodeLoop bits v bs) = (bits + 8 * length bs) div 5 \<and> (\<forall>d \<in> set (encodeLoop bits v bs). d < 32) \<and>
    posVal 32 (encodeLoop bits v bs) * 2 ^ r + t mod 2 ^ r = t"
  using assms
proof (induction bs arbitrary: bits v t r)
  case (Cons byte bs)
  define v' where "v' = push_bit 8 v OR (ucast byte :: 32 word)"
  define b1 where "b1 = (bits + 8) mod 5"
  define t1 where "t1 = unat v' mod 2 ^ b1 * 256 ^ length bs + posVal 256 (map unat bs)"
  let ?e = "emitDigits (bits + 8) v'" and ?l = "encodeLoop b1 v' bs"
  have byte: "unat (ucast byte :: 32 word) = unat byte" "unat byte < 256"
    using unsigned_less [of byte, where 'a = nat] by (simp_all add: unsigned_ucast_eq take_bit_nat_eq_self)
  then have "unat v' = (unat v * 2 ^ 8 + unat byte) mod 2 ^ 32"
    unfolding v'_def by (subst shift_in) simp_all
  then have low: "unat v' mod 2 ^ (bits + 8) = unat v mod 2 ^ bits * 256 + unat byte"
    using shift_in_low [of "unat byte" 8 bits 32 "unat v"] byte(2) Cons.prems(1) by simp
  have b1: "b1 < 5" "r = (b1 + 8 * length bs) mod 5" using Cons.prems(3) by (simp_all add: b1_def mod_add_left_eq add.assoc)
  note l = Cons.IH [OF b1(1) t1_def b1(2)]
  note e = emitDigits_spec [of "bits + 8" v', folded b1_def]
  have "posVal 32 ?e * 2 ^ (5 * length ?l + r) + t1 =
      (posVal 32 ?e * 2 ^ b1 + unat v' mod 2 ^ b1) * 256 ^ length bs + posVal 256 (map unat bs)"
  proof -
    have "5 * length ?l + r = b1 + 8 * length bs" using l b1(2) by simp
    then have "(2 :: nat) ^ (5 * length ?l + r) = 2 ^ b1 * (2 ^ 8) ^ length bs" by (simp add: power_add power_mult)
    then show ?thesis by (simp add: t1_def distrib_right)
  qed
  also have "\<dots> = t"
    using e low Cons.prems(2) by (simp add: posVal_Cons distrib_right mult.assoc)
  finally have t: "posVal 32 ?e * 2 ^ (5 * length ?l + r) + t1 = t" .
  have "(posVal 32 ?e * 32 ^ length ?l + posVal 32 ?l) * 2 ^ r + t mod 2 ^ r = t"
    using combine_digits [of "posVal 32 ?l" r t1 "posVal 32 ?e" 5 "length ?l"] l t by simp
  moreover have "(bits + 8) div 5 + (b1 + 8 * length bs) div 5 = (bits + 8 * Suc (length bs)) div 5"
    unfolding b1_def by presburger
  moreover have "encodeLoop bits v (byte # bs) = ?e @ ?l" by (simp add: v'_def b1_def Let_def)
  moreover have "\<forall>d \<in> set (?e @ ?l). d < 32" using l e by auto
  ultimately show ?case using l e by (simp add: posVal_append ball_Un)
qed simp

definition digitOf :: "char \<Rightarrow> nat" where
  "digitOf ch = (case indexOf ch ALPHABET of Some d \<Rightarrow> d | None \<Rightarrow> 0)"

lemma alphabet_facts: "length ALPHABET = 32" "distinct ALPHABET"
  by (simp_all add: ALPHABET_def)

lemma indexOf_nth:
  assumes "d < 32"
  shows "indexOf (ALPHABET ! d) ALPHABET = Some d"
proof -
  have "takeWhile (\<lambda>x. x \<noteq> ALPHABET ! d) ALPHABET = take d ALPHABET"
    using assms alphabet_facts by (intro takeWhile_eq_take_P_nth) (auto simp: nth_eq_iff_index_eq)
  with assms alphabet_facts(1) show ?thesis by (simp add: indexOf_def)
qed

lemma digit_of_letter:
  assumes "ch \<in> set ALPHABET"
  shows "indexOf ch ALPHABET = Some (digitOf ch)" "digitOf ch < 32" "ALPHABET ! digitOf ch = ch"
proof -
  obtain d where d: "d < 32" "ALPHABET ! d = ch" using assms alphabet_facts(1) by (auto simp: in_set_conv_nth)
  then have "indexOf ch ALPHABET = Some d" using indexOf_nth by blast
  with d show "indexOf ch ALPHABET = Some (digitOf ch)" "digitOf ch < 32" "ALPHABET ! digitOf ch = ch"
    by (simp_all add: digitOf_def)
qed

lemma decodeLoop_valid: "decodeLoop bits v s = Inr out \<Longrightarrow> set s \<subseteq> set ALPHABET"
  by (induction s arbitrary: bits v out)
     (auto simp: Let_def mapR_eq_Inr indexOf_def split: option.splits if_splits)

lemma decodeLoop_spec:
  assumes "bits < 8" "set s \<subseteq> set ALPHABET" "t = unat v mod 2 ^ bits * 32 ^ length s + posVal 32 (map digitOf s)"
    and "r = (bits + 5 * length s) mod 8"
  shows "\<exists>out. decodeLoop bits v s = Inr out \<and> length out = (bits + 5 * length s) div 8 \<and>
    posVal 256 (map unat out) * 2 ^ r + t mod 2 ^ r = t"
  using assms
proof (induction s arbitrary: bits v t r)
  case (Cons ch s)
  define d where "d = digitOf ch"
  have d: "indexOf ch ALPHABET = Some d" "d < 32" "digitOf ch = d"
    using Cons.prems(2) digit_of_letter [of ch] by (simp_all add: d_def)
  define v' where "v' = (push_bit 5 v OR (word_of_nat d :: 32 word)) AND 0xffff"
  have "unat v' = unat (push_bit 5 v OR (word_of_nat d :: 32 word)) mod 2 ^ 16"
    unfolding v'_def by (rule unat_low_half)
  also have "unat (push_bit 5 v OR (word_of_nat d :: 32 word)) = (unat v * 2 ^ 5 + d) mod 2 ^ 32"
    using d(2) by (subst shift_in) (simp_all add: unat_of_nat)
  finally have "unat v' = (unat v * 2 ^ 5 + d) mod 2 ^ 16" by (simp add: mod_mod_cancel)
  then have low: "unat v' mod 2 ^ (bits + 5) = unat v mod 2 ^ bits * 32 + d"
    using shift_in_low [of d 5 bits 16 "unat v"] d(2) Cons.prems(1) by simp
  have t: "t = (unat v' mod 2 ^ (bits + 5)) * 32 ^ length s + posVal 32 (map digitOf s)"
    using Cons.prems(3) low d(3) by (simp add: posVal_Cons distrib_right mult.assoc)
  show ?case
  proof (cases "8 \<le> bits + 5")
    case False
    then have "\<exists>out. decodeLoop (bits + 5) v' s = Inr out \<and> length out = (bits + 5 + 5 * length s) div 8 \<and>
        posVal 256 (map unat out) * 2 ^ r + t mod 2 ^ r = t"
      using Cons.prems(2,4) t by (intro Cons.IH) (auto simp: add.assoc)
    with False d show ?thesis by (simp add: Let_def v'_def add.assoc)
  next
    case True
    define k where "k = bits + 5 - 8"
    have k: "bits + 5 = k + 8" "k < 8" using True Cons.prems(1) by (simp_all add: k_def)
    define b where "b = (ucast (drop_bit k v' AND 0xff) :: byte)"
    have b: "unat b = unat v' div 2 ^ k mod 256"
      unfolding b_def unsigned_ucast_eq unat_low_byte by (simp add: take_bit_nat_eq_self)
    define t1 where "t1 = unat v' mod 2 ^ k * 32 ^ length s + posVal 32 (map digitOf s)"
    have r: "r = (k + 5 * length s) mod 8"
    proof -
      have "bits + 5 * length (ch # s) = k + 5 * length s + 8" using k(1) by simp
      then show ?thesis using Cons.prems(4) by simp
    qed
    obtain out where out: "decodeLoop k v' s = Inr out" "length out = (k + 5 * length s) div 8"
      "posVal 256 (map unat out) * 2 ^ r + t1 mod 2 ^ r = t1"
      using Cons.IH [OF k(2) _ t1_def r] Cons.prems(2) by auto
    have "8 * length out + r = k + 5 * length s" using out(2) r by simp
    then have "(2 :: nat) ^ (8 * length out + r) = 2 ^ k * (2 ^ 5) ^ length s" by (simp add: power_add power_mult)
    then have "unat b * 2 ^ (8 * length out + r) + t1 = (unat b * 2 ^ k + unat v' mod 2 ^ k) * 32 ^ length s + posVal 32 (map digitOf s)"
      by (simp add: t1_def distrib_right)
    also have "\<dots> = t" unfolding t k(1) using split_top [of "unat v'" k 8] b by simp
    finally have "(unat b * 256 ^ length out + posVal 256 (map unat out)) * 2 ^ r + t mod 2 ^ r = t"
      using combine_digits [OF out(3), of "unat b" 8 "length out"] by simp
    moreover have "decodeLoop bits v (ch # s) = Inr (b # out)"
      using True d(1) out(1) by (simp add: Let_def v'_def [symmetric] b_def k_def)
    moreover have "Suc (length out) = (bits + 5 * length (ch # s)) div 8" using out(2) k(1) by simp
    ultimately show ?thesis by (auto simp: posVal_Cons)
  qed
qed simp

section \<open>Recovery keys\<close>

lemma encode_facts:
  assumes "length raw = 20"
  shows "length (encode raw) = 32" "set (encode raw) \<subseteq> set ALPHABET"
    "posVal 32 (map digitOf (encode raw)) = posVal 256 (map unat raw)"
proof -
  let ?ds = "encodeLoop 0 0 raw"
  have ds: "length ?ds = 32" "\<forall>d \<in> set ?ds. d < 32" "posVal 32 ?ds = posVal 256 (map unat raw)"
    using encodeLoop_spec [of 0 "posVal 256 (map unat raw)" 0 raw 0] assms by simp_all
  show "length (encode raw) = 32" using ds(1) by (simp add: encode_def)
  show "set (encode raw) \<subseteq> set ALPHABET" using ds(2) alphabet_facts(1) by (auto simp: encode_def)
  have "map digitOf (encode raw) = ?ds"
    using ds(2) by (auto simp: encode_def digitOf_def indexOf_nth intro: map_idI)
  then show "posVal 32 (map digitOf (encode raw)) = posVal 256 (map unat raw)" using ds(3) by simp
qed

lemma decode_iff:
  assumes "length s = 32" "length raw = 20"
  shows "decodeLoop 0 0 s = Inr raw \<longleftrightarrow> s = encode raw"
proof -
  have dec: "\<exists>out. decodeLoop 0 0 s' = Inr out \<and> length out = 20 \<and> posVal 256 (map unat out) = posVal 32 (map digitOf s')"
    if "length s' = 32" "set s' \<subseteq> set ALPHABET" for s'
    using decodeLoop_spec [of 0 s' "posVal 32 (map digitOf s')" 0 0] that by simp
  have uniq: "map unat xs = map unat ys \<Longrightarrow> xs = ys" for xs ys :: bytes
    by (rule map_injective [of unat]) (auto intro: injI unsigned_word_eqI)
  have small: "\<forall>x \<in> set (map unat xs). x < 256" for xs :: bytes
    using unsigned_less [where 'a = nat and 'b = 8] by auto
  show ?thesis
  proof
    assume d: "decodeLoop 0 0 s = Inr raw"
    then have s: "set s \<subseteq> set ALPHABET" by (rule decodeLoop_valid)
    with dec [OF assms(1)] d have "posVal 32 (map digitOf s) = posVal 32 (map digitOf (encode raw))"
      using encode_facts(3) [OF assms(2)] by auto
    moreover have "\<forall>x \<in> set (map digitOf s'). x < 32" if "set s' \<subseteq> set ALPHABET" for s'
      using that digit_of_letter(2) by auto
    ultimately have "map digitOf s = map digitOf (encode raw)"
      using assms(1) s encode_facts [OF assms(2)] by (intro posVal_inj [of _ _ 32]) auto
    then have "map (\<lambda>d. ALPHABET ! d) (map digitOf s) = map (\<lambda>d. ALPHABET ! d) (map digitOf (encode raw))" by simp
    moreover have "map (\<lambda>d. ALPHABET ! d) (map digitOf s') = s'" if "set s' \<subseteq> set ALPHABET" for s'
      using that by (induction s') (auto simp: digit_of_letter(3))
    ultimately show "s = encode raw" using s encode_facts(2) [OF assms(2)] by metis
  next
    assume s: "s = encode raw"
    obtain out where out: "decodeLoop 0 0 s = Inr out" "length out = 20" "posVal 256 (map unat out) = posVal 256 (map unat raw)"
      using dec [of s] encode_facts [OF assms(2)] s assms(1) by auto
    then have "map unat out = map unat raw"
      using assms(2) small by (intro posVal_inj [of _ _ 256]) auto
    with out(1) uniq show "decodeLoop 0 0 s = Inr raw" by blast
  qed
qed

lemma decode_length: "decodeLoop 0 0 s = Inr out \<Longrightarrow> length s = 32 \<Longrightarrow> length out = 20"
  using decodeLoop_spec [of 0 s "posVal 32 (map digitOf s)" 0 0] decodeLoop_valid [of 0 0 s out] by auto

lemma parse_iff: "parseRecoveryKey text = Inr raw \<longleftrightarrow> length raw = 20 \<and> compactKey text = encode raw"
proof
  assume "parseRecoveryKey text = Inr raw"
  then have "length (compactKey text) = 32" "decodeLoop 0 0 (compactKey text) = Inr raw"
    by (auto simp: parseRecoveryKey_def Let_def ENCODED_LENGTH_def RAW_LENGTH_def split: if_splits)
  with decode_length [OF this(2,1)] show "length raw = 20 \<and> compactKey text = encode raw"
    using decode_iff [of "compactKey text" raw] by simp
next
  assume *: "length raw = 20 \<and> compactKey text = encode raw"
  then have "length (compactKey text) = 32" using encode_facts(1) by simp
  with * show "parseRecoveryKey text = Inr raw"
    using decode_iff [of "compactKey text" raw] by (simp add: parseRecoveryKey_def Let_def ENCODED_LENGTH_def RAW_LENGTH_def)
qed

lemma filter_join: "filter P sep = [] \<Longrightarrow> filter P (join sep xs) = concat (map (filter P) xs)"
  by (induction sep xs rule: join.induct) auto

lemma upper_join: "toUpperCase (join sep xs) = join (toUpperCase sep) (map toUpperCase xs)"
  by (induction sep xs rule: join.induct) (auto simp: toUpperCase_def)

lemma concat_groups4: "length s mod 4 = 0 \<Longrightarrow> concat (groups4 s) = s"
  by (induction s rule: groups4.induct) auto

lemma alphabet_letter:
  assumes "ch \<in> set ALPHABET"
  shows "upperChar ch = [ch]" "\<not> is_space ch" "ch \<noteq> CHR ''-''"
  using assms by (auto simp: ALPHABET_def upperChar_def is_space_def Let_def)

lemma upper_alphabet: "set s \<subseteq> set ALPHABET \<Longrightarrow> toUpperCase s = s"
  by (induction s) (simp_all add: toUpperCase_def alphabet_letter)

lemma kept_alphabet: "set s \<subseteq> set ALPHABET \<Longrightarrow> filter (\<lambda>ch. \<not> is_space ch \<and> ch \<noteq> CHR ''-'') s = s"
  using alphabet_letter by (induction s) auto

lemma groups4_sub: "g \<in> set (groups4 s) \<Longrightarrow> set g \<subseteq> set s"
  by (induction s rule: groups4.induct) auto

lemma compact_generated:
  assumes "length raw = 20"
  shows "compactKey (generateRecoveryKey raw) = encode raw"
proof -
  note e = encode_facts [OF assms]
  let ?xs = "PREFIX # groups4 (encode raw)" and ?P = "\<lambda>ch. \<not> is_space ch \<and> ch \<noteq> CHR ''-''"
  have g: "set x \<subseteq> set ALPHABET" if "x \<in> set ?xs" for x
    using that e(2) groups4_sub by (fastforce simp: PREFIX_def ALPHABET_def)
  have "map toUpperCase ?xs = ?xs" using g upper_alphabet by (intro map_idI) auto
  moreover have "toUpperCase ''-'' = ''-''" by (simp add: toUpperCase_def upperChar_def)
  ultimately have "toUpperCase (generateRecoveryKey raw) = join ''-'' ?xs"
    unfolding generateRecoveryKey_def upper_join by simp
  moreover have "filter ?P (join ''-'' ?xs) = concat (map (filter ?P) ?xs)" by (rule filter_join) simp
  moreover have "map (filter ?P) ?xs = ?xs" using g kept_alphabet by (intro map_idI) auto
  moreover have "concat (groups4 (encode raw)) = encode raw" using e(1) by (intro concat_groups4) simp
  ultimately have "filter ?P (toUpperCase (generateRecoveryKey raw)) = PREFIX @ encode raw" by simp
  then show ?thesis
    unfolding compactKey_def Let_def using e(1) by (simp add: ENCODED_LENGTH_def RAW_LENGTH_def)
qed

text \<open>
  C36. A recovery key and its written form determine each other. The text made for 20 random bytes reads
  back as those bytes; a text is accepted exactly when, in capitals and without spaces, dashes and the
  optional prefix, it is the written form of some 20 bytes, and those are the bytes returned.
\<close>

theorem recovery_key_exact:
  assumes "length raw = 20"
  shows "parseRecoveryKey (generateRecoveryKey raw) = Inr raw \<and>
    (parseRecoveryKey text = Inr raw \<longleftrightarrow> compactKey text = encode raw) \<and>
    (parseRecoveryKey text = Inr other \<longrightarrow> length other = 20 \<and> compactKey text = encode other)"
  using assms compact_generated [OF assms] by (simp add: parse_iff)

theorem recovery_key_exact_witness:
  "parseRecoveryKey (generateRecoveryKey (replicate 20 0)) = Inr (replicate 20 0)"
  using recovery_key_exact [of "replicate 20 0" "[]" "[]"] by simp

end
