(* ===== verification/LockedKeys.thy ===== *)
theory LockedKeys
  imports RecoveryKey
begin

text \<open>
  The key file of Locked (\<open>packages/locked-crypto/src/keys.ts\<close>): the private key of an account, wrapped
  under a PIN, a passphrase and a recovery key, with the server's pepper mixed into PIN wraps.

  \<open>keyCrypto\<close> adds to the primitives of \<open>lockedCrypto\<close> scrypt, base64, UTF-8 and Unicode normalisation. The
  random salt and nonce of a wrap and the time of a change are arguments. Key material is not overwritten
  with zeros in the model.
\<close>

section \<open>Model\<close>

record keyCrypto =
  base :: lockedCrypto
  scryptKey :: "string \<Rightarrow> bytes \<Rightarrow> bytes"
  encode64 :: "bytes \<Rightarrow> string"
  decode64 :: "string \<Rightarrow> bytes"
  utf8 :: "string \<Rightarrow> bytes"
  nfkc :: "string \<Rightarrow> string"

definition KEY_FILE_FORMAT_1 :: string where "KEY_FILE_FORMAT_1 = ''frameleaf-locked-key/1''"
definition KEY_FILE_FORMAT_2 :: string where "KEY_FILE_FORMAT_2 = ''frameleaf-locked-key/2''"
definition KEY_FILE_FORMATS :: "string list" where "KEY_FILE_FORMATS = [KEY_FILE_FORMAT_1, KEY_FILE_FORMAT_2]"

definition isKeyFileFormat :: "string \<Rightarrow> bool" where
  "isKeyFileFormat format \<longleftrightarrow> format \<in> set KEY_FILE_FORMATS"

definition SALT :: nat where "SALT = 16"
definition NONCE :: nat where "NONCE = 12"
definition KEY :: nat where "KEY = 32"
definition MIN_PEPPER_BYTES :: nat where "MIN_PEPPER_BYTES = 16"
definition PEPPER_INFO :: string where "PEPPER_INFO = ''frameleaf-locked/2/pin-wrap-pepper''"

datatype wrapKind = Pin | Passphrase | Recovery

datatype kdfParams = Scrypt int int int | HkdfSha256 | OtherKdf

definition SCRYPT :: kdfParams where "SCRYPT = Scrypt 131072 8 1"

record pepperRecord =
  pepper_kdf :: string
  pepper_id :: string

record keyWrap =
  wrap_kind :: wrapKind
  wrap_salt :: string
  wrap_nonce :: string
  wrap_ciphertext :: string
  wrap_pepper :: "pepperRecord option"
  wrap_kdf :: kdfParams

datatype fileMode = PinMode | Advanced

record lockedKeyFile =
  file_format :: string
  file_userId :: string
  file_label :: string
  file_publicKey :: string
  file_mode :: fileMode
  file_encrypting :: bool
  file_wraps :: "keyWrap list"
  file_createdAt :: string
  file_updatedAt :: string

datatype pepperReason = PepperMissing | PepperMismatch

datatype keyError =
    WrongSecret
  | LockedKeyFileCorruptError wrapKind
  | LockedPepperError pepperReason
  | OtherError string

definition pepperId :: "keyCrypto \<Rightarrow> bytes \<Rightarrow> string" where
  "pepperId c pepper = encode64 c (take 8 (sha256 (base c) (utf8 c PEPPER_INFO @ pepper)))"

definition assertPepper :: "bytes \<Rightarrow> keyError + unit" where
  "assertPepper pepper =
     (if length pepper < MIN_PEPPER_BYTES then Inl (OtherError ''The pepper must be at least 16 bytes'') else Inr ())"

definition kindText :: "wrapKind \<Rightarrow> string" where
  "kindText kind = (case kind of Pin \<Rightarrow> ''pin'' | Passphrase \<Rightarrow> ''passphrase'' | Recovery \<Rightarrow> ''recovery'')"

definition wrap_aad :: "keyCrypto \<Rightarrow> string \<Rightarrow> wrapKind \<Rightarrow> pepperRecord option \<Rightarrow> bytes" where
  "wrap_aad c userId kind pepper =
     utf8 c (case pepper of
       Some p \<Rightarrow> KEY_FILE_FORMAT_2 @ ''|'' @ userId @ ''|'' @ kindText kind @ ''|pepper:'' @ pepper_id p
     | None \<Rightarrow> KEY_FILE_FORMAT_1 @ ''|'' @ userId @ ''|'' @ kindText kind)"

definition assertFormat :: "lockedKeyFile \<Rightarrow> keyError + unit" where
  "assertFormat file = (if isKeyFileFormat (file_format file) then Inr () else Inl (OtherError ''Unsupported key file format''))"

definition base64Length :: "keyCrypto \<Rightarrow> string \<Rightarrow> nat" where
  "base64Length c s = length (decode64 c s)"

definition assertWrap :: "keyCrypto \<Rightarrow> keyWrap \<Rightarrow> keyError + unit" where
  "assertWrap c wrap =
     (let corrupt = Inl (LockedKeyFileCorruptError (wrap_kind wrap))
      in if wrap_kdf wrap \<noteq> SCRYPT \<and> wrap_kdf wrap \<noteq> HkdfSha256 then corrupt
         else if base64Length c (wrap_salt wrap) \<noteq> SALT then corrupt
         else if base64Length c (wrap_nonce wrap) \<noteq> NONCE then corrupt
         else if base64Length c (wrap_ciphertext wrap) \<noteq> KEY + TAG then corrupt
         else case wrap_pepper wrap of
                None \<Rightarrow> Inr ()
              | Some p \<Rightarrow>
                  if wrap_kind wrap \<noteq> Pin then corrupt
                  else if pepper_kdf p \<noteq> ''hkdf-sha256'' \<or> base64Length c (pepper_id p) \<noteq> 8 then corrupt
                  else Inr ())"

text \<open>The key a wrap's parameters and the secret give.\<close>

definition deriveWrapKey ::
  "keyCrypto \<Rightarrow> kdfParams \<Rightarrow> string \<Rightarrow> pepperRecord option \<Rightarrow> string \<Rightarrow> bytes option \<Rightarrow> keyError + bytes" where
  "deriveWrapKey c kdf salt record_pepper secret pepper =
     (let saltBytes = decode64 c salt
      in if kdf = HkdfSha256 then
           (case parseRecoveryKey secret of
              Inl _ \<Rightarrow> Inl WrongSecret
            | Inr raw \<Rightarrow> Inr (hkdfSync (base c) raw saltBytes ''frameleaf-locked/1/recovery-wrap''))
         else case record_pepper of
                None \<Rightarrow> Inr (scryptKey c (nfkc c secret) saltBytes)
              | Some r \<Rightarrow>
                  (case pepper of
                     None \<Rightarrow> Inl (LockedPepperError PepperMissing)
                   | Some p \<Rightarrow>
                       bindR (assertPepper p) (\<lambda>_.
                         if pepperId c p \<noteq> pepper_id r then Inl (LockedPepperError PepperMismatch)
                         else Inr (hkdfSync (base c) (scryptKey c (nfkc c secret) saltBytes) p PEPPER_INFO))))"

definition touch :: "string \<Rightarrow> lockedKeyFile \<Rightarrow> lockedKeyFile" where
  "touch now file = file\<lparr>file_updatedAt := now\<rparr>"

definition public_of :: "keyCrypto \<Rightarrow> bytes \<Rightarrow> keyError + bytes" where
  "public_of c privateKey =
     (case publicKeyFromPrivate (base c) privateKey of
        Inl _ \<Rightarrow> Inl (OtherError ''X25519 private key must be 32 raw bytes'') | Inr key \<Rightarrow> Inr key)"

definition wrapKey ::
  "keyCrypto \<Rightarrow> lockedKeyFile \<Rightarrow> bytes \<Rightarrow> wrapKind \<Rightarrow> string \<Rightarrow> bytes option \<Rightarrow>
     bytes \<Rightarrow> bytes \<Rightarrow> string \<Rightarrow> keyError + lockedKeyFile" where
  "wrapKey c file privateKey kind secret optionsPepper saltBytes nonce now =
     bindR (assertFormat file) (\<lambda>_.
     bindR (public_of c privateKey) (\<lambda>publicKey.
       if publicKey \<noteq> decode64 c (file_publicKey file) then Inl (OtherError ''The private key does not match the key file'')
       else if kind = Pin \<and> file_mode file = Advanced then Inl (OtherError ''An advanced key file never holds a PIN wrap'')
       else if length secret = 0 then Inl (OtherError ''The secret is empty'')
       else let pepper = (if kind = Pin then optionsPepper else None)
            in bindR (case pepper of None \<Rightarrow> Inr () | Some p \<Rightarrow> assertPepper p) (\<lambda>_.
                 let salt = encode64 c saltBytes;
                     params = (if kind = Recovery then HkdfSha256 else SCRYPT);
                     record_pepper = map_option (\<lambda>p. \<lparr>pepper_kdf = ''hkdf-sha256'', pepper_id = pepperId c p\<rparr>) pepper
                 in bindR (deriveWrapKey c params salt record_pepper secret pepper) (\<lambda>key.
                      let ciphertext = seal (base c) key nonce privateKey (wrap_aad c (file_userId file) kind record_pepper);
                          wrap = \<lparr>wrap_kind = kind, wrap_salt = salt, wrap_nonce = encode64 c nonce,
                                  wrap_ciphertext = encode64 c ciphertext, wrap_pepper = record_pepper, wrap_kdf = params\<rparr>;
                          wraps = filter (\<lambda>existing. wrap_kind existing \<noteq> kind) (file_wraps file) @ [wrap];
                          format = (if list_ex (\<lambda>candidate. wrap_pepper candidate \<noteq> None) wraps then KEY_FILE_FORMAT_2 else file_format file)
                      in Inr (touch now (file\<lparr>file_format := format, file_wraps := wraps\<rparr>))))))"

definition unwrapKey ::
  "keyCrypto \<Rightarrow> lockedKeyFile \<Rightarrow> wrapKind \<Rightarrow> string \<Rightarrow> bytes option \<Rightarrow> keyError + bytes" where
  "unwrapKey c file kind secret optionsPepper =
     bindR (assertFormat file) (\<lambda>_.
       case find (\<lambda>candidate. wrap_kind candidate = kind) (file_wraps file) of
         None \<Rightarrow> Inl WrongSecret
       | Some wrap \<Rightarrow>
           bindR (assertWrap c wrap) (\<lambda>_.
           bindR (deriveWrapKey c (wrap_kdf wrap) (wrap_salt wrap) (wrap_pepper wrap) secret
                    (if kind = Pin then optionsPepper else None)) (\<lambda>key.
             case unseal (base c) key (decode64 c (wrap_nonce wrap)) (decode64 c (wrap_ciphertext wrap))
                    (wrap_aad c (file_userId file) kind (wrap_pepper wrap)) of
               None \<Rightarrow> Inl WrongSecret
             | Some privateKey \<Rightarrow>
                 bindR (public_of c privateKey) (\<lambda>actual.
                   if actual \<noteq> decode64 c (file_publicKey file) then Inl (OtherError ''The key file is inconsistent'')
                   else Inr privateKey))))"

definition hasUnpepperedPinWrap :: "lockedKeyFile \<Rightarrow> bool" where
  "hasUnpepperedPinWrap file \<longleftrightarrow> list_ex (\<lambda>wrap. wrap_kind wrap = Pin \<and> wrap_pepper wrap = None) (file_wraps file)"


section \<open>Lemmas\<close>

definition key_crypto_ok :: "keyCrypto \<Rightarrow> bool" where
  "key_crypto_ok c \<longleftrightarrow> aead_ok (base c) \<and> x25519_ok (base c) \<and> (\<forall>x. decode64 c (encode64 c x) = x)"

definition newWrap ::
  "keyCrypto \<Rightarrow> lockedKeyFile \<Rightarrow> bytes \<Rightarrow> wrapKind \<Rightarrow> bytes \<Rightarrow> bytes option \<Rightarrow> bytes \<Rightarrow> bytes \<Rightarrow> keyWrap" where
  "newWrap c file privateKey kind key pepper saltBytes nonce =
     (let record_pepper = map_option (\<lambda>p. \<lparr>pepper_kdf = ''hkdf-sha256'', pepper_id = pepperId c p\<rparr>) pepper
      in \<lparr>wrap_kind = kind, wrap_salt = encode64 c saltBytes, wrap_nonce = encode64 c nonce,
          wrap_ciphertext = encode64 c (seal (base c) key nonce privateKey (wrap_aad c (file_userId file) kind record_pepper)),
          wrap_pepper = record_pepper, wrap_kdf = (if kind = Recovery then HkdfSha256 else SCRYPT)\<rparr>)"

text \<open>What a successful \<open>wrapKey\<close> did.\<close>

lemma wrapKey_Inr:
  assumes "wrapKey c file privateKey kind secret optionsPepper saltBytes nonce now = Inr file'"
    and "pepper = (if kind = Pin then optionsPepper else None)"
  obtains key where
    "isKeyFileFormat (file_format file)" "public_of c privateKey = Inr (decode64 c (file_publicKey file))"
    "\<not> (kind = Pin \<and> file_mode file = Advanced)" "secret \<noteq> []"
    "deriveWrapKey c (if kind = Recovery then HkdfSha256 else SCRYPT) (encode64 c saltBytes)
       (map_option (\<lambda>p. \<lparr>pepper_kdf = ''hkdf-sha256'', pepper_id = pepperId c p\<rparr>) pepper) secret pepper = Inr key"
    "file_wraps file' = filter (\<lambda>w. wrap_kind w \<noteq> kind) (file_wraps file) @ [newWrap c file privateKey kind key pepper saltBytes nonce]"
    "file_format file' = (if list_ex (\<lambda>w. wrap_pepper w \<noteq> None) (file_wraps file') then KEY_FILE_FORMAT_2 else file_format file)"
    "file_userId file' = file_userId file" "file_publicKey file' = file_publicKey file" "file_mode file' = file_mode file"
  using assms
  by (auto simp: wrapKey_def bindR_eq_Inr assertFormat_def Let_def touch_def newWrap_def split: if_splits)

lemma find_new:
  "find (\<lambda>w. wrap_kind w = kind) (filter (\<lambda>w. wrap_kind w \<noteq> kind) ws @ [w]) = (if wrap_kind w = kind then Some w else None)"
  by (induction ws) auto

lemma find_other:
  "k \<noteq> kind \<Longrightarrow> wrap_kind w = kind \<Longrightarrow>
     find (\<lambda>w. wrap_kind w = k) (filter (\<lambda>w. wrap_kind w \<noteq> kind) ws @ [w]) = find (\<lambda>w. wrap_kind w = k) ws"
  by (induction ws) auto

lemma newWrap_kind [simp]: "wrap_kind (newWrap c file privateKey kind key pepper saltBytes nonce) = kind"
  by (simp add: newWrap_def Let_def)

lemma assertWrap_new:
  assumes "key_crypto_ok c" "length saltBytes = 16" "length nonce = 12" "length privateKey = 32" "pepper \<noteq> None \<longrightarrow> kind = Pin"
  shows "assertWrap c (newWrap c file privateKey kind key pepper saltBytes nonce) = Inr ()"
proof -
  have ok: "aead_ok (base c)" "\<And>x. decode64 c (encode64 c x) = x" "\<And>x. length (sha256 (base c) x) = 32"
    using assms(1) by (auto simp: key_crypto_ok_def x25519_ok_def)
  have "base64Length c (pepperId c p) = 8" for p by (simp add: base64Length_def pepperId_def ok(2,3))
  then show ?thesis
    using assms(2-5)
    by (cases pepper) (simp_all add: assertWrap_def newWrap_def Let_def base64Length_def ok(2) length_seal [OF ok(1)]
        SALT_def NONCE_def KEY_def TAG_def)
qed

lemma public_of_length: "public_of c privateKey = Inr pub \<Longrightarrow> length privateKey = 32"
  by (auto simp: public_of_def publicKeyFromPrivate_def assertRawKey_def split: sum.splits if_splits)

text \<open>Opening the wrap that was just made, with whatever secret and pepper are offered.\<close>

lemma unwrap_new:
  assumes "key_crypto_ok c" "length saltBytes = 16" "length nonce = 12"
    and "pepper = (if kind = Pin then optionsPepper else None)"
    and "isKeyFileFormat (file_format file')" "public_of c privateKey = Inr (decode64 c (file_publicKey file'))"
    and "file_wraps file' = filter (\<lambda>w. wrap_kind w \<noteq> kind) ws @ [newWrap c file privateKey kind key pepper saltBytes nonce]"
    and "file_userId file' = file_userId file"
    and "deriveWrapKey c (if kind = Recovery then HkdfSha256 else SCRYPT) (encode64 c saltBytes)
      (map_option (\<lambda>p. \<lparr>pepper_kdf = ''hkdf-sha256'', pepper_id = pepperId c p\<rparr>) pepper) secret
      (if kind = Pin then offered else None) = m"
  shows "unwrapKey c file' kind secret offered =
    bindR m (\<lambda>k. if k = key then Inr privateKey else unwrapKey c file' kind secret offered)"
proof -
  let ?w = "newWrap c file privateKey kind key pepper saltBytes nonce"
  have ok: "aead_ok (base c)" "\<And>x. decode64 c (encode64 c x) = x" using assms(1) by (auto simp: key_crypto_ok_def)
  have find: "find (\<lambda>w. wrap_kind w = kind) (file_wraps file') = Some ?w"
    unfolding assms(7) by (simp add: find_new)
  have w: "assertWrap c ?w = Inr ()"
    using assms(1-4) public_of_length [OF assms(6)] by (intro assertWrap_new) auto
  have d: "deriveWrapKey c (wrap_kdf ?w) (wrap_salt ?w) (wrap_pepper ?w) secret (if kind = Pin then offered else None) = m"
    using assms(9) by (simp add: newWrap_def Let_def)
  have u: "unseal (base c) key (decode64 c (wrap_nonce ?w)) (decode64 c (wrap_ciphertext ?w))
      (wrap_aad c (file_userId file') kind (wrap_pepper ?w)) = Some privateKey"
    by (simp add: newWrap_def Let_def ok(2) assms(8) unseal_seal [OF ok(1)])
  show ?thesis
    unfolding unwrapKey_def assertFormat_def find option.case w
    using assms(5,6) d u by (cases m) simp_all
qed

lemma format_stays: "isKeyFileFormat f \<Longrightarrow> isKeyFileFormat (if b then KEY_FILE_FORMAT_2 else f)"
  by (simp add: isKeyFileFormat_def KEY_FILE_FORMATS_def)

lemma unwrapKey_cong:
  assumes "isKeyFileFormat (file_format file)" "isKeyFileFormat (file_format file')"
    and "find (\<lambda>w. wrap_kind w = k) (file_wraps file') = find (\<lambda>w. wrap_kind w = k) (file_wraps file)"
    and "file_userId file' = file_userId file" "file_publicKey file' = file_publicKey file"
  shows "unwrapKey c file' k s p = unwrapKey c file k s p"
  unfolding unwrapKey_def assertFormat_def assms(3-5) using assms(1,2) by simp

lemma wrapKey_opens:
  assumes ok: "key_crypto_ok c" "length saltBytes = 16" "length nonce = 12"
    and wrap: "wrapKey c file privateKey kind secret optionsPepper saltBytes nonce now = Inr file'"
  shows "unwrapKey c file' kind secret optionsPepper = Inr privateKey"
    and "k \<noteq> kind \<Longrightarrow> unwrapKey c file' k s p = unwrapKey c file k s p"
    and "kind = Pin \<Longrightarrow> optionsPepper = Some q \<Longrightarrow> unwrapKey c file' Pin s None = Inl (LockedPepperError PepperMissing)"
    and "kind = Pin \<Longrightarrow> optionsPepper = Some q \<Longrightarrow> 16 \<le> length q' \<Longrightarrow> pepperId c q' \<noteq> pepperId c q \<Longrightarrow>
      unwrapKey c file' Pin s (Some q') = Inl (LockedPepperError PepperMismatch)"
proof -
  obtain key where f: "isKeyFileFormat (file_format file)"
    and pub: "public_of c privateKey = Inr (decode64 c (file_publicKey file))"
    and key: "deriveWrapKey c (if kind = Recovery then HkdfSha256 else SCRYPT) (encode64 c saltBytes)
       (map_option (\<lambda>p. \<lparr>pepper_kdf = ''hkdf-sha256'', pepper_id = pepperId c p\<rparr>) (if kind = Pin then optionsPepper else None))
       secret (if kind = Pin then optionsPepper else None) = Inr key"
    and wraps: "file_wraps file' = filter (\<lambda>w. wrap_kind w \<noteq> kind) (file_wraps file) @
       [newWrap c file privateKey kind key (if kind = Pin then optionsPepper else None) saltBytes nonce]"
    and fmt: "file_format file' = (if list_ex (\<lambda>w. wrap_pepper w \<noteq> None) (file_wraps file') then KEY_FILE_FORMAT_2 else file_format file)"
    and same: "file_userId file' = file_userId file" "file_publicKey file' = file_publicKey file"
    using wrapKey_Inr [OF wrap refl] by metis
  have f': "isKeyFileFormat (file_format file')" unfolding fmt by (rule format_stays [OF f])
  note open_new = unwrap_new [OF ok refl f' _ wraps same(1) refl, of _ _, unfolded same(2), OF pub]
  show "unwrapKey c file' kind secret optionsPepper = Inr privateKey"
    by (subst open_new) (simp add: key)
  show "k \<noteq> kind \<Longrightarrow> unwrapKey c file' k s p = unwrapKey c file k s p"
    using f f' same wraps by (intro unwrapKey_cong) (simp_all add: find_other)
  show "unwrapKey c file' Pin s None = Inl (LockedPepperError PepperMissing)" if "kind = Pin" "optionsPepper = Some q"
    using open_new [where secret = s and offered = None] that by (simp add: deriveWrapKey_def SCRYPT_def)
  show "unwrapKey c file' Pin s (Some q') = Inl (LockedPepperError PepperMismatch)"
    if "kind = Pin" "optionsPepper = Some q" "16 \<le> length q'" "pepperId c q' \<noteq> pepperId c q"
    using open_new [where secret = s and offered = "Some q'"] that
    by (simp add: deriveWrapKey_def SCRYPT_def assertPepper_def MIN_PEPPER_BYTES_def)
qed

section \<open>Properties\<close>

text \<open>
  C35. A wrap opens with the secret it was made with and disturbs no other. After \<open>wrapKey\<close> succeeds, the
  same secret and pepper give back the private key; every other kind of wrap opens, or fails to, exactly as
  before; and a peppered PIN wrap is refused by name when the pepper is missing or is another one, whatever
  PIN is tried.
\<close>

theorem key_wrap_roundtrip:
  assumes "key_crypto_ok c" "length saltBytes = 16" "length nonce = 12"
    and "wrapKey c file privateKey kind secret optionsPepper saltBytes nonce now = Inr file'"
  shows "unwrapKey c file' kind secret optionsPepper = Inr privateKey \<and>
    (k \<noteq> kind \<longrightarrow> unwrapKey c file' k s p = unwrapKey c file k s p) \<and>
    (kind = Pin \<and> optionsPepper = Some q \<longrightarrow> unwrapKey c file' Pin s None = Inl (LockedPepperError PepperMissing)) \<and>
    (kind = Pin \<and> optionsPepper = Some q \<and> 16 \<le> length q' \<and> pepperId c q' \<noteq> pepperId c q \<longrightarrow>
      unwrapKey c file' Pin s (Some q') = Inl (LockedPepperError PepperMismatch))"
  using wrapKey_opens [OF assms] by blast

definition exampleKeyCrypto :: keyCrypto where
  "exampleKeyCrypto =
     \<lparr>base = exampleCrypto, scryptKey = (\<lambda>secret salt. map of_char secret @ salt),
      encode64 = map (\<lambda>b. char_of (unat b)), decode64 = map (\<lambda>ch. word_of_nat (of_char ch)), utf8 = map of_char, nfkc = (\<lambda>s. s)\<rparr>"

definition exampleKeyFile :: lockedKeyFile where
  "exampleKeyFile =
     \<lparr>file_format = KEY_FILE_FORMAT_1, file_userId = ''ann'', file_label = ''Ann'',
      file_publicKey = encode64 exampleKeyCrypto (exampleKey 1), file_mode = PinMode, file_encrypting = True,
      file_wraps = [], file_createdAt = ''2026'', file_updatedAt = ''2026''\<rparr>"

lemma example64: "decode64 exampleKeyCrypto (encode64 exampleKeyCrypto x) = x"
proof -
  have "word_of_nat (of_char (char_of (unat b) :: char)) = b" for b :: byte
    using unsigned_less [of b, where 'a = nat] by simp
  then show ?thesis by (simp add: exampleKeyCrypto_def comp_def)
qed

lemma exampleKeyCrypto_ok: "key_crypto_ok exampleKeyCrypto"
  unfolding key_crypto_ok_def using example64 exampleCrypto_ok by (simp add: exampleKeyCrypto_def)

lemma example_wraps:
  "\<exists>file'. wrapKey exampleKeyCrypto exampleKeyFile (exampleKey 1) Pin ''123456'' (Some (replicate 16 9))
     (replicate 16 1) (replicate 12 2) ''2027'' = Inr file'"
proof -
  have "public_of exampleKeyCrypto (exampleKey 1) = Inr (exampleKey 1)"
    by (simp add: public_of_def publicKeyFromPrivate_def assertRawKey_def) (simp add: exampleKeyCrypto_def exampleCrypto_def)
  moreover have "decode64 exampleKeyCrypto (file_publicKey exampleKeyFile) = exampleKey 1"
    by (simp add: exampleKeyFile_def example64)
  moreover have "assertFormat exampleKeyFile = Inr ()" "file_mode exampleKeyFile = PinMode"
    by (simp_all add: assertFormat_def isKeyFileFormat_def KEY_FILE_FORMATS_def exampleKeyFile_def)
  ultimately show ?thesis
    by (simp add: wrapKey_def Let_def deriveWrapKey_def SCRYPT_def assertPepper_def MIN_PEPPER_BYTES_def)
qed

theorem key_wrap_roundtrip_witness:
  "\<exists>file'. wrapKey exampleKeyCrypto exampleKeyFile (exampleKey 1) Pin ''123456'' (Some (replicate 16 9))
      (replicate 16 1) (replicate 12 2) ''2027'' = Inr file' \<and>
    unwrapKey exampleKeyCrypto file' Pin ''123456'' (Some (replicate 16 9)) = Inr (exampleKey 1) \<and>
    unwrapKey exampleKeyCrypto file' Pin ''123456'' None = Inl (LockedPepperError PepperMissing)"
proof -
  obtain file' where w: "wrapKey exampleKeyCrypto exampleKeyFile (exampleKey 1) Pin ''123456'' (Some (replicate 16 9))
      (replicate 16 1) (replicate 12 2) ''2027'' = Inr file'"
    using example_wraps by blast
  from key_wrap_roundtrip [OF exampleKeyCrypto_ok _ _ this] show ?thesis using w by auto
qed










end
