(* ===== verification/BackupDates.thy ===== *)
theory BackupDates
  imports Frameleaf_Prelude
begin

text \<open>
  The calendar the cloud backup reads and writes: UTC dates as backup names carry them, and the day, ISO week
  and month a date falls in (\<open>server/src/utils/cloud-backup-retention.ts\<close> and \<open>compactIso\<close> of
  \<open>server/src/utils/cloud-backup.ts\<close>).

  A \<open>Date\<close> is its time value, in milliseconds since the epoch, and its UTC fields are those of the proleptic
  Gregorian calendar, as ECMAScript defines them. A year of the computation begins in March, so that a leap
  day is its last day.
\<close>

section \<open>Dates\<close>

definition DAY_MS :: int where
  "DAY_MS = 24 * 60 * 60 * 1000"

definition WEEK_MS :: int where
  "WEEK_MS = 7 * DAY_MS"

text \<open>Days before the computation's year \<open>y\<close>, and before its month \<open>mp\<close> (March is 0).\<close>

definition daysBeforeYear :: "int \<Rightarrow> int" where
  "daysBeforeYear y = 365 * y + y div 4 - y div 100 + y div 400"

definition daysBeforeMonth :: "int \<Rightarrow> int" where
  "daysBeforeMonth mp = (153 * mp + 2) div 5"

text \<open>The day number of a date (day 0 is 1 January 1970), and the date of a day number.\<close>

definition days_from_civil :: "int \<Rightarrow> int \<Rightarrow> int \<Rightarrow> int" where
  "days_from_civil y m d =
     daysBeforeYear (if m \<le> 2 then y - 1 else y) + daysBeforeMonth (if m \<le> 2 then m + 9 else m - 3) + d - 1 - 719468"

text \<open>The year of the computation a day falls in and the day of that year.\<close>

definition year_from_days :: "int \<Rightarrow> int \<times> int" where
  "year_from_days z =
     (let doe = (z + 719468) mod 146097; c = min 3 (doe div 36524); r = doe - 36524 * c;
          q = r div 1461; s = r mod 1461; k = min 3 (s div 365)
      in (400 * ((z + 719468) div 146097) + 100 * c + 4 * q + k, s - 365 * k))"

definition civil_from_days :: "int \<Rightarrow> int \<times> int \<times> int" where
  "civil_from_days z =
     (let (y, doy) = year_from_days z; mp = (5 * doy + 2) div 153; d = doy - daysBeforeMonth mp + 1
      in if mp < 10 then (y, mp + 3, d) else (y + 1, mp - 9, d))"

section \<open>Dates as text\<close>

definition padStart :: "nat \<Rightarrow> int \<Rightarrow> string" where
  "padStart n k = (let s = show_nat (nat k) in replicate (n - length s) CHR ''0'' @ s)"

definition isoYear :: "int \<Rightarrow> string" where
  "isoYear y = (if 0 \<le> y \<and> y \<le> 9999 then padStart 4 y else (if y < 0 then ''-'' else ''+'') @ padStart 6 \<bar>y\<bar>)"

text \<open>\<open>Date.prototype.toISOString\<close>.\<close>

definition toISOString :: "int \<Rightarrow> string" where
  "toISOString t =
     (let (y, m, d) = civil_from_days (t div DAY_MS); ms = t mod DAY_MS
      in isoYear y @ ''-'' @ padStart 2 m @ ''-'' @ padStart 2 d @ ''T'' @ padStart 2 (ms div 3600000) @ '':'' @
         padStart 2 (ms div 60000 mod 60) @ '':'' @ padStart 2 (ms div 1000 mod 60) @ ''.'' @
         padStart 3 (ms mod 1000) @ ''Z'')"

text \<open>
  \<open>Date.parse\<close> of the text that joins six digit groups with zero milliseconds. A field out of its range is
  not a date; a day past the end of its month runs over into the next one, as does hour 24.
\<close>

definition dateParse :: "nat \<Rightarrow> nat \<Rightarrow> nat \<Rightarrow> nat \<Rightarrow> nat \<Rightarrow> nat \<Rightarrow> int option" where
  "dateParse y m d h mi s =
     (if 1 \<le> m \<and> m \<le> 12 \<and> 1 \<le> d \<and> d \<le> 31 \<and> (h \<le> 23 \<or> h = 24 \<and> mi = 0 \<and> s = 0) \<and> mi \<le> 59 \<and> s \<le> 59
      then Some (days_from_civil (int y) (int m) (int d) * DAY_MS + int h * 3600000 + int mi * 60000 + int s * 1000)
      else None)"

definition dayOf :: "int \<Rightarrow> string" where
  "dayOf date = take 10 (toISOString date)"

definition monthOf :: "int \<Rightarrow> string" where
  "monthOf date = take 7 (toISOString date)"

text \<open>Day numbers count from a Thursday, and \<open>getUTCDay\<close> counts from Sunday.\<close>

definition isoWeekOf :: "int \<Rightarrow> string" where
  "isoWeekOf date =
     (let day = date div DAY_MS; weekday = (day + 4) mod 7;
          thursday = day + 4 - (if weekday = 0 then 7 else weekday);
          y = fst (civil_from_days thursday); yearStart = days_from_civil y 1 1;
          week = (thursday - yearStart + 1 + 6) div 7
      in show_int y @ ''-W'' @ padStart 2 week)"

text \<open>\<open>replaceAll(/[-:]/g, '')\<close>, then \<open>replace(/\.\d{3}/, '')\<close> where the text has one.\<close>

fun dropMillis :: "string \<Rightarrow> string" where
  "dropMillis (c # a # b # d # s) =
     (if c = CHR ''.'' \<and> is_digit a \<and> is_digit b \<and> is_digit d then s else c # dropMillis (a # b # d # s))"
| "dropMillis s = s"

definition compactIso :: "int \<Rightarrow> string" where
  "compactIso date = dropMillis (filter (\<lambda>c. c \<noteq> CHR ''-'' \<and> c \<noteq> CHR '':'') (toISOString date))"

definition manifestKey :: "int \<Rightarrow> string" where
  "manifestKey date = ''m/'' @ compactIso date @ ''.json.gz''"

section \<open>Names of manifests\<close>

fun splitOn :: "char \<Rightarrow> string \<Rightarrow> string list" where
  "splitOn c [] = [[]]"
| "splitOn c (x # xs) =
     (if x = c then [] # splitOn c xs
      else (case splitOn c xs of [] \<Rightarrow> [[x]] | w # ws \<Rightarrow> (x # w) # ws))"

definition isLowerHex :: "char \<Rightarrow> bool" where
  "isLowerHex c \<longleftrightarrow> is_digit c \<or> (97 \<le> (of_char c :: nat) \<and> (of_char c :: nat) \<le> 102)"

text \<open>The pattern \<open>[1-9]\d{0,8}\<close>.\<close>

definition isKeyVersion :: "string \<Rightarrow> bool" where
  "isKeyVersion s \<longleftrightarrow> is_digits s \<and> length s \<le> 9 \<and> hd s \<noteq> CHR ''0''"

text \<open>The pattern \<open>\d{8}T\d{6}Z\.json\.gz\<close>, and its digits.\<close>

definition stampOf :: "string \<Rightarrow> (string \<times> string) option" where
  "stampOf s =
     (let day = take 8 s; time = take 6 (drop 9 s)
      in if list_all is_digit day \<and> list_all is_digit time \<and> s = day @ ''T'' @ time @ ''Z.json.gz'' \<and>
            length day = 8 \<and> length time = 6
         then Some (day, time) else None)"

definition stampFields :: "string \<Rightarrow> string \<Rightarrow> int option" where
  "stampFields day time =
     (let iso = take 4 day @ ''-'' @ take 2 (drop 4 day) @ ''-'' @ drop 6 day @ ''T'' @ take 2 time @ '':'' @
                take 2 (drop 2 time) @ '':'' @ drop 4 time @ ''.000Z''
      in case dateParse (read_nat (take 4 day)) (read_nat (take 2 (drop 4 day))) (read_nat (drop 6 day))
                (read_nat (take 2 time)) (read_nat (take 2 (drop 2 time))) (read_nat (drop 4 time)) of
           None \<Rightarrow> None
         | Some t \<Rightarrow> if toISOString t \<noteq> iso then None else Some t)"

definition manifestTime :: "string \<Rightarrow> int option" where
  "manifestTime key =
     (let named = (case splitOn CHR ''/'' key of
                     [a, n] \<Rightarrow> if a = ''m'' then stampOf n else None
                   | [a, b, u, v, n] \<Rightarrow>
                       if a = ''m'' \<and> b = ''v1'' \<and> length u = 36 \<and> list_all (\<lambda>c. isLowerHex c \<or> c = CHR ''-'') u \<and>
                          isKeyVersion v
                       then stampOf n else None
                   | _ \<Rightarrow> None)
      in case named of None \<Rightarrow> None | Some (day, time) \<Rightarrow> stampFields day time)"

section \<open>The calendar\<close>

lemma daysBeforeYear_parts:
  assumes "0 \<le> k" "k \<le> 3" "0 \<le> q" "q \<le> 24" "0 \<le> c" "c \<le> 3"
  shows "daysBeforeYear (400 * e + 100 * c + 4 * q + k) = 146097 * e + 36524 * c + 1461 * q + 365 * k"
proof -
  have "(400 * e + 100 * c + 4 * q + k) div 4 = 100 * e + 25 * c + q" using assms by linarith
  moreover have "(400 * e + 100 * c + 4 * q + k) div 100 = 4 * e + c" using assms by linarith
  moreover have "(400 * e + 100 * c + 4 * q + k) div 400 = e" using assms by linarith
  ultimately show ?thesis by (simp add: daysBeforeYear_def)
qed

lemma year_from_days:
  assumes "year_from_days z = (y, doy)"
  shows "z = daysBeforeYear y + doy - 719468" and "0 \<le> doy" and "doy \<le> 365"
proof -
  define e where "e = (z + 719468) div 146097"
  define doe where "doe = (z + 719468) mod 146097"
  define c where "c = min 3 (doe div 36524)"
  define r where "r = doe - 36524 * c"
  define q where "q = r div 1461"
  define s where "s = r mod 1461"
  define k where "k = min 3 (s div 365)"
  have y: "y = 400 * e + 100 * c + 4 * q + k" and doy: "doy = s - 365 * k"
    using assms [unfolded year_from_days_def Let_def, folded e_def doe_def, folded c_def, folded r_def,
        folded q_def s_def, folded k_def] by simp_all
  have doe: "0 \<le> doe" "doe < 146097" and z: "z + 719468 = 146097 * e + doe"
    unfolding doe_def e_def by auto
  have c: "0 \<le> c" "c \<le> 3" using doe unfolding c_def by auto
  have r: "0 \<le> r" "r \<le> 36524" using doe unfolding r_def c_def by linarith+
  have q: "0 \<le> q" "q \<le> 24" and s: "0 \<le> s" "s \<le> 1460" and rq: "r = 1461 * q + s"
    using r unfolding q_def s_def by auto
  have k: "0 \<le> k" "k \<le> 3" and "0 \<le> s - 365 * k" "s - 365 * k \<le> 365"
    using s unfolding k_def by linarith+
  then show "0 \<le> doy" "doy \<le> 365" by (simp_all add: doy)
  show "z = daysBeforeYear y + doy - 719468"
    unfolding y doy daysBeforeYear_parts [OF k q c] using z rq unfolding r_def by linarith
qed

text \<open>A day number is read back from its date, whose fields are in range.\<close>

lemma civil_from_days:
  assumes "civil_from_days z = (y, m, d)"
  shows "days_from_civil y m d = z" and "1 \<le> m \<and> m \<le> 12" and "1 \<le> d \<and> d \<le> 31"
proof -
  obtain y' doy where yd: "year_from_days z = (y', doy)" by fastforce
  note z = year_from_days [OF yd]
  define mp where "mp = (5 * doy + 2) div 153"
  have mp: "0 \<le> mp" "mp \<le> 11" using z(2,3) unfolding mp_def by linarith+
  have ymd: "(y, m, d) = (if mp < 10 then (y', mp + 3, doy - daysBeforeMonth mp + 1)
       else (y' + 1, mp - 9, doy - daysBeforeMonth mp + 1))"
    using assms yd unfolding civil_from_days_def mp_def by (auto simp: Let_def split: if_splits)
  have d: "d = doy - daysBeforeMonth mp + 1" using ymd by (auto split: if_splits)
  show "days_from_civil y m d = z"
    using ymd mp z(1) unfolding days_from_civil_def by (auto split: if_splits)
  show "1 \<le> m \<and> m \<le> 12" using ymd mp by (auto split: if_splits)
  show "1 \<le> d \<and> d \<le> 31" unfolding d daysBeforeMonth_def mp_def using z(2,3) by linarith
qed

lemma length_show_nat: "n < 10 ^ Suc k \<Longrightarrow> length (show_nat n) \<le> Suc k"
proof (induction k arbitrary: n)
  case 0
  then show ?case by (subst show_nat.simps) simp
next
  case (Suc k)
  then have "n div 10 < 10 ^ Suc k" by (simp add: less_mult_imp_div_less mult.commute)
  with Suc.IH show ?case by (subst show_nat.simps) auto
qed

lemma read_nat_zeros: "read_nat (replicate n CHR ''0'' @ s) = read_nat s"
  by (induction n) (simp_all add: read_nat_def digit_val_def)

lemma padStart_digits: "list_all is_digit (padStart n k)"
  using show_nat_digits [of "nat k"] by (auto simp: padStart_def Let_def list_all_iff is_digit_def)

lemma read_padStart [simp]: "read_nat (padStart n k) = nat k"
  by (simp add: padStart_def Let_def read_nat_zeros)

lemma length_padStart: "0 \<le> k \<Longrightarrow> k < 10 ^ n \<Longrightarrow> n \<noteq> 0 \<Longrightarrow> length (padStart n k) = n"
  using length_show_nat [of "nat k" "n - 1"]
  by (cases n) (auto simp: padStart_def Let_def nat_less_iff simp flip: of_nat_less_iff)

lemma padStart_inj: "padStart n j = padStart n' k \<Longrightarrow> 0 \<le> j \<Longrightarrow> 0 \<le> k \<Longrightarrow> j = k"
  by (metis eq_nat_nat_iff read_padStart)

section \<open>Reading a name back\<close>

lemma dropMillis_append:
  "CHR ''.'' \<notin> set ds \<Longrightarrow> is_digit a \<Longrightarrow> is_digit b \<Longrightarrow> is_digit c \<Longrightarrow>
   dropMillis (ds @ CHR ''.'' # a # b # c # s) = ds @ s"
proof (induction ds)
  case (Cons x ds)
  obtain u v w r where "ds @ CHR ''.'' # a # b # c # s = u # v # w # r"
    by (cases ds; cases "tl ds"; cases "tl (tl ds)") auto
  with Cons show ?case by auto
qed simp

lemma filter_digits: "list_all is_digit s \<Longrightarrow> filter (\<lambda>c. c \<noteq> CHR ''-'' \<and> c \<noteq> CHR '':'') s = s"
  by (induction s) (auto simp: is_digit_def)

lemma digit_plain: "is_digit c \<Longrightarrow> c \<noteq> CHR ''-'' \<and> c \<noteq> CHR '':''"
  by (auto simp: is_digit_def)

lemma digits_not: "list_all is_digit s \<Longrightarrow> CHR ''.'' \<notin> set s \<and> CHR ''/'' \<notin> set s"
  by (auto simp: list_all_iff)

lemmas pad_digits = padStart_digits filter_digits [OF padStart_digits] digits_not [OF padStart_digits]

text \<open>The digit groups of a date: the calendar date and the time of day.\<close>

definition stampDay :: "int \<Rightarrow> string" where
  "stampDay t = (let (y, m, d) = civil_from_days (t div DAY_MS) in padStart 4 y @ padStart 2 m @ padStart 2 d)"

definition stampTime :: "int \<Rightarrow> string" where
  "stampTime t = (let ms = t mod DAY_MS
     in padStart 2 (ms div 3600000) @ padStart 2 (ms div 60000 mod 60) @ padStart 2 (ms div 1000 mod 60))"

definition fourDigitYear :: "int \<Rightarrow> bool" where
  "fourDigitYear t \<longleftrightarrow> 0 \<le> fst (civil_from_days (t div DAY_MS)) \<and> fst (civil_from_days (t div DAY_MS)) \<le> 9999"

lemma padStart3_digits:
  assumes "0 \<le> k" "k < 1000"
  obtains a b c where "padStart 3 k = [a, b, c]" "is_digit a" "is_digit b" "is_digit c"
proof -
  have "length (padStart 3 k) = 3" using length_padStart [of k 3] assms by simp
  then obtain a b c where "padStart 3 k = [a, b, c]" by (auto simp: numeral_3_eq_3 length_Suc_conv)
  with padStart_digits [of 3 k] show ?thesis by (intro that) auto
qed

lemma compactIso_fields:
  assumes "fourDigitYear t"
  shows "compactIso t = stampDay t @ ''T'' @ stampTime t @ ''Z''"
proof -
  obtain y m d where ymd: "civil_from_days (t div DAY_MS) = (y, m, d)" using prod_cases3 by blast
  have y: "isoYear y = padStart 4 y" using assms by (simp add: fourDigitYear_def ymd isoYear_def)
  have "0 \<le> t mod DAY_MS mod 1000" "t mod DAY_MS mod 1000 < 1000" by simp_all
  then obtain a b c where abc: "padStart 3 (t mod DAY_MS mod 1000) = [a, b, c]" "is_digit a" "is_digit b" "is_digit c"
    by (rule padStart3_digits)
  have eq: "filter (\<lambda>c. c \<noteq> CHR ''-'' \<and> c \<noteq> CHR '':'') (toISOString t)
      = (stampDay t @ ''T'' @ stampTime t) @ CHR ''.'' # a # b # c # ''Z''"
    using abc digit_plain [OF abc(2)] digit_plain [OF abc(3)] digit_plain [OF abc(4)]
    by (simp add: toISOString_def ymd y stampDay_def stampTime_def Let_def pad_digits(2))
  have "CHR ''.'' \<notin> set (stampDay t @ ''T'' @ stampTime t)"
    using pad_digits(3) by (auto simp: stampDay_def stampTime_def ymd Let_def)
  from dropMillis_append [OF this abc(2-4)] show ?thesis unfolding compactIso_def eq by (simp only: append.assoc)
qed

lemma splitOn_none: "c \<notin> set s \<Longrightarrow> splitOn c s = [s]"
  by (induction s) auto

lemma splitOn_append: "c \<notin> set s \<Longrightarrow> splitOn c (s @ c # r) = s # splitOn c r"
  by (induction s) auto

lemma splitOn_nonempty [simp]: "splitOn c s \<noteq> []"
  by (induction s) (auto split: list.splits)

lemma stampOf_stamp:
  assumes "list_all is_digit day" "length day = 8" "list_all is_digit time" "length time = 6"
  shows "stampOf (day @ ''T'' @ time @ ''Z.json.gz'') = Some (day, time)"
  using assms by (simp add: stampOf_def Let_def)

lemma clock_fields:
  "(ms::int) - ms mod 1000 = ms div 3600000 * 3600000 + ms div 60000 mod 60 * 60000 + ms div 1000 mod 60 * 1000"
proof -
  define s where "s = ms div 1000"
  define q where "q = s div 60"
  have "ms div 60000 = q" using zdiv_zmult2_eq [of 60 ms 1000] by (simp add: s_def q_def)
  moreover have "ms div 3600000 = q div 60" using zdiv_zmult2_eq [of 3600 ms 1000] zdiv_zmult2_eq [of 60 s 60]
    by (simp add: s_def q_def)
  moreover have "ms - ms mod 1000 = 1000 * s" by (simp add: s_def minus_mod_eq_mult_div)
  moreover have "s = 60 * q + s mod 60" "q = 60 * (q div 60) + q mod 60" by (simp_all add: q_def)
  ultimately show ?thesis unfolding s_def [symmetric] by (simp only:)
qed

lemma mod_60: "(x::int) mod 60 \<le> 59"
  using pos_mod_bound [of 60 x] by simp

lemma second_split: "t - t mod 1000 = (t mod DAY_MS - t mod DAY_MS mod 1000) + t div DAY_MS * DAY_MS"
proof -
  have m: "t mod 1000 = t mod DAY_MS mod 1000" by (simp add: DAY_MS_def mod_mod_cancel)
  show ?thesis unfolding m by (simp add: algebra_simps)
qed

lemma dateParse_fields:
  assumes "civil_from_days (t div DAY_MS) = (y, m, d)" and "0 \<le> y"
  shows "dateParse (nat y) (nat m) (nat d) (nat (t mod DAY_MS div 3600000)) (nat (t mod DAY_MS div 60000 mod 60))
           (nat (t mod DAY_MS div 1000 mod 60)) = Some (t - t mod 1000)"
proof -
  note c = civil_from_days [OF assms(1)]
  define ms where "ms = t mod DAY_MS"
  have ms: "0 \<le> ms" "ms < 86400000" unfolding ms_def by (simp_all add: DAY_MS_def)
  have h: "ms div 3600000 \<le> 23" "0 \<le> ms div 3600000" using ms by linarith+
  have eq: "t div DAY_MS * DAY_MS + ms div 3600000 * 3600000 + ms div 60000 mod 60 * 60000 +
      ms div 1000 mod 60 * 1000 = t - t mod 1000"
    unfolding second_split [of t] ms_def [symmetric] clock_fields [of ms] by simp
  have "nat m \<ge> 1 \<and> nat m \<le> 12 \<and> nat d \<ge> 1 \<and> nat d \<le> 31 \<and> nat (ms div 3600000) \<le> 23 \<and>
      nat (ms div 60000 mod 60) \<le> 59 \<and> nat (ms div 1000 mod 60) \<le> 59"
    using c(2,3) h(1) mod_60 [of "ms div 60000"] mod_60 [of "ms div 1000"] by (simp add: nat_le_iff le_nat_iff)
  moreover have "int (nat y) = y" "int (nat m) = m" "int (nat d) = d" "int (nat (ms div 3600000)) = ms div 3600000"
    "int (nat (ms div 60000 mod 60)) = ms div 60000 mod 60" "int (nat (ms div 1000 mod 60)) = ms div 1000 mod 60"
    using assms(2) c(2,3) h by simp_all
  ultimately show ?thesis unfolding ms_def [symmetric] dateParse_def by (simp only: c(1) eq if_True simp_thms)
qed

text \<open>Dropping the milliseconds of a date leaves its other fields.\<close>

lemma whole_second:
  shows "(t - t mod 1000) div DAY_MS = t div DAY_MS"
    and "(t - t mod 1000) mod DAY_MS = t mod DAY_MS - t mod DAY_MS mod 1000"
proof -
  have "0 \<le> t mod DAY_MS - t mod DAY_MS mod 1000" "t mod DAY_MS - t mod DAY_MS mod 1000 < DAY_MS"
    using pos_mod_bound [of DAY_MS t] pos_mod_sign [of DAY_MS t] zmod_le_nonneg_dividend [of "t mod DAY_MS" 1000]
    by (simp_all add: DAY_MS_def)
  then show "(t - t mod 1000) div DAY_MS = t div DAY_MS"
    and "(t - t mod 1000) mod DAY_MS = t mod DAY_MS - t mod DAY_MS mod 1000"
    unfolding second_split [of t] by (simp_all add: DAY_MS_def)
qed

lemma clock_whole_second:
  fixes ms :: int
  shows "(ms - ms mod 1000) div 3600000 = ms div 3600000" "(ms - ms mod 1000) div 60000 = ms div 60000"
    "(ms - ms mod 1000) div 1000 = ms div 1000" "(ms - ms mod 1000) mod 1000 = 0"
proof -
  have eq: "ms - ms mod 1000 = ms div 1000 * 1000" by (simp add: minus_mod_eq_div_mult)
  show "(ms - ms mod 1000) div 3600000 = ms div 3600000"
    using zdiv_zmult2_eq [of 3600 "ms div 1000 * 1000" 1000] zdiv_zmult2_eq [of 3600 ms 1000] by (simp add: eq)
  show "(ms - ms mod 1000) div 60000 = ms div 60000"
    using zdiv_zmult2_eq [of 60 "ms div 1000 * 1000" 1000] zdiv_zmult2_eq [of 60 ms 1000] by (simp add: eq)
qed (simp_all add: minus_mod_eq_div_mult)

lemma stampFields_stamp:
  assumes "fourDigitYear t"
  shows "stampFields (stampDay t) (stampTime t) = Some (t - t mod 1000)"
proof -
  obtain y m d where ymd: "civil_from_days (t div DAY_MS) = (y, m, d)" using prod_cases3 by blast
  have y: "0 \<le> y" "y \<le> 9999" using assms by (simp_all add: fourDigitYear_def ymd)
  note c = civil_from_days(2,3) [OF ymd]
  define ms where "ms = t mod DAY_MS"
  define h where "h = ms div 3600000"
  define mi where "mi = ms div 60000 mod 60"
  define s where "s = ms div 1000 mod 60"
  have "0 \<le> ms" "ms < 86400000" unfolding ms_def by (simp_all add: DAY_MS_def)
  then have h: "0 \<le> h" "h < 100" unfolding h_def by linarith+
  have len: "length (padStart 4 y) = 4" "length (padStart 2 m) = 2" "length (padStart 2 d) = 2"
      "length (padStart 2 h) = 2" "length (padStart 2 mi) = 2" "length (padStart 2 s) = 2"
    using y c h pos_mod_bound [of 60 "ms div 60000"] pos_mod_bound [of 60 "ms div 1000"]
    by (auto simp: mi_def s_def intro!: length_padStart)
  have day: "stampDay t = padStart 4 y @ padStart 2 m @ padStart 2 d"
    and time: "stampTime t = padStart 2 h @ padStart 2 mi @ padStart 2 s"
    by (simp_all add: stampDay_def stampTime_def ymd Let_def h_def mi_def s_def ms_def)
  have zero: "padStart 3 0 = ''000''"
    by (simp add: padStart_def show_nat.simps [of 0] digit_char_def numeral_3_eq_3)
  have iso: "toISOString (t - t mod 1000) = padStart 4 y @ ''-'' @ padStart 2 m @ ''-'' @ padStart 2 d @ ''T'' @
      padStart 2 h @ '':'' @ padStart 2 mi @ '':'' @ padStart 2 s @ ''.000Z''"
    unfolding toISOString_def whole_second ymd ms_def [symmetric] Let_def clock_whole_second zero
    using y by (simp add: isoYear_def h_def mi_def s_def)
  have parse: "dateParse (nat y) (nat m) (nat d) (nat h) (nat mi) (nat s) = Some (t - t mod 1000)"
    using dateParse_fields [OF ymd y(1)] by (simp add: h_def mi_def s_def ms_def)
  show ?thesis by (simp add: stampFields_def day time Let_def len iso parse)
qed

lemma length_stamp:
  assumes "fourDigitYear t"
  shows "length (stampDay t) = 8" and "length (stampTime t) = 6"
proof -
  obtain y m d where ymd: "civil_from_days (t div DAY_MS) = (y, m, d)" using prod_cases3 by blast
  have y: "0 \<le> y" "y \<le> 9999" using assms by (simp_all add: fourDigitYear_def ymd)
  note c = civil_from_days(2,3) [OF ymd]
  define ms where "ms = t mod DAY_MS"
  have "0 \<le> ms" "ms < 86400000" unfolding ms_def by (simp_all add: DAY_MS_def)
  then have h: "0 \<le> ms div 3600000" "ms div 3600000 < 100" by linarith+
  show "length (stampDay t) = 8" using y c by (simp add: stampDay_def ymd length_padStart)
  have "length (padStart 2 (ms div 3600000)) = 2" by (rule length_padStart) (use h in simp_all)
  moreover have "length (padStart 2 (x mod 60)) = 2" for x by (rule length_padStart) (use mod_60 [of x] in simp_all)
  ultimately show "length (stampTime t) = 6" unfolding stampTime_def Let_def ms_def [symmetric] by (simp only: length_append)
qed

lemma stamp_digits: "list_all is_digit (stampDay t)" "list_all is_digit (stampTime t)"
  by (simp_all add: stampDay_def stampTime_def Let_def padStart_digits split: prod.split)

lemma stampOf_compactIso:
  assumes "fourDigitYear t"
  shows "stampOf (compactIso t @ ''.json.gz'') = Some (stampDay t, stampTime t)"
    and "CHR ''/'' \<notin> set (compactIso t @ ''.json.gz'')"
proof -
  show "stampOf (compactIso t @ ''.json.gz'') = Some (stampDay t, stampTime t)"
    using stampOf_stamp [OF stamp_digits(1) length_stamp(1) [OF assms] stamp_digits(2) length_stamp(2) [OF assms]]
    by (simp add: compactIso_fields [OF assms])
  show "CHR ''/'' \<notin> set (compactIso t @ ''.json.gz'')"
    using digits_not [OF stamp_digits(1) [of t]] digits_not [OF stamp_digits(2) [of t]]
    by (simp add: compactIso_fields [OF assms])
qed

lemma splitOn_manifestKey:
  assumes "fourDigitYear t"
  shows "splitOn CHR ''/'' (manifestKey t) = [''m'', compactIso t @ ''.json.gz'']"
  using splitOn_append [of "CHR ''/''" "''m''"] splitOn_none [OF stampOf_compactIso(2) [OF assms]]
  by (simp add: manifestKey_def)

section \<open>Days, weeks and months\<close>

lemma daysBeforeYear_Suc: "daysBeforeYear y - daysBeforeYear (y - 1) = 365 \<or> daysBeforeYear y - daysBeforeYear (y - 1) = 366"
proof -
  have step: "y div n - (y - 1) div n = (if n dvd y then 1 else 0)" if "1 < n" for n :: int
  proof (cases "n dvd y")
    case True
    then obtain k where y: "y = n * k" by blast
    have "(n * k - 1) div n = k - 1" 
      by (rule int_div_pos_eq [where r = "n - 1"]) (use that in \<open>simp_all add: algebra_simps\<close>)
    with True y that show ?thesis by simp
  next
    case False
    have r: "0 < y mod n" "y mod n < n" using False that pos_mod_bound [of n y] pos_mod_sign [of n y]
      by (simp_all add: dvd_eq_mod_eq_0 order_less_le)
    have "(y - 1) div n = y div n"
      by (rule int_div_pos_eq [where r = "y mod n - 1"]) (use r in \<open>simp_all add: algebra_simps\<close>)
    then show ?thesis using False by simp
  qed
  have steps: "y div 4 - (y - 1) div 4 = (if 4 dvd y then 1 else 0)" "y div 100 - (y - 1) div 100 = (if 100 dvd y then 1 else 0)"
    "y div 400 - (y - 1) div 400 = (if 400 dvd y then 1 else 0)" by (rule step, simp)+
  have dvd: "100 dvd y \<Longrightarrow> 4 dvd y" "400 dvd y \<Longrightarrow> 100 dvd y"
    by (auto elim!: dvd_trans [rotated])
  have "daysBeforeYear y - daysBeforeYear (y - 1) = 365 + (y div 4 - (y - 1) div 4) -
      (y div 100 - (y - 1) div 100) + (y div 400 - (y - 1) div 400)"
    unfolding daysBeforeYear_def by (simp only: algebra_simps)
  then have "daysBeforeYear y - daysBeforeYear (y - 1) = 365 + (if 4 dvd y then 1 else 0) -
      (if 100 dvd y then 1 else 0) + (if 400 dvd y then 1 else 0)"
    by (simp only: steps)
  then show ?thesis using dvd by (cases "4 dvd y"; cases "100 dvd y"; cases "400 dvd y") (simp_all only: if_True if_False, simp_all)
qed

lemma day_of_year:
  assumes "civil_from_days z = (y, m, d)"
  shows "0 \<le> z - days_from_civil y 1 1" and "z - days_from_civil y 1 1 \<le> 365"
proof -
  obtain y' doy where yd: "year_from_days z = (y', doy)" by fastforce
  note z = year_from_days [OF yd]
  define mp where "mp = (5 * doy + 2) div 153"
  have y: "y = (if mp < 10 then y' else y' + 1)"
    using assms yd unfolding civil_from_days_def mp_def by (auto simp: Let_def split: if_splits)
  have jan: "days_from_civil y 1 1 = daysBeforeYear (y - 1) + 306 - 719468"
    by (simp add: days_from_civil_def daysBeforeMonth_def)
  have "mp < 10 \<longleftrightarrow> doy < 306" unfolding mp_def by linarith
  then show "0 \<le> z - days_from_civil y 1 1" "z - days_from_civil y 1 1 \<le> 365"
    using y z daysBeforeYear_Suc [of y'] unfolding jan by (auto split: if_splits)
qed

text \<open>Two dates carry the same day, ISO week or month text exactly when they fall in the same one.\<close>

lemma dayOf_fields:
  assumes "fourDigitYear t" and "civil_from_days (t div DAY_MS) = (y, m, d)"
  shows "dayOf t = padStart 4 y @ ''-'' @ padStart 2 m @ ''-'' @ padStart 2 d"
    and "monthOf t = padStart 4 y @ ''-'' @ padStart 2 m"
    and "length (padStart 4 y) = 4" "length (padStart 2 m) = 2" "length (padStart 2 d) = 2"
proof -
  have y: "0 \<le> y" "y \<le> 9999" using assms by (simp_all add: fourDigitYear_def)
  note c = civil_from_days(2,3) [OF assms(2)]
  show len: "length (padStart 4 y) = 4" "length (padStart 2 m) = 2" "length (padStart 2 d) = 2"
    using y c by (simp_all add: length_padStart)
  have "isoYear y = padStart 4 y" using y by (simp add: isoYear_def)
  then show "dayOf t = padStart 4 y @ ''-'' @ padStart 2 m @ ''-'' @ padStart 2 d"
    and "monthOf t = padStart 4 y @ ''-'' @ padStart 2 m"
    by (simp_all add: dayOf_def monthOf_def toISOString_def assms(2) Let_def len)
qed

lemma same_day:
  assumes "fourDigitYear a" and "fourDigitYear b"
  shows "dayOf a = dayOf b \<longleftrightarrow> a div DAY_MS = b div DAY_MS"
    and "monthOf a = monthOf b \<longleftrightarrow>
      (case (civil_from_days (a div DAY_MS), civil_from_days (b div DAY_MS)) of ((y, m, _), (y', m', _)) \<Rightarrow> y = y' \<and> m = m')"
proof -
  obtain y m d where A: "civil_from_days (a div DAY_MS) = (y, m, d)" using prod_cases3 by blast
  obtain y' m' d' where B: "civil_from_days (b div DAY_MS) = (y', m', d')" using prod_cases3 by blast
  note fa = dayOf_fields [OF assms(1) A] and fb = dayOf_fields [OF assms(2) B]
  have pos: "0 \<le> y" "0 \<le> y'" "0 \<le> m" "0 \<le> m'" "0 \<le> d" "0 \<le> d'"
    using assms civil_from_days(2,3) [OF A] civil_from_days(2,3) [OF B] by (simp_all add: fourDigitYear_def A B)
  have pads: "padStart n j = padStart n k \<longleftrightarrow> j = k" if "0 \<le> j" "0 \<le> k" for n j k
    using that padStart_inj by blast
  have "dayOf a = dayOf b \<longleftrightarrow> (y, m, d) = (y', m', d')"
    using pos by (simp add: fa fb pads)
  also have "\<dots> \<longleftrightarrow> a div DAY_MS = b div DAY_MS"
    using civil_from_days(1) [OF A] civil_from_days(1) [OF B] A B by auto
  finally show "dayOf a = dayOf b \<longleftrightarrow> a div DAY_MS = b div DAY_MS" .
  show "monthOf a = monthOf b \<longleftrightarrow>
      (case (civil_from_days (a div DAY_MS), civil_from_days (b div DAY_MS)) of ((y, m, _), (y', m', _)) \<Rightarrow> y = y' \<and> m = m')"
    using pos by (simp add: A B fa fb pads)
qed

lemma thursday:
  "day + 4 - (if (day + 4) mod 7 = 0 then 7 else (day + 4) mod 7) = 7 * ((day + 3) div 7)" for day :: int
proof -
  define q w where "q = (day + 3) div 7" and "w = (day + 3) mod 7"
  have day: "day + 4 = (w + 1) + 7 * q" and w: "0 \<le> w" "w < 7" unfolding q_def w_def by simp_all
  have "(w + 1) mod 7 = (if w = 6 then 0 else w + 1)" using w by simp
  then have m: "(day + 4) mod 7 = (if w = 6 then 0 else w + 1)" unfolding day by simp
  show ?thesis unfolding q_def [symmetric] m using day w by auto
qed

text \<open>The year an ISO week belongs to, and its number there.\<close>

definition isoYearOf :: "int \<Rightarrow> int" where
  "isoYearOf t = fst (civil_from_days (7 * ((t div DAY_MS + 3) div 7)))"

definition isoWeekNumber :: "int \<Rightarrow> int" where
  "isoWeekNumber t = (7 * ((t div DAY_MS + 3) div 7) - days_from_civil (isoYearOf t) 1 1 + 1 + 6) div 7"

lemma isoWeekOf_fields: "isoWeekOf t = show_int (isoYearOf t) @ ''-W'' @ padStart 2 (isoWeekNumber t)"
  by (simp only: isoWeekOf_def Let_def thursday isoWeekNumber_def isoYearOf_def)

lemma isoWeekNumber_range: "0 \<le> isoWeekNumber t \<and> isoWeekNumber t < 100"
proof -
  have week: "0 \<le> (x + 1 + 6) div 7 \<and> (x + 1 + 6) div 7 < 100" if "0 \<le> x" "x \<le> 365" for x :: int
    using that by linarith
  obtain y m d where c: "civil_from_days (7 * ((t div DAY_MS + 3) div 7)) = (y, m, d)" using prod_cases3 by blast
  then have "isoYearOf t = y" by (simp add: isoYearOf_def)
  with week [OF day_of_year [OF c]] show ?thesis by (simp only: isoWeekNumber_def)
qed

lemma same_week: "isoWeekOf a = isoWeekOf b \<longleftrightarrow> (a div DAY_MS + 3) div 7 = (b div DAY_MS + 3) div 7"
proof
  have len: "length (padStart 2 (isoWeekNumber t)) = 2" for t
    using isoWeekNumber_range [of t] by (simp add: length_padStart)
  assume "isoWeekOf a = isoWeekOf b"
  then have "show_int (isoYearOf a) @ ''-W'' = show_int (isoYearOf b) @ ''-W''"
    and w: "padStart 2 (isoWeekNumber a) = padStart 2 (isoWeekNumber b)"
    using append_eq_append_conv [of _ _ "show_int (isoYearOf a) @ ''-W''" "show_int (isoYearOf b) @ ''-W''"]
    by (simp_all add: isoWeekOf_fields len)
  then have y: "isoYearOf a = isoYearOf b" by (metis append_same_eq option.inject read_show_int)
  have div7: "x = z" if "(7 * x - e + 1 + 6) div 7 = (7 * z - e + 1 + 6) div 7" for x z e :: int
    using that by linarith
  from w isoWeekNumber_range have "isoWeekNumber a = isoWeekNumber b" using padStart_inj by blast
  then show "(a div DAY_MS + 3) div 7 = (b div DAY_MS + 3) div 7" unfolding isoWeekNumber_def y by (rule div7)
qed (simp only: isoWeekOf_def Let_def thursday)

section \<open>Manifest names\<close>

text \<open>
  The name of a manifest carries the time of its run: for every date with a four-digit year, \<open>manifestTime\<close>
  reads \<open>manifestKey\<close> back to the whole second, so manifests are ordered and counted by the time they were made.
\<close>

theorem manifest_name_roundtrip:
  assumes "fourDigitYear t"
  shows "manifestTime (manifestKey t) = Some (t - t mod 1000)"
  using assms by (simp add: manifestTime_def splitOn_manifestKey stampOf_compactIso stampFields_stamp)

theorem manifest_name_roundtrip_witness:
  "manifestTime (manifestKey 1790391600123) = Some 1790391600000"
proof -
  have "fourDigitYear 1790391600123" by code_simp
  from manifest_name_roundtrip [OF this] show ?thesis by simp
qed

end
