(* ===== verification/CloudRetention.thy ===== *)
theory CloudRetention
  imports BackupDates "HOL-Library.AList" "HOL-Library.Multiset"
begin

text \<open>
  Which cloud backups are kept, what a backup manifest names, and which objects a weekly check reads
  (\<open>server/src/utils/cloud-backup-retention.ts\<close>, with the key formats of \<open>cloud-backup.ts\<close> and
  \<open>cloud-backup-crypto.ts\<close>).

  \<^item> \<open>retentionPlan\<close> and its rules over a list of manifests.
  \<^item> \<open>clientBackupContext\<close>: the three kinds of client-encrypted key, and what it refuses.
  \<^item> \<open>readManifest\<close> over the JSON value of a decompressed body. The albums, people and item details of a
    manifest, which third-party schemas read, are left out; the text of a number (\<open>numText\<close>) is a parameter.
  \<^item> \<open>manifestReferences\<close>, \<open>unreferencedObjects\<close> and \<open>unreferencedDumps\<close>.
\<close>

section \<open>Sorting\<close>

fun code_less :: "string \<Rightarrow> string \<Rightarrow> bool" where
  "code_less _ [] = False"
| "code_less [] (_ # _) = True"
| "code_less (a # as) (b # bs) \<longleftrightarrow> (of_char a :: nat) < of_char b \<or> (a = b \<and> code_less as bs)"

definition compareCodeUnits :: "string \<Rightarrow> string \<Rightarrow> int" where
  "compareCodeUnits a b = (if code_less a b then - 1 else if code_less b a then 1 else 0)"

text \<open>\<open>Array.prototype.toSorted\<close>, a stable sort by a comparison function.\<close>

fun insertBy :: "('a \<Rightarrow> 'a \<Rightarrow> int) \<Rightarrow> 'a \<Rightarrow> 'a list \<Rightarrow> 'a list" where
  "insertBy cmp x [] = [x]"
| "insertBy cmp x (y # ys) = (if cmp x y \<le> 0 then x # y # ys else y # insertBy cmp x ys)"

definition toSorted :: "('a \<Rightarrow> 'a \<Rightarrow> int) \<Rightarrow> 'a list \<Rightarrow> 'a list" where
  "toSorted cmp xs = foldr (insertBy cmp) xs []"

section \<open>Retention\<close>

record retentionCandidate =
  manifest_key :: string
  manifest_createdAt :: int

record cloudBackupRetention =
  keepDaily :: int
  keepWeekly :: int
  keepMonthly :: int

definition newestFirst_compare :: "retentionCandidate \<Rightarrow> retentionCandidate \<Rightarrow> int" where
  "newestFirst_compare a b =
     (if manifest_createdAt b - manifest_createdAt a \<noteq> 0 then manifest_createdAt b - manifest_createdAt a
      else compareCodeUnits (manifest_key b) (manifest_key a))"

text \<open>One rule's loop: the periods seen so far, and the keys to keep.\<close>

fun ruleLoop :: "int \<Rightarrow> (int \<Rightarrow> string) \<Rightarrow> string list \<Rightarrow> string list \<Rightarrow> retentionCandidate list \<Rightarrow> string list" where
  "ruleLoop n periodOf periods kept [] = kept"
| "ruleLoop n periodOf periods kept (m # ms) =
     (if int (length periods) \<ge> n then kept
      else let period = periodOf (manifest_createdAt m)
           in if period \<notin> set periods then ruleLoop n periodOf (periods @ [period]) (kept @ [manifest_key m]) ms
              else ruleLoop n periodOf periods kept ms)"

definition retentionRules :: "cloudBackupRetention \<Rightarrow> (int \<times> (int \<Rightarrow> string)) list" where
  "retentionRules r = [(keepDaily r, dayOf), (keepWeekly r, isoWeekOf), (keepMonthly r, monthOf)]"

definition retentionPlan ::
  "retentionCandidate list \<Rightarrow> cloudBackupRetention \<Rightarrow> retentionCandidate list \<times> retentionCandidate list" where
  "retentionPlan manifests retention =
     (let newestFirst = toSorted newestFirst_compare manifests;
          kept0 = (case newestFirst of [] \<Rightarrow> [] | m # _ \<Rightarrow> [manifest_key m]);
          kept = foldl (\<lambda>kept (n, periodOf). ruleLoop n periodOf [] kept newestFirst) kept0 (retentionRules retention)
      in (filter (\<lambda>m. manifest_key m \<in> set kept) newestFirst, filter (\<lambda>m. manifest_key m \<notin> set kept) newestFirst))"

section \<open>Keys\<close>

datatype backupError =
    UnsupportedClientFormat | VaultMismatch | InvalidObjectKey | InvalidObjectName
  | ManifestUnreadable | NotAManifest | FileWithoutChecksum | DumpWithoutChecksum
  | InvalidEncryptedReference | InvalidDatabaseReference | LegacyClientReferences
  | StoreError "int option" "string option" | AuthorizationLost
  | AnchoredHeadMissing | InvalidHistoryKey | NoTrustedVersion

text \<open>The pattern \<open>[\da-f]{64}\<close>.\<close>

definition isSha256Hex :: "string \<Rightarrow> bool" where
  "isSha256Hex s \<longleftrightarrow> length s = 64 \<and> list_all isLowerHex s"

definition objectKey :: "string \<Rightarrow> backupError + string" where
  "objectKey sha256 = (if \<not> isSha256Hex sha256 then Inl InvalidObjectName else Inr (''o/'' @ sha256))"

text \<open>Groups of 8, 4, 4, 4 and 12 hexadecimal digits with dashes between.\<close>

definition isUuidOf :: "(char \<Rightarrow> bool) \<Rightarrow> string \<Rightarrow> bool" where
  "isUuidOf hex s \<longleftrightarrow>
     (case splitOn CHR ''-'' s of
        [a, b, c, d, e] \<Rightarrow> map length [a, b, c, d, e] = [8, 4, 4, 4, 12] \<and> list_all hex (a @ b @ c @ d @ e)
      | _ \<Rightarrow> False)"

definition isUuid :: "string \<Rightarrow> bool" where
  "isUuid s = isUuidOf isLowerHex s"

definition isAnyHex :: "char \<Rightarrow> bool" where
  "isAnyHex c \<longleftrightarrow> isLowerHex c \<or> (65 \<le> (of_char c :: nat) \<and> (of_char c :: nat) \<le> 70)"

definition isLockedKeyUserId :: "string \<Rightarrow> bool" where
  "isLockedKeyUserId s = isUuidOf isAnyHex s"

datatype backupKind = ObjectKind | DatabaseKind | ManifestKind

record clientContext =
  ctx_bucket :: string
  ctx_key :: string
  vaultId :: string
  keyVersion :: int
  ctx_kind :: backupKind
  ctx_id :: string

text \<open>The \<open>FILE\<close> pattern: area, vault, version, id and the name that follows, if one does.\<close>

definition filePattern :: "string \<Rightarrow> (string \<times> string \<times> string \<times> string \<times> string option) option" where
  "filePattern key =
     (let ok = (\<lambda>a b u v h. (a = ''o'' \<or> a = ''db'') \<and> b = ''v1'' \<and> isUuid u \<and> isKeyVersion v \<and> isSha256Hex h)
      in case splitOn CHR ''/'' key of
           [a, b, u, v, h] \<Rightarrow> if ok a b u v h then Some (a, u, v, h, None) else None
         | [a, b, u, v, h, n] \<Rightarrow> if ok a b u v h \<and> n \<noteq> [] then Some (a, u, v, h, Some n) else None
         | _ \<Rightarrow> None)"

definition manifestPattern :: "string \<Rightarrow> (string \<times> string) option" where
  "manifestPattern key =
     (case splitOn CHR ''/'' key of
        [a, b, u, v, n] \<Rightarrow>
          if a = ''m'' \<and> b = ''v1'' \<and> isUuid u \<and> isKeyVersion v \<and> stampOf n \<noteq> None then Some (u, v) else None
      | _ \<Rightarrow> None)"

text \<open>The pattern \<open>^(?:o|db|m)/v\d+/\<close>.\<close>

definition clientNamespace :: "string \<Rightarrow> bool" where
  "clientNamespace key \<longleftrightarrow>
     (case splitOn CHR ''/'' key of
        a # b # _ # _ \<Rightarrow> a \<in> {''o'', ''db'', ''m''} \<and> b \<noteq> [] \<and> hd b = CHR ''v'' \<and> is_digits (tl b)
      | _ \<Rightarrow> False)"

definition vaultContext ::
  "string \<Rightarrow> string \<Rightarrow> string option \<Rightarrow> string \<Rightarrow> string \<Rightarrow> backupKind \<Rightarrow> string \<Rightarrow> bool \<Rightarrow>
   backupError + clientContext option" where
  "vaultContext bucket key expectedVaultId vault version kind ident wellFormed =
     (if bucket = [] \<or> (case expectedVaultId of None \<Rightarrow> False | Some e \<Rightarrow> e \<noteq> [] \<and> e \<noteq> vault) then Inl VaultMismatch
      else if \<not> wellFormed then Inl InvalidObjectKey
      else Inr (Some \<lparr>ctx_bucket = bucket, ctx_key = key, vaultId = vault, keyVersion = int (read_nat version),
                       ctx_kind = kind, ctx_id = ident\<rparr>))"

definition clientBackupContext :: "string \<Rightarrow> string \<Rightarrow> string option \<Rightarrow> backupError + clientContext option" where
  "clientBackupContext bucket key expectedVaultId =
     (case (filePattern key, manifestPattern key) of
        (Some (a, u, v, h, n), _) \<Rightarrow>
          vaultContext bucket key expectedVaultId u v (if a = ''o'' then ObjectKind else DatabaseKind) h
            (\<not> (a = ''o'' \<and> n \<noteq> None \<or> a = ''db'' \<and> n = None))
      | (None, Some (u, v)) \<Rightarrow> vaultContext bucket key expectedVaultId u v ManifestKind key True
      | (None, None) \<Rightarrow> if clientNamespace key then Inl UnsupportedClientFormat else Inr None)"

section \<open>Manifests\<close>

record manifestFile =
  mf_role :: string
  mf_path :: string
  mf_sha256 :: string
  mf_size :: rat
  mf_objectKey :: json

record manifestAsset =
  ma_owner :: json
  ma_files :: "manifestFile list"

record manifest =
  mft_version :: int
  mft_instanceId :: string
  mft_createdAt :: string
  mft_database :: json
  mft_assets :: "(string \<times> manifestAsset) list"
  mft_profiles :: "(string \<times> manifestFile) list"
  mft_lockedKeys :: "(string \<times> manifestFile) list"

text \<open>The text of a JSON value where a regular expression is applied to it.\<close>

fun joinComma :: "string list \<Rightarrow> string" where
  "joinComma [] = []"
| "joinComma [s] = s"
| "joinComma (s # t # ss) = s @ '','' @ joinComma (t # ss)"

fun jsText :: "(rat \<Rightarrow> string) \<Rightarrow> json \<Rightarrow> string" where
  "jsText num JUndefined = ''undefined''"
| "jsText num JNull = ''null''"
| "jsText num (JBool b) = (if b then ''true'' else ''false'')"
| "jsText num (JNum q) = num q"
| "jsText num (JStr s) = s"
| "jsText num (JArr xs) = joinComma (map (\<lambda>x. if x = JNull \<or> x = JUndefined then [] else jsText num x) xs)"
| "jsText num (JObj _) = ''[object Object]''"

text \<open>\<open>isFile\<close>, with the file as the manifest holds it.\<close>

definition isFile :: "json \<Rightarrow> manifestFile option" where
  "isFile value =
     (case (jget value ''role'', jget value ''path'', jget value ''sha256'', jget value ''size'') of
        (JStr r, JStr p, JStr h, JNum s) \<Rightarrow>
          if isSha256Hex h \<and> 0 \<le> s
          then Some \<lparr>mf_role = r, mf_path = p, mf_sha256 = h, mf_size = s, mf_objectKey = jget value ''objectKey''\<rparr>
          else None
      | _ \<Rightarrow> None)"

definition checkedFile :: "json \<Rightarrow> backupError + manifestFile" where
  "checkedFile value = (case isFile value of None \<Rightarrow> Inl FileWithoutChecksum | Some f \<Rightarrow> Inr f)"

definition checkedAsset :: "string \<times> json \<Rightarrow> backupError + string \<times> manifestAsset" where
  "checkedAsset entry =
     (case jget (snd entry) ''files'' of
        JArr fs \<Rightarrow> mapR (\<lambda>files. (fst entry, \<lparr>ma_owner = jget (snd entry) ''owner'', ma_files = files\<rparr>)) (traverseR checkedFile fs)
      | _ \<Rightarrow> Inl FileWithoutChecksum)"

text \<open>A keyed section of files: absent and null read as empty, anything but an object is refused.\<close>

definition checkedSection :: "(string \<Rightarrow> bool) \<Rightarrow> json \<Rightarrow> backupError + (string \<times> manifestFile) list" where
  "checkedSection okKey section =
     (case section of
        JUndefined \<Rightarrow> Inr []
      | JNull \<Rightarrow> Inr []
      | JObj kvs \<Rightarrow>
          traverseR (\<lambda>(k, v). if \<not> okKey k then Inl FileWithoutChecksum else mapR (\<lambda>f. (k, f)) (checkedFile v)) kvs
      | _ \<Rightarrow> Inl FileWithoutChecksum)"

definition nullish :: "json \<Rightarrow> bool" where
  "nullish v \<longleftrightarrow> v = JUndefined \<or> v = JNull"

definition checkedDatabase :: "(rat \<Rightarrow> string) \<Rightarrow> json \<Rightarrow> backupError + json" where
  "checkedDatabase num database =
     (if nullish database then Inr JNull
      else if truthy database \<and>
           ((case jget database ''key'' of JStr _ \<Rightarrow> False | _ \<Rightarrow> True) \<or> \<not> isSha256Hex (jsText num (jget database ''sha256'')))
      then Inl DumpWithoutChecksum else Inr database)"

definition manifestFiles :: "manifest \<Rightarrow> manifestFile list" where
  "manifestFiles m =
     concat (map (\<lambda>(_, a). ma_files a) (mft_assets m)) @ map snd (mft_profiles m) @ map snd (mft_lockedKeys m)"

definition encryptedReference :: "(rat \<Rightarrow> string) \<Rightarrow> string \<Rightarrow> manifestFile \<Rightarrow> backupError + unit" where
  "encryptedReference num instanceId f =
     (if \<not> truthy (mf_objectKey f) then Inl InvalidEncryptedReference
      else bindR (clientBackupContext ''validation'' (jsText num (mf_objectKey f)) (Some instanceId)) (\<lambda>ctx.
        if map_option ctx_kind ctx \<noteq> Some ObjectKind then Inl InvalidEncryptedReference else Inr ()))"

definition checkedReferences :: "(rat \<Rightarrow> string) \<Rightarrow> manifest \<Rightarrow> backupError + unit" where
  "checkedReferences num m =
     (if mft_version m = 3
      then bindR (traverseR (encryptedReference num (mft_instanceId m)) (manifestFiles m)) (\<lambda>_.
             if truthy (mft_database m)
             then bindR (clientBackupContext ''validation'' (jsText num (jget (mft_database m) ''key'')) (Some (mft_instanceId m)))
                    (\<lambda>ctx. if map_option ctx_kind ctx \<noteq> Some DatabaseKind then Inl InvalidDatabaseReference else Inr ())
             else Inr ())
      else if list_ex (\<lambda>f. mf_objectKey f \<noteq> JUndefined) (manifestFiles m) then Inl LegacyClientReferences
      else Inr ())"

definition readManifest :: "(rat \<Rightarrow> string) \<Rightarrow> json option \<Rightarrow> backupError + manifest" where
  "readManifest num body =
     (case body of
        None \<Rightarrow> Inl ManifestUnreadable
      | Some parsed \<Rightarrow>
          (case (jget parsed ''version'', jget parsed ''instanceId'', jget parsed ''assets'') of
             (JNum v, JStr instanceId, JObj assets) \<Rightarrow>
               if jget parsed ''format'' \<noteq> JStr ''frameleaf-backup-manifest'' \<or> v \<notin> {1, 2, 3} then Inl NotAManifest
               else bindR (traverseR checkedAsset assets) (\<lambda>as.
                    bindR (checkedSection (\<lambda>_. True) (jget parsed ''profiles'')) (\<lambda>profiles.
                    bindR (checkedSection isLockedKeyUserId (jget parsed ''lockedKeys'')) (\<lambda>lockedKeys.
                    bindR (checkedDatabase num (jget parsed ''database'')) (\<lambda>database.
                    let m = \<lparr>mft_version = \<lfloor>v\<rfloor>, mft_instanceId = instanceId,
                             mft_createdAt = (case jget parsed ''createdAt'' of JStr s \<Rightarrow> s | _ \<Rightarrow> []),
                             mft_database = database, mft_assets = as, mft_profiles = profiles,
                             mft_lockedKeys = lockedKeys\<rparr>
                    in mapR (\<lambda>_. m) (checkedReferences num m)))))
           | _ \<Rightarrow> Inl NotAManifest))"

section \<open>References\<close>

definition manifestFileObjectKey :: "manifestFile \<Rightarrow> backupError + json" where
  "manifestFileObjectKey f =
     (if nullish (mf_objectKey f) then mapR JStr (objectKey (mf_sha256 f)) else Inr (mf_objectKey f))"

record references =
  ref_objects :: "(string \<times> rat) list"
  ref_storageKeys :: "(string \<times> json list) list"
  ref_database :: "string option"

definition addReference :: "manifestFile \<Rightarrow> references \<Rightarrow> backupError + references" where
  "addReference f r =
     bindR (manifestFileObjectKey f) (\<lambda>key.
       let keys = (case map_of (ref_storageKeys r) (mf_sha256 f) of None \<Rightarrow> [] | Some ks \<Rightarrow> ks)
       in Inr (r\<lparr>ref_objects := AList.update (mf_sha256 f) (mf_size f) (ref_objects r),
                 ref_storageKeys := AList.update (mf_sha256 f) (if key \<in> set keys then keys else keys @ [key]) (ref_storageKeys r)\<rparr>))"

fun addReferences :: "manifestFile list \<Rightarrow> references \<Rightarrow> backupError + references" where
  "addReferences [] r = Inr r"
| "addReferences (f # fs) r = bindR (addReference f r) (addReferences fs)"

definition manifestReferences :: "manifest \<Rightarrow> backupError + references" where
  "manifestReferences m =
     addReferences (manifestFiles m)
       \<lparr>ref_objects = [], ref_storageKeys = [],
        ref_database = (case jget (mft_database m) ''key'' of JStr k \<Rightarrow> Some k | _ \<Rightarrow> None)\<rparr>"

record objectInfo =
  info_key :: string
  info_size :: int

definition unreferencedObject :: "json set \<Rightarrow> objectInfo \<Rightarrow> backupError + bool" where
  "unreferencedObject referenced info =
     (let key = info_key info
      in if \<not> startsWith key ''o/'' then Inr False
         else if startsWith key ''o/v1/''
              then mapR (\<lambda>ctx. ctx \<noteq> None \<and> JStr key \<notin> referenced) (clientBackupContext ''validation'' key None)
              else Inr (isSha256Hex (drop 2 key) \<and> JStr (drop 2 key) \<notin> referenced))"

fun filterR :: "('a \<Rightarrow> 'e + bool) \<Rightarrow> 'a list \<Rightarrow> 'e + 'a list" where
  "filterR f [] = Inr []"
| "filterR f (x # xs) = bindR (f x) (\<lambda>keep. mapR (\<lambda>ys. if keep then x # ys else ys) (filterR f xs))"

definition unreferencedObjects :: "objectInfo list \<Rightarrow> json set \<Rightarrow> backupError + objectInfo list" where
  "unreferencedObjects objects referenced = filterR (unreferencedObject referenced) objects"

definition unreferencedDumps :: "objectInfo list \<Rightarrow> string set \<Rightarrow> objectInfo list" where
  "unreferencedDumps objects referenced =
     filter (\<lambda>info. startsWith (info_key info) ''db/'' \<and> info_key info \<notin> referenced) objects"

section \<open>Verification\<close>

definition CLOUD_BACKUP_VERIFY_SLICES :: int where
  "CLOUD_BACKUP_VERIFY_SLICES = 52"

definition CLOUD_BACKUP_FULL_VERIFY_INTERVAL_MS :: int where
  "CLOUD_BACKUP_FULL_VERIFY_INTERVAL_MS = 30 * 24 * 60 * 60 * 1000"

definition CLOUD_BACKUP_SAMPLE_VERIFY_INTERVAL_MS :: int where
  "CLOUD_BACKUP_SAMPLE_VERIFY_INTERVAL_MS = 7 * 24 * 60 * 60 * 1000"

definition verifySliceOf :: "int \<Rightarrow> int" where
  "verifySliceOf date = js_rem (date div WEEK_MS) CLOUD_BACKUP_VERIFY_SLICES"

definition hexValue :: "char \<Rightarrow> int" where
  "hexValue c = (if is_digit c then int (digit_val c) else of_char c - 87)"

text \<open>\<open>parseInt(sha256.slice(0, 8), 16)\<close> of a name that \<open>isSha256Hex\<close> accepts.\<close>

definition leading32 :: "string \<Rightarrow> int" where
  "leading32 sha = foldl (\<lambda>n c. n * 16 + hexValue c) 0 (take 8 sha)"

definition inVerifySlice :: "string \<Rightarrow> int \<Rightarrow> bool" where
  "inVerifySlice sha slice \<longleftrightarrow> leading32 sha mod CLOUD_BACKUP_VERIFY_SLICES = slice"

datatype verification = FullPass | SamplePass

text \<open>The time since a recorded one is at least a span; a time absent or unreadable is infinitely long ago.\<close>

definition sinceAtLeast :: "int \<Rightarrow> int option \<Rightarrow> int \<Rightarrow> bool" where
  "sinceAtLeast now recorded interval = (case recorded of None \<Rightarrow> True | Some t \<Rightarrow> now - t \<ge> interval)"

definition verificationDue :: "bool \<Rightarrow> int option \<Rightarrow> int option \<Rightarrow> int \<Rightarrow> verification option" where
  "verificationDue verifyWeekly lastFullAt lastSampleAt now =
     (if \<not> verifyWeekly then None
      else if sinceAtLeast now lastFullAt CLOUD_BACKUP_FULL_VERIFY_INTERVAL_MS then Some FullPass
      else if sinceAtLeast now lastSampleAt CLOUD_BACKUP_SAMPLE_VERIFY_INTERVAL_MS then Some SamplePass
      else None)"

section \<open>Sorted lists\<close>

text \<open>A comparison function that orders its arguments in a line.\<close>

locale comparison =
  fixes cmp :: "'a \<Rightarrow> 'a \<Rightarrow> int"
  assumes cmp_total: "cmp x y \<le> 0 \<or> cmp y x \<le> 0"
    and cmp_trans: "cmp x y \<le> 0 \<Longrightarrow> cmp y z \<le> 0 \<Longrightarrow> cmp x z \<le> 0"
    and cmp_antisym: "cmp x y \<le> 0 \<Longrightarrow> cmp y x \<le> 0 \<Longrightarrow> x = y"
begin

lemma mset_insertBy: "mset (insertBy cmp x ys) = add_mset x (mset ys)"
  by (induction ys) auto

lemma mset_toSorted: "mset (toSorted cmp xs) = mset xs"
  by (induction xs) (simp_all add: toSorted_def mset_insertBy)

lemma set_toSorted: "set (toSorted cmp xs) = set xs"
  by (metis mset_toSorted set_mset_mset)

lemma sorted_insertBy: "sorted_wrt (\<lambda>x y. cmp x y \<le> 0) ys \<Longrightarrow> sorted_wrt (\<lambda>x y. cmp x y \<le> 0) (insertBy cmp x ys)"
proof (induction ys)
  case (Cons y ys)
  have "set (insertBy cmp x ys) = insert x (set ys)"
    by (metis mset_insertBy set_mset_add_mset_insert set_mset_mset)
  with Cons show ?case using cmp_total cmp_trans by auto
qed simp

lemma sorted_toSorted: "sorted_wrt (\<lambda>x y. cmp x y \<le> 0) (toSorted cmp xs)"
  by (induction xs) (simp_all add: toSorted_def sorted_insertBy)

lemma sorted_unique:
  "sorted_wrt (\<lambda>x y. cmp x y \<le> 0) xs \<Longrightarrow> sorted_wrt (\<lambda>x y. cmp x y \<le> 0) ys \<Longrightarrow> mset xs = mset ys \<Longrightarrow> xs = ys"
proof (induction xs arbitrary: ys)
  case (Cons x xs)
  obtain y ys' where ys: "ys = y # ys'" using Cons.prems(3) by (cases ys) auto
  have "x \<in> set ys" "y \<in> set (x # xs)" using Cons.prems(3) ys by (metis list.set_intros(1) set_mset_mset)+
  then have "x = y" using Cons.prems(1,2) ys cmp_antisym by auto
  with Cons ys show ?case by auto
qed simp

lemma toSorted_perm: "mset xs = mset ys \<Longrightarrow> toSorted cmp xs = toSorted cmp ys"
  by (rule sorted_unique) (simp_all add: sorted_toSorted mset_toSorted)

text \<open>In a sorted list without repetition, what stands before an element is what is strictly less than it.\<close>

lemma sorted_before:
  assumes "sorted_wrt (\<lambda>x y. cmp x y \<le> 0) (ys @ m # zs)" and "distinct (ys @ m # zs)"
  shows "set ys = {x \<in> set (ys @ m # zs). \<not> cmp m x \<le> 0}"
proof -
  have "cmp m m \<le> 0" using cmp_total by blast
  then show ?thesis using assms cmp_antisym by (auto simp: sorted_wrt_append)
qed

end

lemma code_less_irrefl [simp]: "\<not> code_less a a"
  by (induction a) auto

lemma code_less_trans: "code_less a b \<Longrightarrow> code_less b c \<Longrightarrow> code_less a c"
proof (induction a b arbitrary: c rule: code_less.induct)
  case (2 b bs)
  then show ?case by (cases c) auto
next
  case (3 a as b bs)
  then show ?case by (cases c) auto
qed simp

lemma code_less_total: "code_less a b \<or> a = b \<or> code_less b a"
proof (induction a b rule: code_less.induct)
  case (1 a)
  then show ?case by (cases a) auto
next
  case (3 a as b bs)
  have "(of_char a :: nat) = of_char b \<longleftrightarrow> a = b" by (simp add: of_char_eq_iff)
  with 3 show ?case by auto
qed simp

lemma compareCodeUnits_le: "compareCodeUnits a b \<le> 0 \<longleftrightarrow> a = b \<or> code_less a b"
  using code_less_total [of a b] code_less_trans [of a b a] by (auto simp: compareCodeUnits_def)

interpretation codeUnits: comparison compareCodeUnits
  by unfold_locales (use code_less_total code_less_trans in \<open>auto simp: compareCodeUnits_le\<close>, metis code_less_irrefl code_less_trans)

interpretation codeUnitsDown: comparison "\<lambda>a b. compareCodeUnits b a"
  by unfold_locales (use codeUnits.cmp_total codeUnits.cmp_trans codeUnits.cmp_antisym in blast)+

lemma newestFirst_le:
  "newestFirst_compare a b \<le> 0 \<longleftrightarrow> manifest_createdAt b < manifest_createdAt a \<or>
     manifest_createdAt a = manifest_createdAt b \<and> compareCodeUnits (manifest_key b) (manifest_key a) \<le> 0"
  by (auto simp: newestFirst_compare_def)

interpretation newestFirst: comparison newestFirst_compare
proof
  fix x y z :: retentionCandidate
  show "newestFirst_compare x y \<le> 0 \<or> newestFirst_compare y x \<le> 0"
    using codeUnits.cmp_total [of "manifest_key x" "manifest_key y"] by (auto simp: newestFirst_le)
  show "newestFirst_compare x y \<le> 0 \<Longrightarrow> newestFirst_compare y z \<le> 0 \<Longrightarrow> newestFirst_compare x z \<le> 0"
    using codeUnits.cmp_trans by (auto simp: newestFirst_le)
  show "newestFirst_compare x y \<le> 0 \<Longrightarrow> newestFirst_compare y x \<le> 0 \<Longrightarrow> x = y"
    using codeUnits.cmp_antisym by (auto simp: newestFirst_le)
qed

section \<open>What a plan keeps\<close>

text \<open>
  The reference: a manifest is newer than another when it was made later or, at the same time, has the greater
  key; a rule keeps the newest of a period when fewer than \<open>n\<close> periods have a newer manifest.
\<close>

definition newer :: "retentionCandidate \<Rightarrow> retentionCandidate \<Rightarrow> bool" where
  "newer a b \<longleftrightarrow> manifest_createdAt b < manifest_createdAt a \<or>
     manifest_createdAt a = manifest_createdAt b \<and> code_less (manifest_key b) (manifest_key a)"

definition keptByRule :: "retentionCandidate set \<Rightarrow> int \<Rightarrow> (int \<Rightarrow> string) \<Rightarrow> retentionCandidate \<Rightarrow> bool" where
  "keptByRule S n periodOf m \<longleftrightarrow>
     periodOf (manifest_createdAt m) \<notin> (periodOf \<circ> manifest_createdAt) ` {x \<in> S. newer x m} \<and>
     int (card ((periodOf \<circ> manifest_createdAt) ` {x \<in> S. newer x m})) < n"

definition keptBackups :: "retentionCandidate set \<Rightarrow> cloudBackupRetention \<Rightarrow> retentionCandidate set" where
  "keptBackups S r =
     {m \<in> S. {x \<in> S. newer x m} = {} \<or> keptByRule S (keepDaily r) dayOf m \<or>
             keptByRule S (keepWeekly r) isoWeekOf m \<or> keptByRule S (keepMonthly r) monthOf m}"

lemma code_less_not: "code_less a b \<longleftrightarrow> \<not> (b = a \<or> code_less b a)"
  using code_less_total [of a b] code_less_trans [of a b a] by auto

lemma newer_compare: "newer x m \<longleftrightarrow> \<not> newestFirst_compare m x \<le> 0"
  unfolding newer_def newestFirst_le compareCodeUnits_le code_less_not [of "manifest_key m"] by linarith

text \<open>What a rule picks from a list in order, after the periods \<open>qs\<close>.\<close>

fun rulePicks :: "(retentionCandidate \<Rightarrow> string) \<Rightarrow> int \<Rightarrow> string set \<Rightarrow> retentionCandidate list \<Rightarrow> retentionCandidate set" where
  "rulePicks f n qs [] = {}"
| "rulePicks f n qs (x # xs) =
     (if f x \<notin> qs \<and> int (card qs) < n then {x} else {}) \<union> rulePicks f n (insert (f x) qs) xs"

lemma rulePicks_full: "finite qs \<Longrightarrow> n \<le> int (card qs) \<Longrightarrow> rulePicks f n qs xs = {}"
proof (induction xs arbitrary: qs)
  case (Cons x xs)
  moreover have "card qs \<le> card (insert (f x) qs)" using Cons.prems(1) by (simp add: card_insert_le)
  ultimately show ?case by simp
qed simp

lemma ruleLoop_picks:
  "distinct ps \<Longrightarrow> set (ruleLoop n p ps kept xs) =
     set kept \<union> manifest_key ` rulePicks (\<lambda>m. p (manifest_createdAt m)) n (set ps) xs"
proof (induction xs arbitrary: ps kept)
  case (Cons x xs)
  show ?case
  proof (cases "int (length ps) \<ge> n")
    case True
    then have "n \<le> int (card (set ps))" using Cons.prems by (simp add: distinct_card)
    then have "rulePicks (\<lambda>m. p (manifest_createdAt m)) n (set ps) (x # xs) = {}" by (intro rulePicks_full) simp
    with True show ?thesis by (simp del: rulePicks.simps)
  next
    case False
    then show ?thesis using Cons.prems
        Cons.IH [of "ps @ [p (manifest_createdAt x)]" "kept @ [manifest_key x]"] Cons.IH [of ps kept]
      by (auto simp: Let_def distinct_card insert_absorb)
  qed
qed simp

lemma rulePicks_iff:
  "m \<in> rulePicks f n qs xs \<longleftrightarrow>
     (\<exists>ys zs. xs = ys @ m # zs \<and> f m \<notin> qs \<union> f ` set ys \<and> int (card (qs \<union> f ` set ys)) < n)"
  (is "_ \<longleftrightarrow> ?R qs xs")
proof (induction xs arbitrary: qs)
  case (Cons x xs)
  have shift: "insert (f x) qs \<union> f ` set ys = qs \<union> f ` set (x # ys)" for ys by auto
  have "?R qs (x # xs) \<longleftrightarrow> (m = x \<and> f x \<notin> qs \<and> int (card qs) < n) \<or> ?R (insert (f x) qs) xs"
  proof
    assume "?R qs (x # xs)"
    then obtain ys zs where s: "x # xs = ys @ m # zs" "f m \<notin> qs \<union> f ` set ys" "int (card (qs \<union> f ` set ys)) < n"
      by blast
    show "(m = x \<and> f x \<notin> qs \<and> int (card qs) < n) \<or> ?R (insert (f x) qs) xs"
    proof (cases ys)
      case Nil
      with s show ?thesis by simp
    next
      case (Cons y ys')
      with s have "xs = ys' @ m # zs" "y = x" by simp_all
      with s Cons shift [of ys'] show ?thesis by metis
    qed
  next
    assume "(m = x \<and> f x \<notin> qs \<and> int (card qs) < n) \<or> ?R (insert (f x) qs) xs"
    then show "?R qs (x # xs)"
    proof
      assume "m = x \<and> f x \<notin> qs \<and> int (card qs) < n"
      then have "x # xs = [] @ m # xs" "f m \<notin> qs \<union> f ` set []" "int (card (qs \<union> f ` set [])) < n" by simp_all
      then show ?thesis by blast
    next
      assume "?R (insert (f x) qs) xs"
      then obtain ys zs where "xs = ys @ m # zs" "f m \<notin> qs \<union> f ` set (x # ys)" "int (card (qs \<union> f ` set (x # ys))) < n"
        unfolding shift by blast
      then show ?thesis by (intro exI [of _ "x # ys"] exI [of _ zs]) simp
    qed
  qed
  then show ?case unfolding rulePicks.simps Un_iff Cons.IH by auto
qed simp

text \<open>In a list sorted newest first, a rule picks what the reference keeps.\<close>

lemma rulePicks_sorted:
  assumes "sorted_wrt (\<lambda>x y. newestFirst_compare x y \<le> 0) xs" and "distinct xs"
  shows "rulePicks (\<lambda>m. p (manifest_createdAt m)) n {} xs = {m \<in> set xs. keptByRule (set xs) n p m}"
proof -
  have before: "set ys = {x \<in> set xs. newer x m}" if "xs = ys @ m # zs" for ys m zs
    using newestFirst.sorted_before [of ys m zs] assms that by (simp add: newer_compare)
  have "m \<in> rulePicks (\<lambda>m. p (manifest_createdAt m)) n {} xs \<longleftrightarrow> m \<in> set xs \<and> keptByRule (set xs) n p m" for m
  proof -
    have "m \<in> rulePicks (\<lambda>m. p (manifest_createdAt m)) n {} xs \<longleftrightarrow>
        (\<exists>ys zs. xs = ys @ m # zs \<and> keptByRule (set xs) n p m)"
      unfolding rulePicks_iff keptByRule_def comp_def Un_empty_left
      by (intro ex_cong1 conj_cong refl) (simp_all only: before)
    then show ?thesis by (metis in_set_conv_decomp)
  qed
  then show ?thesis by blast
qed

lemma newest_sorted:
  assumes "sorted_wrt (\<lambda>x y. newestFirst_compare x y \<le> 0) xs" and "distinct xs"
  shows "(case xs of [] \<Rightarrow> {} | m # _ \<Rightarrow> {m}) = {m \<in> set xs. {x \<in> set xs. newer x m} = {}}"
proof (cases xs)
  case (Cons m ms)
  then have "{x \<in> set xs. newer x m} = {}"
    using newestFirst.sorted_before [of "[]" m ms] assms by (simp add: newer_compare)
  moreover have "newer m x" if "x \<in> set ms" for x
    using that assms newestFirst.cmp_antisym [of m x] Cons by (auto simp: newer_compare)
  ultimately show ?thesis using Cons by auto
qed simp

lemma kept_keys:
  assumes "sorted_wrt (\<lambda>x y. newestFirst_compare x y \<le> 0) xs" and "distinct xs"
  shows "set (foldl (\<lambda>kept (n, periodOf). ruleLoop n periodOf [] kept xs)
           (case xs of [] \<Rightarrow> [] | m # _ \<Rightarrow> [manifest_key m]) (retentionRules r)) = manifest_key ` keptBackups (set xs) r"
proof -
  have "set (case xs of [] \<Rightarrow> [] | m # _ \<Rightarrow> [manifest_key m]) = manifest_key ` {m \<in> set xs. {x \<in> set xs. newer x m} = {}}"
    unfolding newest_sorted [OF assms, symmetric] by (cases xs) auto
  then show ?thesis
    unfolding retentionRules_def foldl.simps prod.case
    by (simp only: ruleLoop_picks distinct.simps list.set rulePicks_sorted [OF assms]) (auto simp: keptBackups_def)
qed

lemma retentionPlan_sets:
  assumes "distinct (map manifest_key manifests)"
  shows "set (fst (retentionPlan manifests r)) = keptBackups (set manifests) r"
    and "set (snd (retentionPlan manifests r)) = set manifests - keptBackups (set manifests) r"
proof -
  define xs where "xs = toSorted newestFirst_compare manifests"
  have sorted: "sorted_wrt (\<lambda>x y. newestFirst_compare x y \<le> 0) xs" and set_xs: "set xs = set manifests"
    by (simp_all add: xs_def newestFirst.sorted_toSorted newestFirst.set_toSorted)
  have "mset xs = mset manifests" by (simp add: xs_def newestFirst.mset_toSorted)
  then have "distinct (map manifest_key xs)" using assms by (metis mset_eq_imp_distinct_iff mset_map)
  then have inj: "inj_on manifest_key (set manifests)" and dist: "distinct xs"
    by (simp_all add: distinct_map set_xs)
  have sub: "keptBackups (set manifests) r \<subseteq> set manifests" by (auto simp: keptBackups_def)
  have keys: "manifest_key m \<in> manifest_key ` keptBackups (set manifests) r \<longleftrightarrow> m \<in> keptBackups (set manifests) r"
    if "m \<in> set manifests" for m
    using inj sub that by (auto dest: inj_onD)
  have plan: "retentionPlan manifests r =
      (filter (\<lambda>m. manifest_key m \<in> manifest_key ` keptBackups (set manifests) r) xs,
       filter (\<lambda>m. manifest_key m \<notin> manifest_key ` keptBackups (set manifests) r) xs)"
    unfolding retentionPlan_def Let_def xs_def [symmetric] kept_keys [OF sorted dist] set_xs by (rule refl)
  have "set (fst (retentionPlan manifests r)) = {m \<in> set manifests. m \<in> keptBackups (set manifests) r}"
    unfolding plan fst_conv set_filter set_xs by (simp only: keys cong: conj_cong)
  then show "set (fst (retentionPlan manifests r)) = keptBackups (set manifests) r"
    using sub by auto
  have "set (snd (retentionPlan manifests r)) = {m \<in> set manifests. m \<notin> keptBackups (set manifests) r}"
    unfolding plan snd_conv set_filter set_xs by (simp only: keys cong: conj_cong)
  then show "set (snd (retentionPlan manifests r)) = set manifests - keptBackups (set manifests) r"
    by auto
qed

text \<open>
  C29. Which cloud backups a clean-up keeps. Given the manifests by their distinct keys, the plan keeps exactly
  the newest one, and for each of the daily, weekly and monthly rules the newest manifest of a day, ISO week or
  month when fewer periods than the rule allows have a newer one; it removes exactly the others, and it is the
  same however the list arrives.
\<close>

theorem retention_plan_exact:
  assumes "distinct (map manifest_key manifests)"
    and "mset manifests' = mset manifests"
  shows "set (fst (retentionPlan manifests r)) = keptBackups (set manifests) r \<and>
    set (snd (retentionPlan manifests r)) = set manifests - keptBackups (set manifests) r \<and>
    retentionPlan manifests' r = retentionPlan manifests r"
proof (intro conjI retentionPlan_sets [OF assms(1)])
  show "retentionPlan manifests' r = retentionPlan manifests r"
    by (simp only: retentionPlan_def newestFirst.toSorted_perm [OF assms(2)])
qed

theorem retention_plan_exact_witness:
  "set (fst (retentionPlan [\<lparr>manifest_key = ''m/1'', manifest_createdAt = 1790305200000\<rparr>,
       \<lparr>manifest_key = ''m/2'', manifest_createdAt = 1790391600000\<rparr>] \<lparr>keepDaily = 1, keepWeekly = 0, keepMonthly = 0\<rparr>))
     = keptBackups {\<lparr>manifest_key = ''m/1'', manifest_createdAt = 1790305200000\<rparr>,
       \<lparr>manifest_key = ''m/2'', manifest_createdAt = 1790391600000\<rparr>} \<lparr>keepDaily = 1, keepWeekly = 0, keepMonthly = 0\<rparr>"
proof -
  have "distinct (map manifest_key [\<lparr>manifest_key = ''m/1'', manifest_createdAt = 1790305200000\<rparr>,
       \<lparr>manifest_key = ''m/2'', manifest_createdAt = 1790391600000\<rparr>])" by simp
  from retention_plan_exact [OF this refl] show ?thesis by simp
qed

section \<open>What a manifest names\<close>

lemma splitOn_Cons:
  "splitOn c s = a # w # ws \<Longrightarrow> \<exists>t. s = a @ c # t \<and> splitOn c t = w # ws"
proof (induction s arbitrary: a)
  case (Cons x s)
  show ?case
  proof (cases "x = c")
    case True
    with Cons.prems show ?thesis by auto
  next
    case False
    then obtain a' where "splitOn c s = a' # w # ws" "a = x # a'"
      using Cons.prems splitOn_nonempty [of c s] by (auto split: list.splits)
    with Cons.IH [of a'] show ?thesis by auto
  qed
qed simp

lemma filePattern_prefix:
  assumes "filePattern key = Some (a, u, v, h, n)"
  shows "startsWith key (a @ ''/v1/'')" and "a = ''o'' \<or> a = ''db''"
proof -
  from assms obtain r where "splitOn CHR ''/'' key = a # ''v1'' # u # r" and a: "a = ''o'' \<or> a = ''db''"
    by (auto simp: filePattern_def Let_def split: list.splits if_splits)
  then obtain t where "key = a @ CHR ''/'' # ''v1'' @ CHR ''/'' # t"
    using splitOn_Cons [of _ _ a "''v1''"] splitOn_Cons [of _ _ "''v1''" u] by metis
  then show "startsWith key (a @ ''/v1/'')" by (simp add: startsWith_def)
  show "a = ''o'' \<or> a = ''db''" by (fact a)
qed

lemma client_object_prefix:
  assumes "clientBackupContext bucket key vault = Inr ctx" and "map_option ctx_kind ctx = Some ObjectKind"
  shows "startsWith key ''o/v1/''"
proof -
  obtain a u v h n where "filePattern key = Some (a, u, v, h, n)" "a = ''o''"
    using assms
    by (auto simp: clientBackupContext_def vaultContext_def split: option.splits prod.splits if_splits)
  then show ?thesis using filePattern_prefix(1) by fastforce
qed

lemma traverseR_in: "traverseR f xs = Inr ys \<Longrightarrow> y \<in> set ys \<Longrightarrow> \<exists>x \<in> set xs. f x = Inr y"
  by (auto simp: traverseR_eq_Inr list_all2_conv_all_nth in_set_conv_nth) (metis nth_mem)

lemma traverseR_ok: "traverseR f xs = Inr ys \<Longrightarrow> x \<in> set xs \<Longrightarrow> \<exists>y. f x = Inr y"
  by (auto simp: traverseR_eq_Inr list_all2_conv_all_nth in_set_conv_nth)

lemma checkedFile_sha: "checkedFile v = Inr f \<Longrightarrow> isSha256Hex (mf_sha256 f)"
  by (auto simp: checkedFile_def isFile_def split: json.splits option.splits if_splits)

lemma checkedAsset_sha: "checkedAsset e = Inr (k, a) \<Longrightarrow> f \<in> set (ma_files a) \<Longrightarrow> isSha256Hex (mf_sha256 f)"
  by (auto simp: checkedAsset_def mapR_eq_Inr split: json.splits dest!: traverseR_in checkedFile_sha)

lemma checkedSection_sha: "checkedSection ok s = Inr kfs \<Longrightarrow> (k, f) \<in> set kfs \<Longrightarrow> isSha256Hex (mf_sha256 f)"
  by (auto simp: checkedSection_def mapR_eq_Inr split: json.splits if_splits dest!: traverseR_in checkedFile_sha)

lemma readManifest_parts:
  assumes "readManifest num body = Inr m"
  obtains assets p l where "traverseR checkedAsset assets = Inr (mft_assets m)"
    "checkedSection (\<lambda>_. True) p = Inr (mft_profiles m)" "checkedSection isLockedKeyUserId l = Inr (mft_lockedKeys m)"
    "checkedReferences num m = Inr ()"
  using assms
  by (auto simp: readManifest_def Let_def res_simps split: option.splits json.splits if_splits)

text \<open>Every file of a manifest that was read has a SHA-256, and its object is in the area its version uses.\<close>

lemma manifest_file_ok:
  assumes "readManifest num body = Inr m" and "f \<in> set (manifestFiles m)"
  shows "isSha256Hex (mf_sha256 f)" and "manifestFileObjectKey f = Inr (JStr key) \<Longrightarrow> key = ''o/'' @ mf_sha256 f \<or> startsWith key ''o/v1/''"
proof -
  obtain assets p l where parts: "traverseR checkedAsset assets = Inr (mft_assets m)"
    "checkedSection (\<lambda>_. True) p = Inr (mft_profiles m)" "checkedSection isLockedKeyUserId l = Inr (mft_lockedKeys m)"
    "checkedReferences num m = Inr ()" using readManifest_parts [OF assms(1)] .
  show "isSha256Hex (mf_sha256 f)"
    using assms(2) parts(1-3)
    by (auto simp: manifestFiles_def dest!: traverseR_in [OF parts(1)] dest: checkedAsset_sha checkedSection_sha)
  assume key: "manifestFileObjectKey f = Inr (JStr key)"
  show "key = ''o/'' @ mf_sha256 f \<or> startsWith key ''o/v1/''"
  proof (cases "mft_version m = 3")
    case True
    then have "encryptedReference num (mft_instanceId m) f = Inr ()"
      using parts(4) assms(2) by (auto simp: checkedReferences_def res_simps dest!: traverseR_ok)
    then obtain ctx where t: "truthy (mf_objectKey f)" and ctx: "clientBackupContext ''validation'' (jsText num (mf_objectKey f)) (Some (mft_instanceId m)) = Inr ctx"
      and kind: "map_option ctx_kind ctx = Some ObjectKind"
      by (auto simp: encryptedReference_def res_simps split: if_splits)
    have "mf_objectKey f = JStr key" using key t by (auto simp: manifestFileObjectKey_def nullish_def mapR_eq_Inr split: if_splits)
    then show ?thesis using client_object_prefix [OF ctx kind] by simp
  next
    case False
    then have "mf_objectKey f = JUndefined"
      using parts(4) assms(2) by (auto simp: checkedReferences_def list_ex_iff split: if_splits)
    then show ?thesis using key by (auto simp: manifestFileObjectKey_def nullish_def mapR_eq_Inr objectKey_def split: if_splits)
  qed
qed

text \<open>The values a manifest's references put among the referenced ones: hashes, and the keys of their copies.\<close>

definition keysNamed :: "references \<Rightarrow> string \<Rightarrow> json set" where
  "keysNamed r sha = (case map_of (ref_storageKeys r) sha of None \<Rightarrow> {} | Some ks \<Rightarrow> set ks)"

definition referencedBy :: "references \<Rightarrow> json set" where
  "referencedBy r = (\<Union>(sha, _) \<in> set (ref_objects r). insert (JStr sha) (keysNamed r sha))"

lemma referencedBy_iff:
  "x \<in> referencedBy r \<longleftrightarrow> (\<exists>sha. map_of (ref_objects r) sha \<noteq> None \<and> (x = JStr sha \<or> x \<in> keysNamed r sha))"
  unfolding referencedBy_def map_of_eq_None_iff by force

lemma addReference_mono:
  assumes "addReference f r = Inr r'"
  shows "referencedBy r \<subseteq> referencedBy r'" and "JStr (mf_sha256 f) \<in> referencedBy r'"
    and "manifestFileObjectKey f = Inr key \<Longrightarrow> key \<in> referencedBy r'"
    and "ref_database r' = ref_database r"
proof -
  obtain k where k: "manifestFileObjectKey f = Inr k" using assms by (auto simp: addReference_def res_simps)
  have keys: "keysNamed r' sha = (if sha = mf_sha256 f then insert k (keysNamed r sha) else keysNamed r sha)"
    and objs: "map_of (ref_objects r') sha \<noteq> None \<longleftrightarrow> sha = mf_sha256 f \<or> map_of (ref_objects r) sha \<noteq> None" for sha
    using assms k by (auto simp: addReference_def Let_def keysNamed_def update_conv' split: option.splits if_splits)
  show "referencedBy r \<subseteq> referencedBy r'"
  proof
    fix x assume "x \<in> referencedBy r"
    then obtain sha where "map_of (ref_objects r) sha \<noteq> None" "x = JStr sha \<or> x \<in> keysNamed r sha"
      unfolding referencedBy_iff by blast
    then show "x \<in> referencedBy r'" unfolding referencedBy_iff keys objs by (intro exI [of _ sha]) auto
  qed
  show "JStr (mf_sha256 f) \<in> referencedBy r'" unfolding referencedBy_iff objs by blast
  show "key \<in> referencedBy r'" if "manifestFileObjectKey f = Inr key"
    unfolding referencedBy_iff keys objs using that k by auto
  show "ref_database r' = ref_database r" using assms by (auto simp: addReference_def res_simps Let_def)
qed

lemma addReferences_all:
  "addReferences fs r = Inr r' \<Longrightarrow>
     referencedBy r \<subseteq> referencedBy r' \<and> ref_database r' = ref_database r \<and>
     (\<forall>f \<in> set fs. JStr (mf_sha256 f) \<in> referencedBy r' \<and> (\<forall>key. manifestFileObjectKey f = Inr key \<longrightarrow> key \<in> referencedBy r'))"
proof (induction fs arbitrary: r)
  case (Cons f fs)
  then obtain r1 where r1: "addReference f r = Inr r1" "addReferences fs r1 = Inr r'" by (auto simp: res_simps)
  note a = addReference_mono [OF r1(1)] and b = Cons.IH [OF r1(2)]
  show ?case
  proof (intro conjI ballI)
    show "referencedBy r \<subseteq> referencedBy r'" using a(1) b by blast
    show "ref_database r' = ref_database r" using a(4) b by simp
    fix g assume "g \<in> set (f # fs)"
    then show "JStr (mf_sha256 g) \<in> referencedBy r'" "\<forall>key. manifestFileObjectKey g = Inr key \<longrightarrow> key \<in> referencedBy r'"
      using a(2,3) b by auto
  qed
qed simp

lemma isSha256Hex_no_v: "isSha256Hex s \<Longrightarrow> \<not> startsWith (''o/'' @ s) ''o/v1/''"
  by (cases s) (auto simp: isSha256Hex_def startsWith_def isLowerHex_def is_digit_def)

text \<open>An object a kept manifest names is never unreferenced.\<close>

lemma named_object_kept:
  assumes "readManifest num body = Inr m" and "manifestReferences m = Inr r" and "referencedBy r \<subseteq> R"
    and "f \<in> set (manifestFiles m)" and "manifestFileObjectKey f = Inr (JStr (info_key i))"
  shows "unreferencedObject R i \<noteq> Inr True"
proof -
  have R: "JStr (mf_sha256 f) \<in> R" "JStr (info_key i) \<in> R"
    using addReferences_all [OF assms(2) [unfolded manifestReferences_def]] assms(3-5) by blast+
  from manifest_file_ok(2) [OF assms(1,4,5)] show ?thesis
  proof
    assume key: "info_key i = ''o/'' @ mf_sha256 f"
    then have "\<not> startsWith (info_key i) ''o/v1/''" using isSha256Hex_no_v [OF manifest_file_ok(1) [OF assms(1,4)]] by simp
    with R(1) key show ?thesis by (simp add: unreferencedObject_def Let_def)
  next
    assume "startsWith (info_key i) ''o/v1/''"
    with R(2) show ?thesis by (auto simp: unreferencedObject_def Let_def mapR_eq_Inr)
  qed
qed

section \<open>Weekly checks\<close>

lemma verifySliceOf_weeks:
  assumes "0 \<le> t" and "0 \<le> k"
  shows "verifySliceOf (t + k * WEEK_MS) = (t div WEEK_MS + k) mod 52"
proof -
  have "(t + k * WEEK_MS) div WEEK_MS = t div WEEK_MS + k" by (simp add: WEEK_MS_def DAY_MS_def)
  moreover have "0 \<le> t div WEEK_MS" using assms(1) by (simp add: WEEK_MS_def DAY_MS_def pos_imp_zdiv_nonneg_iff)
  ultimately show ?thesis
    using assms(2) by (simp add: verifySliceOf_def CLOUD_BACKUP_VERIFY_SLICES_def js_rem_nonneg)
qed

text \<open>
  Every object of a bucket is read and checked once a year: whatever its SHA-256, of any 52 weeks in a row
  exactly one has it in its slice.
\<close>

theorem verified_once_a_year:
  assumes "0 \<le> t"
  shows "\<exists>!k. 0 \<le> k \<and> k < 52 \<and> inVerifySlice sha (verifySliceOf (t + k * WEEK_MS))"
proof -
  define a where "a = t div WEEK_MS"
  define s where "s = leading32 sha"
  have slice: "inVerifySlice sha (verifySliceOf (t + k * WEEK_MS)) \<longleftrightarrow> s mod 52 = (a + k) mod 52" if "0 \<le> k" for k
    unfolding verifySliceOf_weeks [OF assms that] by (simp add: inVerifySlice_def CLOUD_BACKUP_VERIFY_SLICES_def a_def s_def)
  show ?thesis
  proof (rule ex1I [of _ "(s - a) mod 52"])
    have "(a + (s - a) mod 52) mod 52 = s mod 52" by (simp add: mod_add_right_eq)
    then show "0 \<le> (s - a) mod 52 \<and> (s - a) mod 52 < 52 \<and> inVerifySlice sha (verifySliceOf (t + (s - a) mod 52 * WEEK_MS))"
      by (simp add: slice)
  next
    fix k assume k: "0 \<le> k \<and> k < 52 \<and> inVerifySlice sha (verifySliceOf (t + k * WEEK_MS))"
    then have "s mod 52 = (a + k) mod 52" using slice [of k] by blast
    then have "(s - a) mod 52 = (a + k - a) mod 52" by (rule mod_diff_cong) (rule refl)
    with k show "k = (s - a) mod 52" by simp
  qed
qed

theorem verified_once_a_year_witness:
  "\<exists>!k. 0 \<le> k \<and> k < 52 \<and> inVerifySlice (replicate 64 CHR ''a'') (verifySliceOf (1790391600000 + k * WEEK_MS))"
  by (rule verified_once_a_year) simp

text \<open>
  When a verification is due: none while weekly checks are off; otherwise a full pass when none is on record or
  the last is 30 days old, else a sample when none is on record or the last is 7 days old.
\<close>

lemma verificationDue_exact:
  "verificationDue on f s now = Some FullPass \<longleftrightarrow> on \<and> (f = None \<or> (\<exists>t. f = Some t \<and> t + 30 * DAY_MS \<le> now))"
  "verificationDue on f s now = Some SamplePass \<longleftrightarrow>
     on \<and> (\<exists>t. f = Some t \<and> now < t + 30 * DAY_MS) \<and> (s = None \<or> (\<exists>t. s = Some t \<and> t + WEEK_MS \<le> now))"
  by (cases f; cases s; auto simp: verificationDue_def sinceAtLeast_def CLOUD_BACKUP_FULL_VERIFY_INTERVAL_MS_def
      CLOUD_BACKUP_SAMPLE_VERIFY_INTERVAL_MS_def DAY_MS_def WEEK_MS_def)+

end
