(* ===== verification/CloudPrune.thy ===== *)
theory CloudPrune
  imports CloudRetention
begin

text \<open>
  The clean-up of a claimed bucket (\<open>CloudBackupMaintenance.prune\<close> of
  \<open>server/src/services/cloud-backup-maintenance.ts\<close>, with the queries of
  \<open>server/src/repositories/cloud-backup-index.repository.ts\<close> it makes).

  The state is what a listing of the bucket shows and the rows of the index for that bucket. \<open>prune\<close> answers an
  error, or its result with the effects it has in order; a run interrupted at any point, by a crash or by a
  storage or database call that throws, leaves the state after a prefix of them. Reading an object from
  storage is a parameter: \<open>fetch key\<close> is an error, or the JSON value of the body (\<open>None\<close> when it
  cannot be decompressed and parsed). The operation's claim keeps other runs out of the bucket meanwhile.
\<close>

section \<open>State\<close>

text \<open>
  The index keeps the status of each manifest, the hashes of the objects recorded under the bucket itself, and
  the receipts of client-encrypted uploads, recorded by the hash of the file under \<open><bucket>#client-v<n>\<close>.
\<close>

datatype manifestStatus = RunningManifest | Complete | Degraded | CancelledManifest | FailedManifest | Pruned

record bucketState =
  stored :: "objectInfo list"
  manifestRows :: "(string \<times> manifestStatus) list"
  objectRows :: "string list"
  receiptRows :: "string list"

definition listAll :: "bucketState \<Rightarrow> string \<Rightarrow> objectInfo list" where
  "listAll w prefix = filter (\<lambda>i. startsWith (info_key i) prefix) (stored w)"

definition listKeptManifests :: "bucketState \<Rightarrow> string list" where
  "listKeptManifests w = map fst (filter (\<lambda>(_, s). s = Complete \<or> s = Degraded) (manifestRows w))"

definition getManifestKeys :: "bucketState \<Rightarrow> string list \<Rightarrow> string list" where
  "getManifestKeys w keys = map fst (filter (\<lambda>(k, _). k \<in> set keys) (manifestRows w))"

definition getPrunedKeys :: "bucketState \<Rightarrow> string list \<Rightarrow> string list" where
  "getPrunedKeys w keys = map fst (filter (\<lambda>(k, s). k \<in> set keys \<and> s = Pruned) (manifestRows w))"

section \<open>Effects\<close>

datatype pruneEffect =
    AdoptPruned "string list"
  | MarkPruned "string list"
  | DeleteKey string
  | ForgetHashes "string list"

definition adoptManifests :: "string list \<Rightarrow> manifestStatus \<Rightarrow> bucketState \<Rightarrow> bucketState" where
  "adoptManifests keys status w =
     w\<lparr>manifestRows := manifestRows w @
         map (\<lambda>k. (k, status)) (filter (\<lambda>k. k \<notin> set (getManifestKeys w keys)) keys)\<rparr>"

definition markPruned :: "string list \<Rightarrow> bucketState \<Rightarrow> bucketState" where
  "markPruned keys w = w\<lparr>manifestRows := map (\<lambda>(k, s). (k, if k \<in> set keys then Pruned else s)) (manifestRows w)\<rparr>"

definition deleteKey :: "string \<Rightarrow> bucketState \<Rightarrow> bucketState" where
  "deleteKey key w = w\<lparr>stored := filter (\<lambda>i. info_key i \<noteq> key) (stored w)\<rparr>"

definition forgetHashes :: "string list \<Rightarrow> bucketState \<Rightarrow> bucketState" where
  "forgetHashes hashes w = w\<lparr>objectRows := filter (\<lambda>h. h \<notin> set hashes) (objectRows w),
     receiptRows := filter (\<lambda>h. h \<notin> set hashes) (receiptRows w)\<rparr>"

fun applyEffect :: "pruneEffect \<Rightarrow> bucketState \<Rightarrow> bucketState" where
  "applyEffect (AdoptPruned keys) w = adoptManifests keys Pruned w"
| "applyEffect (MarkPruned keys) w = markPruned keys w"
| "applyEffect (DeleteKey key) w = deleteKey key w"
| "applyEffect (ForgetHashes hashes) w = forgetHashes hashes w"

definition after :: "pruneEffect list \<Rightarrow> bucketState \<Rightarrow> bucketState" where
  "after effects w = foldl (\<lambda>w e. applyEffect e w) w effects"

section \<open>Planning\<close>

record trustedVersion =
  versionId :: string
  ciphertextSha256 :: string

record backupConnection =
  conn_bucket :: string
  conn_vaultId :: "string option"
  trustedManifests :: "(string \<times> trustedVersion) list"
  trustedManifestHead :: "string option"

text \<open>The manifests the bucket lists or the index and the signed history know, by key.\<close>

fun knownHistory :: "string list \<Rightarrow> (string \<times> int) list \<Rightarrow> backupError + (string \<times> int) list" where
  "knownHistory [] inventory = Inr inventory"
| "knownHistory (key # keys) inventory =
     (case manifestTime key of
        None \<Rightarrow> Inl InvalidHistoryKey
      | Some t \<Rightarrow> knownHistory keys (AList.update key t inventory))"

definition pruneInventory :: "backupConnection \<Rightarrow> bucketState \<Rightarrow> backupError + (string \<times> int) list" where
  "pruneInventory conn w =
     (let listed = listAll w ''m/'';
          candidates = List.map_filter (\<lambda>i. map_option (\<lambda>t. (info_key i, t)) (manifestTime (info_key i))) listed;
          inventory = foldl (\<lambda>m (k, t). AList.update k t m) [] candidates;
          signedKeys = map fst (trustedManifests conn);
          pruned = getPrunedKeys w signedKeys
      in if (case trustedManifestHead conn of None \<Rightarrow> False
               | Some h \<Rightarrow> h \<noteq> [] \<and> list_all (\<lambda>i. info_key i \<noteq> h) listed)
         then Inl AnchoredHeadMissing
         else knownHistory (listKeptManifests w @ filter (\<lambda>k. k \<notin> set pruned) signedKeys) inventory)"

definition prunePlan ::
  "backupConnection \<Rightarrow> cloudBackupRetention \<Rightarrow> bucketState \<Rightarrow>
   backupError + (retentionCandidate list \<times> retentionCandidate list)" where
  "prunePlan conn retention w =
     mapR (\<lambda>inventory.
       let (keep, remove) = retentionPlan (map (\<lambda>(k, t). \<lparr>manifest_key = k, manifest_createdAt = t\<rparr>) inventory) retention
       in case find_first (\<lambda>m. Some (manifest_key m) = trustedManifestHead conn) remove of
            None \<Rightarrow> (keep, remove)
          | Some anchored \<Rightarrow>
              (keep @ [anchored], filter (\<lambda>m. Some (manifest_key m) \<noteq> trustedManifestHead conn) remove))
     (pruneInventory conn w)"

section \<open>What the kept manifests name\<close>

type_synonym fetcher = "string \<Rightarrow> backupError + json option"

definition readReferences :: "(rat \<Rightarrow> string) \<Rightarrow> fetcher \<Rightarrow> string \<Rightarrow> backupError + references" where
  "readReferences num fetch key = bindR (fetch key) (\<lambda>body. bindR (readManifest num body) manifestReferences)"

text \<open>A kept manifest the listing does not show needs a trusted exact version.\<close>

definition trustedExact :: "backupConnection \<Rightarrow> bucketState \<Rightarrow> string \<Rightarrow> backupError + unit" where
  "trustedExact conn w key =
     (if key \<in> set (map info_key (listAll w ''m/'')) then Inr ()
      else bindR (clientBackupContext (conn_bucket conn) key (conn_vaultId conn)) (\<lambda>ctx.
        case (ctx, map_of (trustedManifests conn) key) of
          (Some _, Some trusted) \<Rightarrow>
            if versionId trusted = [] \<or> versionId trusted = ''null'' \<or> \<not> isSha256Hex (ciphertextSha256 trusted)
            then Inl NoTrustedVersion else Inr ()
        | _ \<Rightarrow> Inl NoTrustedVersion))"

definition keptReferences ::
  "(rat \<Rightarrow> string) \<Rightarrow> fetcher \<Rightarrow> backupConnection \<Rightarrow> bucketState \<Rightarrow> retentionCandidate list \<Rightarrow>
   backupError + references list" where
  "keptReferences num fetch conn w keep =
     traverseR (\<lambda>m. bindR (trustedExact conn w (manifest_key m)) (\<lambda>_. readReferences num fetch (manifest_key m))) keep"

definition referencedDumps :: "references list \<Rightarrow> string set" where
  "referencedDumps refs = set (filter (\<lambda>k. k \<noteq> []) (List.map_filter ref_database refs))"

section \<open>The clean-up\<close>

definition MAINTENANCE_BATCH :: nat where "MAINTENANCE_BATCH = 200"
definition FORGET_BATCH :: nat where "FORGET_BATCH = 1000"
definition CLOUD_BACKUP_DB_DUMPS_KEPT :: nat where "CLOUD_BACKUP_DB_DUMPS_KEPT = 7"

record pruneResult =
  pr_dryRun :: bool
  pr_done :: bool
  manifestsKept :: nat
  manifestsRemoved :: nat
  objectsRemoved :: nat
  bytesRemoved :: int
  dumpsRemoved :: nat
  deleted :: nat

definition emptyPruneResult :: "bool \<Rightarrow> pruneResult" where
  "emptyPruneResult dryRun =
     \<lparr>pr_dryRun = dryRun, pr_done = False, manifestsKept = 0, manifestsRemoved = 0, objectsRemoved = 0,
      bytesRemoved = 0, dumpsRemoved = 0, deleted = 0\<rparr>"

definition batchEffects :: "objectInfo list \<Rightarrow> pruneEffect list" where
  "batchEffects batch =
     map ForgetHashes (slices FORGET_BATCH (map (\<lambda>i. drop 2 (info_key i)) batch)) @
     map (\<lambda>i. DeleteKey (info_key i)) batch"

fun pruneBatches ::
  "(pruneResult \<Rightarrow> bool) \<Rightarrow> objectInfo list list \<Rightarrow> pruneResult \<Rightarrow> pruneResult option \<times> pruneEffect list" where
  "pruneBatches checkpoint [] progress = (Some progress, [])"
| "pruneBatches checkpoint (b # bs) progress =
     (let progress' = progress\<lparr>deleted := deleted progress + length b\<rparr>
      in if \<not> checkpoint progress' then (None, batchEffects b)
         else let (r, effects) = pruneBatches checkpoint bs progress' in (r, batchEffects b @ effects))"

definition staleDumps :: "bucketState \<Rightarrow> references list \<Rightarrow> objectInfo list" where
  "staleDumps w refs =
     (let dumps = listAll w ''db/'';
          newest = take CLOUD_BACKUP_DB_DUMPS_KEPT (toSorted (\<lambda>a b. compareCodeUnits b a) (map info_key dumps))
      in filter (\<lambda>i. info_key i \<notin> set newest) (unreferencedDumps dumps (referencedDumps refs)))"

definition prune ::
  "(rat \<Rightarrow> string) \<Rightarrow> fetcher \<Rightarrow> backupConnection \<Rightarrow> cloudBackupRetention \<Rightarrow> bool \<Rightarrow> (pruneResult \<Rightarrow> bool) \<Rightarrow>
   bucketState \<Rightarrow> backupError + (pruneResult option \<times> pruneEffect list)" where
  "prune num fetch conn retention dryRun checkpoint w =
     bindR (prunePlan conn retention w) (\<lambda>(keep, remove).
     bindR (keptReferences num fetch conn w keep) (\<lambda>refs.
     bindR (unreferencedObjects (listAll w ''o/'') (\<Union>(referencedBy ` set refs))) (\<lambda>objects.
     let dumps = staleDumps w refs;
         result = (emptyPruneResult dryRun)\<lparr>manifestsKept := length keep, manifestsRemoved := length remove,
                     objectsRemoved := length objects, bytesRemoved := sum_list (map info_size objects),
                     dumpsRemoved := length dumps\<rparr>;
         removed = map manifest_key remove
     in if dryRun then Inr (Some (result\<lparr>pr_done := True\<rparr>), [])
        else let start = [AdoptPruned removed, MarkPruned removed] @ map DeleteKey removed;
                 (progress, effects) = pruneBatches checkpoint (slices MAINTENANCE_BATCH objects) result
             in (case progress of
                   None \<Rightarrow> Inr (None, start @ effects)
                 | Some p \<Rightarrow> Inr (Some (p\<lparr>pr_done := True\<rparr>),
                                  start @ effects @ map (\<lambda>i. DeleteKey (info_key i)) dumps)))))"

section \<open>Effects in order\<close>

definition deletedKeys :: "pruneEffect list \<Rightarrow> string set" where
  "deletedKeys effects = {k. DeleteKey k \<in> set effects}"

definition forgottenHashes :: "pruneEffect list \<Rightarrow> string set" where
  "forgottenHashes effects = \<Union> {set hs |hs. ForgetHashes hs \<in> set effects}"

lemma after_append: "after (xs @ ys) w = after ys (after xs w)"
  by (simp add: after_def)

lemma after_stored: "stored (after effects w) = filter (\<lambda>i. info_key i \<notin> deletedKeys effects) (stored w)"
proof (induction effects rule: rev_induct)
  case (snoc e effects)
  then show ?case
    by (cases e) (auto simp: after_append after_def deletedKeys_def adoptManifests_def markPruned_def deleteKey_def
        forgetHashes_def intro!: filter_cong)
qed (simp add: after_def deletedKeys_def)

lemma after_objectRows:
  "objectRows (after effects w) = filter (\<lambda>h. h \<notin> forgottenHashes effects) (objectRows w) \<and>
   receiptRows (after effects w) = filter (\<lambda>h. h \<notin> forgottenHashes effects) (receiptRows w)"
proof (induction effects rule: rev_induct)
  case (snoc e effects)
  then show ?case
    by (cases e) (auto simp: after_append after_def forgottenHashes_def adoptManifests_def markPruned_def deleteKey_def
        forgetHashes_def intro!: filter_cong)
qed (simp add: after_def forgottenHashes_def)

text \<open>Deleting and forgetting leave the manifest rows alone.\<close>

fun storageEffect :: "pruneEffect \<Rightarrow> bool" where
  "storageEffect (DeleteKey _) = True"
| "storageEffect (ForgetHashes _) = True"
| "storageEffect _ = False"

lemma after_manifestRows: "list_all storageEffect effects \<Longrightarrow> manifestRows (after effects w) = manifestRows w"
proof (induction effects rule: rev_induct)
  case (snoc e effects)
  then show ?case by (cases e) (simp_all add: after_append after_def deleteKey_def forgetHashes_def)
qed (simp add: after_def)

lemma batchEffects_facts:
  "deletedKeys (batchEffects b) = info_key ` set b"
  "forgottenHashes (batchEffects b) = (\<lambda>i. drop 2 (info_key i)) ` set b"
  "list_all storageEffect (batchEffects b)"
proof -
  show "deletedKeys (batchEffects b) = info_key ` set b" "list_all storageEffect (batchEffects b)"
    by (auto simp: deletedKeys_def batchEffects_def list_all_iff)
  have "forgottenHashes (batchEffects b) = set (concat (slices FORGET_BATCH (map (\<lambda>i. drop 2 (info_key i)) b)))"
    by (auto simp: forgottenHashes_def batchEffects_def)
  then show "forgottenHashes (batchEffects b) = (\<lambda>i. drop 2 (info_key i)) ` set b"
    by (simp add: concat_slices FORGET_BATCH_def)
qed

text \<open>At every moment, each object deleted so far has been forgotten by the index.\<close>

definition forgetsFirst :: "pruneEffect list \<Rightarrow> bool" where
  "forgetsFirst effects \<longleftrightarrow> (\<forall>n k. k \<in> deletedKeys (take n effects) \<longrightarrow> startsWith k ''o/'' \<longrightarrow>
     drop 2 k \<in> forgottenHashes (take n effects))"

lemma keys_append:
  "deletedKeys (xs @ ys) = deletedKeys xs \<union> deletedKeys ys"
  "forgottenHashes (xs @ ys) = forgottenHashes xs \<union> forgottenHashes ys"
  by (auto simp: deletedKeys_def forgottenHashes_def)

lemma forgetsFirst_append: "forgetsFirst xs \<Longrightarrow> forgetsFirst ys \<Longrightarrow> forgetsFirst (xs @ ys)"
  by (auto simp: forgetsFirst_def keys_append)

lemma forgetsFirst_other: "(\<And>k. k \<in> deletedKeys xs \<Longrightarrow> \<not> startsWith k ''o/'') \<Longrightarrow> forgetsFirst xs"
  by (auto simp: forgetsFirst_def deletedKeys_def dest: in_set_takeD)

lemma forgetsFirst_batch: "forgetsFirst (batchEffects b)"
  unfolding forgetsFirst_def
proof (intro allI impI)
  fix n k
  define fs where "fs = map ForgetHashes (slices FORGET_BATCH (map (\<lambda>i. drop 2 (info_key i)) b))"
  define ds where "ds = map (\<lambda>i. DeleteKey (info_key i)) b"
  have split: "batchEffects b = fs @ ds" by (simp add: batchEffects_def fs_def ds_def)
  have "deletedKeys fs = {}" "forgottenHashes ds = {}" by (auto simp: deletedKeys_def forgottenHashes_def fs_def ds_def)
  then have fs: "forgottenHashes fs = (\<lambda>i. drop 2 (info_key i)) ` set b" and nil: "deletedKeys (take n fs) = {}"
    using batchEffects_facts(2) [of b] by (auto simp: split keys_append deletedKeys_def dest: in_set_takeD)
  assume k: "k \<in> deletedKeys (take n (batchEffects b))"
  then have "k \<in> deletedKeys (take (n - length fs) ds)" using nil by (simp add: split keys_append)
  then have "n - length fs \<noteq> 0" and "k \<in> info_key ` set b"
    by (auto simp: deletedKeys_def ds_def dest: in_set_takeD) (use in_set_takeD in fastforce)
  then show "drop 2 k \<in> forgottenHashes (take n (batchEffects b))" using fs by (auto simp: split keys_append)
qed

lemma pruneBatches_effects:
  "pruneBatches checkpoint bs p = (r, effects) \<Longrightarrow>
     deletedKeys effects \<subseteq> info_key ` set (concat bs) \<and> (r \<noteq> None \<longrightarrow> deletedKeys effects = info_key ` set (concat bs)) \<and>
     forgottenHashes effects \<subseteq> (\<lambda>i. drop 2 (info_key i)) ` set (concat bs) \<and>
     list_all storageEffect effects \<and> forgetsFirst effects"
proof (induction bs arbitrary: p r effects)
  case Nil
  then show ?case by (auto simp: deletedKeys_def forgottenHashes_def forgetsFirst_def)
next
  case (Cons b bs)
  let ?p = "p\<lparr>deleted := deleted p + length b\<rparr>"
  show ?case
  proof (cases "checkpoint ?p")
    case False
    then have "r = None" "effects = batchEffects b" using Cons.prems by simp_all
    then show ?thesis by (auto simp: batchEffects_facts forgetsFirst_batch)
  next
    case True
    obtain es where rec: "pruneBatches checkpoint bs ?p = (r, es)" and effects: "effects = batchEffects b @ es"
      using Cons.prems True by (auto simp: Let_def split: prod.splits)
    note ih = Cons.IH [OF rec]
    have del: "deletedKeys effects = info_key ` set b \<union> deletedKeys es"
      and forgot: "forgottenHashes effects = (\<lambda>i. drop 2 (info_key i)) ` set b \<union> forgottenHashes es"
      and all: "g ` set (concat (b # bs)) = g ` set b \<union> g ` set (concat bs)" for g :: "objectInfo \<Rightarrow> string"
      by (auto simp: effects keys_append batchEffects_facts)
    have "list_all storageEffect effects" "forgetsFirst effects"
      using ih by (simp_all add: effects batchEffects_facts forgetsFirst_batch forgetsFirst_append)
    then show ?thesis unfolding del forgot all using ih by blast
  qed
qed

text \<open>What a clean-up does, from its plan: first the manifests, then storage effects only.\<close>

definition startEffects :: "retentionCandidate list \<Rightarrow> pruneEffect list" where
  "startEffects remove = [AdoptPruned (map manifest_key remove), MarkPruned (map manifest_key remove)] @
     map (\<lambda>m. DeleteKey (manifest_key m)) remove"

definition cleanUpEffects :: "objectInfo list \<Rightarrow> objectInfo list \<Rightarrow> pruneResult option \<Rightarrow> pruneEffect list \<Rightarrow> bool" where
  "cleanUpEffects objects dumps r rest \<longleftrightarrow>
     list_all storageEffect rest \<and> forgottenHashes rest \<subseteq> (\<lambda>i. drop 2 (info_key i)) ` set objects \<and>
     deletedKeys rest \<subseteq> info_key ` set objects \<union> info_key ` set dumps \<and>
     (r \<noteq> None \<longrightarrow> deletedKeys rest = info_key ` set objects \<union> info_key ` set dumps)"

lemma startsWith_head: "startsWith k (a # p) \<Longrightarrow> startsWith k (b # q) \<Longrightarrow> a = b"
  by (cases k) (auto simp: startsWith_def)

lemma prune_dryRun: "prune num fetch conn retention dryRun checkpoint w = Inr (r, trace) \<Longrightarrow> dryRun \<Longrightarrow> trace = []"
  by (auto simp: prune_def bindR_eq_Inr Let_def)

lemma prune_cases:
  assumes "prune num fetch conn retention False checkpoint w = Inr (r, trace)"
  obtains keep remove refs objects rest where
    "prunePlan conn retention w = Inr (keep, remove)" "keptReferences num fetch conn w keep = Inr refs"
    "unreferencedObjects (listAll w ''o/'') (\<Union>(referencedBy ` set refs)) = Inr objects"
    "trace = startEffects remove @ rest" "cleanUpEffects objects (staleDumps w refs) r rest" "forgetsFirst rest"
proof -
  from assms obtain keep remove refs objects where p: "prunePlan conn retention w = Inr (keep, remove)"
      "keptReferences num fetch conn w keep = Inr refs"
      "unreferencedObjects (listAll w ''o/'') (\<Union>(referencedBy ` set refs)) = Inr objects"
    unfolding prune_def by (auto simp: bindR_eq_Inr)
  define result where "result = (emptyPruneResult False)\<lparr>manifestsKept := length keep, manifestsRemoved := length remove,
                     objectsRemoved := length objects, bytesRemoved := sum_list (map info_size objects),
                     dumpsRemoved := length (staleDumps w refs)\<rparr>"
  define dels where "dels = map (\<lambda>i. DeleteKey (info_key i)) (staleDumps w refs)"
  obtain progress es where b: "pruneBatches checkpoint (slices MAINTENANCE_BATCH objects) result = (progress, es)" by fastforce
  have "concat (slices MAINTENANCE_BATCH objects) = objects" by (rule concat_slices) (simp add: MAINTENANCE_BATCH_def)
  note e = pruneBatches_effects [OF b, unfolded this]
  have dumps: "deletedKeys dels = info_key ` set (staleDumps w refs)" "list_all storageEffect dels" "forgottenHashes dels = {}"
    by (auto simp: dels_def deletedKeys_def forgottenHashes_def list_all_iff)
  have "\<not> startsWith k ''o/''" if "k \<in> deletedKeys dels" for k
    using that startsWith_head [of k "CHR ''d''" "''b/''" "CHR ''o''"]
    by (auto simp: dumps staleDumps_def unreferencedDumps_def Let_def)
  then have first: "forgetsFirst dels" by (rule forgetsFirst_other)
  have rest: "(r, trace) = (map_option (\<lambda>p. p\<lparr>pr_done := True\<rparr>) progress,
      startEffects remove @ es @ (if progress = None then [] else dels))"
    using assms p b unfolding result_def
    by (auto simp: prune_def Let_def startEffects_def dels_def comp_def split: option.splits)
  show ?thesis
  proof (rule that [OF p])
    show "trace = startEffects remove @ (es @ (if progress = None then [] else dels))" using rest by simp
    show "cleanUpEffects objects (staleDumps w refs) r (es @ (if progress = None then [] else dels))"
      using e dumps rest by (cases progress) (auto simp: cleanUpEffects_def keys_append)
    show "forgetsFirst (es @ (if progress = None then [] else dels))" using e first by (simp add: forgetsFirst_append)
  qed
qed

section \<open>The plan\<close>

lemma manifestTime_prefix: "manifestTime key = Some t \<Longrightarrow> startsWith key ''m/''"
proof -
  assume "manifestTime key = Some t"
  then obtain w ws where "splitOn CHR ''/'' key = ''m'' # w # ws"
    by (auto simp: manifestTime_def Let_def split: list.splits if_splits option.splits)
  then obtain s where "key = ''m'' @ CHR ''/'' # s" using splitOn_Cons by blast
  then show ?thesis by (simp add: startsWith_def)
qed

text \<open>An inventory holds each key once, with the time in its name.\<close>

definition inventoryOk :: "(string \<times> int) list \<Rightarrow> bool" where
  "inventoryOk inventory \<longleftrightarrow> distinct (map fst inventory) \<and> (\<forall>(k, t) \<in> set inventory. manifestTime k = Some t)"

lemma inventoryOk_update: "inventoryOk m \<Longrightarrow> manifestTime k = Some t \<Longrightarrow> inventoryOk (AList.update k t m)"
proof -
  assume "inventoryOk m" "manifestTime k = Some t"
  moreover have "set (AList.update k t m) \<subseteq> insert (k, t) (set m)"
    by (induction m) auto
  ultimately show ?thesis by (auto simp: inventoryOk_def distinct_update)
qed

lemma knownHistory_ok: "inventoryOk m \<Longrightarrow> knownHistory keys m = Inr m' \<Longrightarrow> inventoryOk m'"
  by (induction keys m rule: knownHistory.induct) (auto split: option.splits intro: inventoryOk_update)

lemma knownHistory_keys: "knownHistory keys m = Inr m' \<Longrightarrow> fst ` set m' = fst ` set m \<union> set keys"
proof (induction keys m rule: knownHistory.induct)
  case (2 key keys m)
  then obtain t where t: "manifestTime key = Some t" "knownHistory keys (AList.update key t m) = Inr m'"
    by (auto split: option.splits)
  with 2(1) [OF t] show ?case by (simp add: dom_update)
qed simp

definition candidatesOf :: "(string \<times> int) list \<Rightarrow> retentionCandidate list" where
  "candidatesOf inventory = map (\<lambda>(k, t). \<lparr>manifest_key = k, manifest_createdAt = t\<rparr>) inventory"

definition keptManifests :: "backupConnection \<Rightarrow> cloudBackupRetention \<Rightarrow> (string \<times> int) list \<Rightarrow> retentionCandidate set" where
  "keptManifests conn retention inventory =
     keptBackups (set (candidatesOf inventory)) retention \<union>
     {m \<in> set (candidatesOf inventory). Some (manifest_key m) = trustedManifestHead conn}"

lemma candidates_fold:
  assumes "inventoryOk m" and "\<forall>(k, t) \<in> set cs. manifestTime k = Some t"
  shows "inventoryOk (foldl (\<lambda>m (k, t). AList.update k t m) m cs)"
    and "fst ` set (foldl (\<lambda>m (k, t). AList.update k t m) m cs) = fst ` set m \<union> fst ` set cs"
  using assms by (induction cs arbitrary: m) (auto simp: inventoryOk_update dom_update split: prod.splits)

lemma pruneInventory_ok:
  assumes "pruneInventory conn w = Inr inventory"
  shows "inventoryOk inventory"
    and "manifestTime (info_key i) \<noteq> None \<Longrightarrow> i \<in> set (stored w) \<Longrightarrow> info_key i \<in> fst ` set inventory"
proof -
  define cs where "cs = List.map_filter (\<lambda>i. map_option (\<lambda>t. (info_key i, t)) (manifestTime (info_key i))) (listAll w ''m/'')"
  have cs: "\<forall>(k, t) \<in> set cs. manifestTime k = Some t" by (auto simp: cs_def map_filter_def)
  obtain keys where h: "knownHistory keys (foldl (\<lambda>m (k, t). AList.update k t m) [] cs) = Inr inventory"
    using assms by (auto simp: pruneInventory_def Let_def cs_def split: if_splits)
  have nil: "inventoryOk []" by (simp add: inventoryOk_def)
  note f = candidates_fold [OF nil cs]
  show "inventoryOk inventory" by (rule knownHistory_ok [OF f(1) h])
  assume "manifestTime (info_key i) \<noteq> None" "i \<in> set (stored w)"
  then obtain t where t: "manifestTime (info_key i) = Some t" by blast
  with \<open>i \<in> set (stored w)\<close> have "(info_key i, t) \<in> set cs"
    using manifestTime_prefix [OF t] by (force simp: cs_def map_filter_def listAll_def)
  then show "info_key i \<in> fst ` set inventory" using knownHistory_keys [OF h] f(2) by force
qed

lemma candidatesOf_keys: "map manifest_key (candidatesOf inventory) = map fst inventory"
  by (auto simp: candidatesOf_def)

lemma prunePlan_sets:
  assumes "prunePlan conn retention w = Inr (keep, remove)"
  obtains inventory where "pruneInventory conn w = Inr inventory"
    "set keep = keptManifests conn retention inventory"
    "set remove = set (candidatesOf inventory) - keptManifests conn retention inventory"
proof -
  obtain inventory where inv: "pruneInventory conn w = Inr inventory" using assms by (auto simp: prunePlan_def mapR_eq_Inr)
  define S where "S = candidatesOf inventory"
  have "distinct (map manifest_key S)"
    using pruneInventory_ok(1) [OF inv] by (simp add: S_def candidatesOf_keys inventoryOk_def)
  note plan = retentionPlan_sets [OF this, of retention]
  obtain k r where kr: "retentionPlan S retention = (k, r)" by fastforce
  have eq: "(keep, remove) = (case find_first (\<lambda>m. Some (manifest_key m) = trustedManifestHead conn) r of
      None \<Rightarrow> (k, r) | Some a \<Rightarrow> (k @ [a], filter (\<lambda>m. Some (manifest_key m) \<noteq> trustedManifestHead conn) r))"
    using assms inv kr by (simp add: prunePlan_def S_def candidatesOf_def)
  have inj: "m = m'" if "m \<in> set S" "m' \<in> set S" "manifest_key m = manifest_key m'" for m m'
    using that \<open>distinct (map manifest_key S)\<close> by (auto simp: distinct_map dest: inj_onD)
  have kset: "set k = keptBackups (set S) retention" and rset: "set r = set S - keptBackups (set S) retention"
    using plan by (simp_all add: kr)
  show ?thesis
  proof (cases "find_first (\<lambda>m. Some (manifest_key m) = trustedManifestHead conn) r")
    case None
    then have "Some (manifest_key m) \<noteq> trustedManifestHead conn" if "m \<in> set S - keptBackups (set S) retention" for m
      using that rset by simp
    then have "set keep = keptManifests conn retention inventory \<and>
        set remove = set (candidatesOf inventory) - keptManifests conn retention inventory"
      using eq None kset rset by (auto simp: keptManifests_def S_def)
    then show ?thesis using that [OF inv] by blast
  next
    case (Some a)
    then have a: "a \<in> set S" "a \<notin> keptBackups (set S) retention" "Some (manifest_key a) = trustedManifestHead conn"
      using find_first_Some [OF Some] rset by auto
    then have only: "m = a" if "m \<in> set S" "Some (manifest_key m) = trustedManifestHead conn" for m
      using inj [OF that(1) a(1)] that(2) a(3) by (metis option.inject)
    have "set keep = insert a (set k)" "set remove = {m \<in> set r. Some (manifest_key m) \<noteq> trustedManifestHead conn}"
      using eq Some by simp_all
    moreover have anchor: "{m \<in> set S. Some (manifest_key m) = trustedManifestHead conn} = {a}" using a only by blast
    moreover have "{m \<in> set S - keptBackups (set S) retention. Some (manifest_key m) \<noteq> trustedManifestHead conn} =
        set S - (keptBackups (set S) retention \<union> {a})" unfolding anchor [symmetric] by blast
    ultimately have "set keep = keptManifests conn retention inventory \<and>
        set remove = set (candidatesOf inventory) - keptManifests conn retention inventory"
      unfolding keptManifests_def S_def [symmetric] by (simp only: kset rset) simp
    then show ?thesis using that [OF inv] by blast
  qed
qed

section \<open>What is deleted\<close>

lemma filterR_set: "filterR f xs = Inr ys \<Longrightarrow> set ys = {x \<in> set xs. f x = Inr True}"
  by (induction xs arbitrary: ys) (auto simp: res_simps split: if_splits)

definition namedByKept ::
  "(rat \<Rightarrow> string) \<Rightarrow> fetcher \<Rightarrow> backupConnection \<Rightarrow> cloudBackupRetention \<Rightarrow> (string \<times> int) list \<Rightarrow> references set" where
  "namedByKept num fetch conn retention inventory =
     {r. \<exists>m \<in> keptManifests conn retention inventory. readReferences num fetch (manifest_key m) = Inr r}"

text \<open>
  The reference: a manifest past retention; an object, by its hash or its client key, that no kept manifest
  names; a dump that no kept manifest names when seven later ones are in the bucket.
\<close>

definition removable ::
  "(rat \<Rightarrow> string) \<Rightarrow> fetcher \<Rightarrow> backupConnection \<Rightarrow> cloudBackupRetention \<Rightarrow> bucketState \<Rightarrow> string \<Rightarrow> bool" where
  "removable num fetch conn retention w key \<longleftrightarrow>
     (\<exists>inventory. pruneInventory conn w = Inr inventory \<and>
       (let named = namedByKept num fetch conn retention inventory
        in (\<exists>m \<in> set (candidatesOf inventory) - keptManifests conn retention inventory. manifest_key m = key) \<or>
           (\<exists>sha. key = ''o/'' @ sha \<and> isSha256Hex sha \<and> (\<forall>r \<in> named. JStr sha \<notin> referencedBy r)) \<or>
           (startsWith key ''o/v1/'' \<and> (\<exists>ctx. clientBackupContext ''validation'' key None = Inr (Some ctx)) \<and>
              (\<forall>r \<in> named. JStr key \<notin> referencedBy r)) \<or>
           (startsWith key ''db/'' \<and> (\<forall>r \<in> named. ref_database r \<noteq> Some key) \<and>
              7 \<le> card {k \<in> info_key ` set (listAll w ''db/''). code_less key k})))"

lemma keptReferences_set:
  assumes "keptReferences num fetch conn w keep = Inr refs"
  shows "set refs = {r. \<exists>m \<in> set keep. readReferences num fetch (manifest_key m) = Inr r}"
    and "m \<in> set keep \<Longrightarrow> \<exists>r. readReferences num fetch (manifest_key m) = Inr r"
proof -
  have all: "list_all2 (\<lambda>m r. readReferences num fetch (manifest_key m) = Inr r) keep refs"
    using assms unfolding keptReferences_def traverseR_eq_Inr by (rule list_all2_mono) (auto simp: bindR_eq_Inr)
  show "m \<in> set keep \<Longrightarrow> \<exists>r. readReferences num fetch (manifest_key m) = Inr r"
    using all by (auto simp: list_all2_conv_all_nth in_set_conv_nth)
  show "set refs = {r. \<exists>m \<in> set keep. readReferences num fetch (manifest_key m) = Inr r}"
  proof (rule set_eqI)
    fix r
    have "r \<in> set refs \<Longrightarrow> \<exists>m \<in> set keep. readReferences num fetch (manifest_key m) = Inr r"
      using all by (auto simp: list_all2_conv_all_nth in_set_conv_nth) (metis nth_mem)
    moreover have "m \<in> set keep \<Longrightarrow> readReferences num fetch (manifest_key m) = Inr r \<Longrightarrow> r \<in> set refs" for m
      using all by (auto simp: list_all2_conv_all_nth in_set_conv_nth)
    ultimately show "r \<in> set refs \<longleftrightarrow> r \<in> {r. \<exists>m \<in> set keep. readReferences num fetch (manifest_key m) = Inr r}" by blast
  qed
qed

lemma newest_dumps:
  assumes "distinct keys" and "key \<in> set keys"
  shows "key \<notin> set (take n (toSorted (\<lambda>a b. compareCodeUnits b a) keys)) \<longleftrightarrow> n \<le> card {k \<in> set keys. code_less key k}"
proof -
  define xs where "xs = toSorted (\<lambda>a b. compareCodeUnits b a) keys"
  have "mset xs = mset keys" by (simp add: xs_def codeUnitsDown.mset_toSorted)
  then have dist: "distinct xs" and set_xs: "set xs = set keys"
    using assms(1) by (metis mset_eq_imp_distinct_iff, metis set_mset_mset)
  obtain ys zs where split: "xs = ys @ key # zs" using assms(2) set_xs by (metis in_set_conv_decomp)
  have sorted: "sorted_wrt (\<lambda>a b. compareCodeUnits b a \<le> 0) (ys @ key # zs)"
    using codeUnitsDown.sorted_toSorted [of keys] split by (simp add: xs_def)
  have "set ys = {k \<in> set keys. code_less key k}"
    using codeUnitsDown.sorted_before [OF sorted] dist split set_xs
    by (auto simp: compareCodeUnits_le code_less_not [of key])
  then have "length ys = card {k \<in> set keys. code_less key k}" using dist split by (metis distinct_append distinct_card)
  moreover have "key \<in> set (take n xs) \<longleftrightarrow> length ys < n"
    using dist by (auto simp: split take_Cons' dest: in_set_takeD)
  ultimately show ?thesis unfolding xs_def [symmetric] by linarith
qed

lemma unreferencedObject_iff:
  "unreferencedObject R i = Inr True \<longleftrightarrow>
     (\<exists>sha. info_key i = ''o/'' @ sha \<and> isSha256Hex sha \<and> JStr sha \<notin> R) \<or>
     (startsWith (info_key i) ''o/v1/'' \<and> (\<exists>ctx. clientBackupContext ''validation'' (info_key i) None = Inr (Some ctx)) \<and>
        JStr (info_key i) \<notin> R)"
proof (cases "startsWith (info_key i) ''o/v1/''")
  case True
  then have "startsWith (info_key i) ''o/''" by (cases "info_key i"; cases "tl (info_key i)") (auto simp: startsWith_def)
  moreover have "\<not> (info_key i = ''o/'' @ sha \<and> isSha256Hex sha)" for sha using True isSha256Hex_no_v by metis
  ultimately show ?thesis using True by (auto simp: unreferencedObject_def Let_def mapR_eq_Inr)
next
  case False
  have "startsWith (info_key i) ''o/'' \<longleftrightarrow> (\<exists>sha. info_key i = ''o/'' @ sha)"
  proof
    assume "startsWith (info_key i) ''o/''"
    then have "info_key i = ''o/'' @ drop 2 (info_key i)"
      by (metis append_take_drop_id list.size(3,4) numeral_2_eq_2 One_nat_def startsWith_def Suc_eq_plus1)
    then show "\<exists>sha. info_key i = ''o/'' @ sha" by blast
  qed (auto simp: startsWith_def)
  then show ?thesis using False by (auto simp: unreferencedObject_def Let_def)
qed

lemma listAll_startsWith: "i \<in> set (listAll w p) \<longleftrightarrow> i \<in> set (stored w) \<and> startsWith (info_key i) p"
  by (auto simp: listAll_def)

lemma unreferencedObject_prefix: "unreferencedObject R i = Inr True \<Longrightarrow> startsWith (info_key i) ''o/''"
  by (auto simp: unreferencedObject_def Let_def split: if_splits)

lemma objects_removed:
  assumes "unreferencedObjects (listAll w ''o/'') R = Inr objects" and "i \<in> set (stored w)"
  shows "info_key i \<in> info_key ` set objects \<longleftrightarrow> unreferencedObject R i = Inr True"
proof -
  have "set objects = {i \<in> set (listAll w ''o/''). unreferencedObject R i = Inr True}"
    using assms(1) by (simp add: unreferencedObjects_def filterR_set)
  then have objects: "j \<in> set objects \<longleftrightarrow> j \<in> set (stored w) \<and> unreferencedObject R j = Inr True" for j
    using unreferencedObject_prefix [of R j] by (auto simp: listAll_startsWith)
  have same: "unreferencedObject R j = unreferencedObject R i" if "info_key i = info_key j" for j
    using that by (simp add: unreferencedObject_def)
  show ?thesis
  proof
    assume "info_key i \<in> info_key ` set objects"
    then obtain j where "info_key i = info_key j" "j \<in> set objects" by (rule imageE)
    with same [of j] objects [of j] show "unreferencedObject R i = Inr True" by simp
  next
    assume "unreferencedObject R i = Inr True"
    with assms(2) objects [of i] show "info_key i \<in> info_key ` set objects" by blast
  qed
qed

lemma dumps_removed:
  assumes "distinct (map info_key (stored w))" and "i \<in> set (stored w)"
  shows "info_key i \<in> info_key ` set (staleDumps w refs) \<longleftrightarrow>
    startsWith (info_key i) ''db/'' \<and> (\<forall>r \<in> set refs. ref_database r \<noteq> Some (info_key i)) \<and>
    7 \<le> card {k \<in> info_key ` set (listAll w ''db/''). code_less (info_key i) k}"
proof (cases "startsWith (info_key i) ''db/''")
  case True
  have "info_key i \<noteq> []" using True by (auto simp: startsWith_def)
  then have "info_key i \<in> referencedDumps refs \<longleftrightarrow> (\<exists>r \<in> set refs. ref_database r = Some (info_key i))"
    by (auto simp: referencedDumps_def map_filter_def) force
  moreover have "distinct (map info_key (listAll w ''db/''))"
    using assms(1) by (simp add: listAll_def distinct_map_filter)
  moreover have "info_key i \<in> set (map info_key (listAll w ''db/''))" using True assms(2) by (auto simp: listAll_startsWith)
  ultimately show ?thesis
    using True newest_dumps [of "map info_key (listAll w ''db/'')" "info_key i" 7]
    by (auto simp: staleDumps_def Let_def unreferencedDumps_def CLOUD_BACKUP_DB_DUMPS_KEPT_def)
next
  case False
  then show ?thesis by (auto simp: staleDumps_def Let_def unreferencedDumps_def)
qed

lemma startEffects_deleted: "deletedKeys (startEffects remove) = manifest_key ` set remove"
  by (auto simp: deletedKeys_def startEffects_def)

text \<open>
  What a clean-up may delete of the bucket is what is removable, and one that finishes deletes all of it.
\<close>

lemma prune_deletes:
  assumes "prune num fetch conn retention False checkpoint w = Inr (r, trace)" and "distinct (map info_key (stored w))"
    and "i \<in> set (stored w)"
  shows "info_key i \<in> deletedKeys trace \<Longrightarrow> removable num fetch conn retention w (info_key i)"
    and "r \<noteq> None \<Longrightarrow> removable num fetch conn retention w (info_key i) \<Longrightarrow> info_key i \<in> deletedKeys trace"
proof -
  obtain keep remove refs objects rest where c: "prunePlan conn retention w = Inr (keep, remove)"
    "keptReferences num fetch conn w keep = Inr refs"
    "unreferencedObjects (listAll w ''o/'') (\<Union>(referencedBy ` set refs)) = Inr objects"
    "trace = startEffects remove @ rest" "cleanUpEffects objects (staleDumps w refs) r rest" "forgetsFirst rest"
    by (rule prune_cases [OF assms(1)])
  obtain inventory where inv: "pruneInventory conn w = Inr inventory"
    "set keep = keptManifests conn retention inventory"
    "set remove = set (candidatesOf inventory) - keptManifests conn retention inventory"
    by (rule prunePlan_sets [OF c(1)])
  have refs: "set refs = namedByKept num fetch conn retention inventory"
    using keptReferences_set(1) [OF c(2)] by (simp add: namedByKept_def inv(2))
  have img: "(\<exists>m \<in> A. manifest_key m = k) \<longleftrightarrow> k \<in> manifest_key ` A" for A k
    by (metis image_iff)
  have "removable num fetch conn retention w (info_key i) \<longleftrightarrow>
      info_key i \<in> manifest_key ` set remove \<or> unreferencedObject (\<Union>(referencedBy ` set refs)) i = Inr True \<or>
      info_key i \<in> info_key ` set (staleDumps w refs)"
    unfolding removable_def inv(1) Let_def unreferencedObject_iff dumps_removed [OF assms(2,3)] inv(3) refs img UN_iff
    by simp
  then have rem: "removable num fetch conn retention w (info_key i) \<longleftrightarrow>
      info_key i \<in> manifest_key ` set remove \<union> (info_key ` set objects \<union> info_key ` set (staleDumps w refs))"
    by (simp add: objects_removed [OF c(3) assms(3)])
  show "info_key i \<in> deletedKeys trace \<Longrightarrow> removable num fetch conn retention w (info_key i)"
    and "r \<noteq> None \<Longrightarrow> removable num fetch conn retention w (info_key i) \<Longrightarrow> info_key i \<in> deletedKeys trace"
    unfolding rem using c(5) by (auto simp: c(4) keys_append startEffects_deleted cleanUpEffects_def)
qed

text \<open>
  C17. The clean-up of a cloud backup bucket removes what retention allows and nothing else. Whenever it is
  interrupted, by a pause, a cancel, a crash or a failing call, every object of the bucket that is not removable
  is still there; a clean-up that finishes leaves exactly those. Removable are: a manifest past retention that is
  not the trusted head; an object that no kept manifest names; a dump that no kept manifest names, with
  seven later ones in the bucket. A dry run changes nothing.
\<close>

theorem prune_removes_exactly:
  assumes "prune num fetch conn retention dryRun checkpoint w = Inr (r, trace)"
    and "distinct (map info_key (stored w))"
  shows "set (filter (\<lambda>i. \<not> removable num fetch conn retention w (info_key i)) (stored w)) \<subseteq> set (stored (after (take n trace) w)) \<and>
    (r \<noteq> None \<longrightarrow> stored (after trace w) =
       (if dryRun then stored w else filter (\<lambda>i. \<not> removable num fetch conn retention w (info_key i)) (stored w)))"
proof (cases dryRun)
  case True
  with assms(1) have "trace = []" by (rule prune_dryRun)
  then show ?thesis using True by (auto simp: after_def)
next
  case False
  then have run: "prune num fetch conn retention False checkpoint w = Inr (r, trace)" using assms(1) by simp
  note del = prune_deletes [OF run assms(2)]
  have "deletedKeys (take n trace) \<subseteq> deletedKeys trace" by (auto simp: deletedKeys_def dest: in_set_takeD)
  then have "set (filter (\<lambda>i. \<not> removable num fetch conn retention w (info_key i)) (stored w)) \<subseteq> set (stored (after (take n trace) w))"
    using del(1) by (auto simp: after_stored)
  moreover have "stored (after trace w) = filter (\<lambda>i. \<not> removable num fetch conn retention w (info_key i)) (stored w)" if "r \<noteq> None"
    unfolding after_stored using del that by (intro filter_cong) auto
  ultimately show ?thesis using False by simp
qed

text \<open>A backup that can be restored: its manifest is in the bucket and reads, and all it names is there.\<close>

definition restorable :: "(rat \<Rightarrow> string) \<Rightarrow> fetcher \<Rightarrow> bucketState \<Rightarrow> string \<Rightarrow> bool" where
  "restorable num fetch w key \<longleftrightarrow>
     key \<in> info_key ` set (stored w) \<and>
     (\<exists>body m. fetch key = Inr body \<and> readManifest num body = Inr m \<and>
        (\<forall>f \<in> set (manifestFiles m). \<exists>k. manifestFileObjectKey f = Inr (JStr k) \<and> k \<in> info_key ` set (stored w)) \<and>
        (\<forall>d. jget (mft_database m) ''key'' = JStr d \<longrightarrow> startsWith d ''db/'' \<and> d \<in> info_key ` set (stored w)))"

lemma marked_pruned:
  assumes "key \<in> set keys"
  shows "map_of (manifestRows (after [AdoptPruned keys, MarkPruned keys] w)) key = Some Pruned"
proof -
  define rows where "rows = manifestRows (adoptManifests keys Pruned w)"
  have "key \<in> fst ` set rows"
  proof (cases "key \<in> set (getManifestKeys w keys)")
    case True
    then show ?thesis by (auto simp: rows_def adoptManifests_def getManifestKeys_def)
  next
    case False
    then have "(key, Pruned) \<in> set rows" using assms by (simp add: rows_def adoptManifests_def)
    then show ?thesis by (rule image_eqI [rotated]) simp
  qed
  moreover have "map_of (map (\<lambda>(k, s). (k, if k \<in> set keys then Pruned else s)) rows) key = map_option (\<lambda>_. Pruned) (map_of rows key)"
    using assms by (induction rows) auto
  ultimately show ?thesis
    by (auto simp: after_def markPruned_def rows_def dom_map_of_conv_image_fst [symmetric])
qed

lemma early_effects: "n < 2 \<Longrightarrow> deletedKeys (take n (startEffects remove @ rest)) = {}"
  by (cases n) (auto simp: startEffects_def deletedKeys_def)

text \<open>Past its first two effects, a clean-up has marked every manifest it removes.\<close>

lemma removed_marked:
  assumes "2 \<le> n" and "list_all storageEffect rest" and "key \<in> manifest_key ` set remove"
  shows "map_of (manifestRows (after (take n (startEffects remove @ rest)) w)) key = Some Pruned"
proof -
  define ks where "ks = map manifest_key remove"
  define tail where "tail = map (\<lambda>m. DeleteKey (manifest_key m)) remove @ rest"
  have split: "take n (startEffects remove @ rest) = [AdoptPruned ks, MarkPruned ks] @ take (n - 2) tail"
    using assms(1) by (cases n; cases "n - 1") (auto simp: startEffects_def ks_def tail_def)
  have "list_all storageEffect (take (n - 2) tail)"
    using assms(2) by (auto simp: tail_def list_all_iff dest!: in_set_takeD)
  then have "manifestRows (after (take n (startEffects remove @ rest)) w) = manifestRows (after [AdoptPruned ks, MarkPruned ks] w)"
    unfolding split after_append by (rule after_manifestRows)
  moreover have "key \<in> set ks" using assms(3) by (simp add: ks_def)
  ultimately show ?thesis using marked_pruned by metis
qed

text \<open>A kept manifest, what it names and its dump are not among what a clean-up deletes.\<close>

lemma kept_backup_untouched:
  assumes "keptReferences num fetch conn w keep = Inr refs" and "m \<in> set keep" and "fetch (manifest_key m) = Inr body"
    and "readManifest num body = Inr mft"
    and "unreferencedObjects (listAll w ''o/'') (\<Union>(referencedBy ` set refs)) = Inr objects"
  shows "f \<in> set (manifestFiles mft) \<Longrightarrow> manifestFileObjectKey f = Inr (JStr k) \<Longrightarrow> k \<notin> info_key ` set objects"
    and "jget (mft_database mft) ''key'' = JStr d \<Longrightarrow> startsWith d ''db/'' \<Longrightarrow> d \<notin> info_key ` set (staleDumps w refs)"
proof -
  obtain r where r: "readReferences num fetch (manifest_key m) = Inr r" using keptReferences_set(2) [OF assms(1,2)] by blast
  then have mr: "manifestReferences mft = Inr r" using assms(3,4) by (simp add: readReferences_def)
  have "r \<in> set refs" using keptReferences_set(1) [OF assms(1)] assms(2) r by blast
  then have sub: "referencedBy r \<subseteq> \<Union>(referencedBy ` set refs)" by blast
  {
    assume f: "f \<in> set (manifestFiles mft)" and k: "manifestFileObjectKey f = Inr (JStr k)"
    show "k \<notin> info_key ` set objects"
    proof
      assume "k \<in> info_key ` set objects"
      then obtain i where i: "k = info_key i" "unreferencedObject (\<Union>(referencedBy ` set refs)) i = Inr True"
        using filterR_set [OF assms(5) [unfolded unreferencedObjects_def]] by auto
      with named_object_kept [OF assms(4) mr sub f] k show False by simp
    qed
  }
  assume d: "jget (mft_database mft) ''key'' = JStr d" "startsWith d ''db/''"
  have "ref_database r = Some d"
    using addReferences_all [OF mr [unfolded manifestReferences_def]] d(1) by simp
  moreover have "d \<noteq> []" using d(2) by (auto simp: startsWith_def)
  ultimately have "d \<in> referencedDumps refs" using \<open>r \<in> set refs\<close> by (force simp: referencedDumps_def map_filter_def)
  then show "d \<notin> info_key ` set (staleDumps w refs)" by (auto simp: staleDumps_def Let_def unreferencedDumps_def)
qed

lemma manifest_file_prefix:
  assumes "readManifest num body = Inr m" and "f \<in> set (manifestFiles m)" and "manifestFileObjectKey f = Inr (JStr k)"
  shows "startsWith k ''o/''"
  using manifest_file_ok(2) [OF assms] by (cases k; cases "tl k") (auto simp: startsWith_def)

text \<open>The three areas of a bucket do not meet: manifests, objects and dumps.\<close>

lemma removed_areas:
  assumes "pruneInventory conn w = Inr inventory" and "set remove \<subseteq> set (candidatesOf inventory)"
    and "unreferencedObjects (listAll w ''o/'') R = Inr objects"
  shows "k \<in> manifest_key ` set remove \<Longrightarrow> startsWith k ''m/''"
    and "k \<in> info_key ` set objects \<Longrightarrow> startsWith k ''o/''"
    and "k \<in> info_key ` set (staleDumps w refs) \<Longrightarrow> startsWith k ''db/''"
proof -
  show "startsWith k ''m/''" if "k \<in> manifest_key ` set remove"
    using that assms(2) pruneInventory_ok(1) [OF assms(1)] manifestTime_prefix
    by (fastforce simp: candidatesOf_def inventoryOk_def)
  show "startsWith k ''o/''" if "k \<in> info_key ` set objects"
    using that filterR_set [OF assms(3) [unfolded unreferencedObjects_def]] by (auto simp: listAll_startsWith)
  show "startsWith k ''db/''" if "k \<in> info_key ` set (staleDumps w refs)"
    using that by (auto simp: staleDumps_def Let_def unreferencedDumps_def)
qed

lemma areas_apart:
  "startsWith k ''m/'' \<Longrightarrow> \<not> startsWith k ''o/''" "startsWith k ''m/'' \<Longrightarrow> \<not> startsWith k ''db/''"
  "startsWith k ''o/'' \<Longrightarrow> \<not> startsWith k ''m/''" "startsWith k ''o/'' \<Longrightarrow> \<not> startsWith k ''db/''"
  "startsWith k ''db/'' \<Longrightarrow> \<not> startsWith k ''m/''" "startsWith k ''db/'' \<Longrightarrow> \<not> startsWith k ''o/''"
  by (cases k; auto simp: startsWith_def)+

lemma prune_deletedKeys:
  assumes "trace = startEffects remove @ rest" and "cleanUpEffects objects dumps r rest" and "k \<in> deletedKeys (take n trace)"
  shows "k \<in> manifest_key ` set remove \<or> k \<in> info_key ` set objects \<or> k \<in> info_key ` set dumps"
proof -
  have "k \<in> deletedKeys trace" using assms(3) by (auto simp: deletedKeys_def dest: in_set_takeD)
  then show ?thesis using assms(1,2) by (auto simp: keys_append startEffects_deleted cleanUpEffects_def)
qed

lemma plan_restorable:
  assumes "prune num fetch conn retention False checkpoint w = Inr (r, trace)"
    and "prunePlan conn retention w = Inr (keep, remove)" and "key \<notin> manifest_key ` set remove"
    and "restorable num fetch w key" and "manifestTime key \<noteq> None"
  shows "restorable num fetch (after (take n trace) w) key"
proof -
  obtain keep' remove' refs objects rest where c: "prunePlan conn retention w = Inr (keep', remove')"
    "keptReferences num fetch conn w keep' = Inr refs"
    "unreferencedObjects (listAll w ''o/'') (\<Union>(referencedBy ` set refs)) = Inr objects"
    "trace = startEffects remove' @ rest" "cleanUpEffects objects (staleDumps w refs) r rest"
    by (rule prune_cases [OF assms(1)])
  have same: "keep' = keep" "remove' = remove" using c(1) assms(2) by simp_all
  obtain inventory where inv: "pruneInventory conn w = Inr inventory"
    "set keep = keptManifests conn retention inventory"
    "set remove = set (candidatesOf inventory) - keptManifests conn retention inventory"
    by (rule prunePlan_sets [OF assms(2)])
  obtain body mft where b: "fetch key = Inr body" "readManifest num body = Inr mft"
    using assms(4) by (auto simp: restorable_def)
  have "key \<in> manifest_key ` set (candidatesOf inventory)"
    using pruneInventory_ok(2) [OF inv(1)] assms(4,5) unfolding restorable_def
    by (metis candidatesOf_keys image_set imageE)
  then obtain m where m: "key = manifest_key m" "m \<in> set keep" using assms(3) inv(2,3) by blast
  note kept = kept_backup_untouched [OF c(2) [unfolded same] m(2) b [unfolded m(1)] c(3)]
  define D where "D = deletedKeys (take n trace)"
  have D: "k \<in> manifest_key ` set remove \<or> k \<in> info_key ` set objects \<or> k \<in> info_key ` set (staleDumps w refs)"
    if "k \<in> D" for k using prune_deletedKeys [OF c(4,5)] that by (simp add: D_def same)
  note areas = removed_areas [OF inv(1) _ c(3), of remove, unfolded inv(3), OF Diff_subset]
  have key: "startsWith key ''m/''" using assms(5) manifestTime_prefix by blast
  have "key \<notin> D" using D [of key] assms(3) areas [of key] areas_apart(1,2) [OF key] inv(3) by blast
  moreover have "k \<notin> D" if f: "f \<in> set (manifestFiles mft)" "manifestFileObjectKey f = Inr (JStr k)" for f k
    using D [of k] kept(1) [OF f] areas [of k] areas_apart(3,4) [OF manifest_file_prefix [OF b(2) f]] inv(3) by blast
  moreover have "d \<notin> D" if d: "jget (mft_database mft) ''key'' = JStr d" "startsWith d ''db/''" for d
    using D [of d] kept(2) [OF d] areas [of d] areas_apart(5,6) [OF d(2)] inv(3) by blast
  ultimately show ?thesis
    using assms(4) b by (fastforce simp: restorable_def after_stored D_def [symmetric])
qed

lemma untouched_restorable:
  "deletedKeys effects = {} \<Longrightarrow> restorable num fetch w key \<Longrightarrow> restorable num fetch (after effects w) key"
  by (simp add: restorable_def after_stored)

text \<open>
  C16. A clean-up never breaks a backup that is still offered for restore. At whatever point it is interrupted,
  if a manifest and everything it names were in the bucket before and the index does not have it as pruned, then
  the manifest, every object it names and its database dump are in the bucket still.
\<close>

theorem prune_keeps_backups:
  assumes "prune num fetch conn retention dryRun checkpoint w = Inr (r, trace)"
    and "restorable num fetch w key" and "manifestTime key \<noteq> None"
    and "map_of (manifestRows (after (take n trace) w)) key \<noteq> Some Pruned"
  shows "restorable num fetch (after (take n trace) w) key"
proof (cases "deletedKeys (take n trace) = {}")
  case True
  then show ?thesis using assms(2) by (rule untouched_restorable)
next
  case False
  then have "\<not> dryRun" using prune_dryRun [OF assms(1)] by (auto simp: deletedKeys_def)
  then have run: "prune num fetch conn retention False checkpoint w = Inr (r, trace)" using assms(1) by simp
  then obtain keep remove refs objects rest where c: "prunePlan conn retention w = Inr (keep, remove)"
    "trace = startEffects remove @ rest" "cleanUpEffects objects (staleDumps w refs) r rest"
    by (rule prune_cases)
  have "2 \<le> n" using False early_effects [of n remove rest] c(2) by fastforce
  then have "key \<notin> manifest_key ` set remove"
    using removed_marked [of n rest key remove w] assms(4) c(2,3) by (auto simp: cleanUpEffects_def)
  then show ?thesis using plan_restorable [OF run c(1)] assms(2,3) by blast
qed

text \<open>
  A bucket is never left without its restore point. Through every interruption of a clean-up, with any
  settings, the newest backup the server knows and the trusted head stay restorable if they were.
\<close>

theorem prune_keeps_newest:
  assumes "prune num fetch conn retention dryRun checkpoint w = Inr (r, trace)"
    and "restorable num fetch w key" and "manifestTime key = Some t" and "pruneInventory conn w = Inr inventory"
    and "list_all (\<lambda>(k, s). s < t \<or> s = t \<and> \<not> code_less key k) inventory \<or> trustedManifestHead conn = Some key"
  shows "restorable num fetch (after (take n trace) w) key"
proof (cases dryRun)
  case True
  then show ?thesis using prune_dryRun [OF assms(1)] assms(2) by (simp add: after_def)
next
  case False
  then have run: "prune num fetch conn retention False checkpoint w = Inr (r, trace)" using assms(1) by simp
  then obtain keep remove where plan: "prunePlan conn retention w = Inr (keep, remove)" by (rule prune_cases)
  then have rem: "set remove = set (candidatesOf inventory) - keptManifests conn retention inventory"
    using assms(4) prunePlan_sets by (metis Inr_inject)
  have "m \<in> keptManifests conn retention inventory" if m: "m \<in> set (candidatesOf inventory)" "manifest_key m = key" for m
    using assms(5)
  proof
    assume newest: "list_all (\<lambda>(k, s). s < t \<or> s = t \<and> \<not> code_less key k) inventory"
    have "manifest_createdAt m = t"
      using m pruneInventory_ok(1) [OF assms(4)] assms(3) by (auto simp: candidatesOf_def inventoryOk_def)
    then have "\<not> newer x m" if "x \<in> set (candidatesOf inventory)" for x
      using that newest m(2) by (auto simp: candidatesOf_def newer_def list_all_iff)
    then show ?thesis using m(1) by (simp add: keptManifests_def keptBackups_def)
  qed (use m in \<open>simp add: keptManifests_def\<close>)
  then have "key \<notin> manifest_key ` set remove" unfolding rem by auto
  then show ?thesis using plan_restorable [OF run plan] assms(2,3) by blast
qed


text \<open>
  The receipts of client-encrypted uploads are left alone: they are recorded by the hash of the file, which the
  key of the encrypted copy does not show.
\<close>

lemma client_key_no_hash: "startsWith k ''o/v1/'' \<Longrightarrow> \<not> isSha256Hex (drop 2 k)"
proof
  assume k: "startsWith k ''o/v1/''" and hex: "isSha256Hex (drop 2 k)"
  then have "k = ''o/'' @ drop 2 k" by (cases k; cases "tl k") (auto simp: startsWith_def)
  with isSha256Hex_no_v [OF hex] k show False by simp
qed

lemma prune_keeps_receipts:
  assumes "prune num fetch conn retention dryRun checkpoint w = Inr (r, trace)"
    and "\<forall>i \<in> set (listAll w ''o/''). startsWith (info_key i) ''o/v1/''" and "\<forall>h \<in> set (receiptRows w). isSha256Hex h"
  shows "receiptRows (after trace w) = receiptRows w"
proof (cases dryRun)
  case True
  then show ?thesis using prune_dryRun [OF assms(1)] by (simp add: after_def)
next
  case False
  then have "prune num fetch conn retention False checkpoint w = Inr (r, trace)" using assms(1) by simp
  then obtain keep remove refs objects rest where c:
    "unreferencedObjects (listAll w ''o/'') (\<Union>(referencedBy ` set refs)) = Inr objects"
    "trace = startEffects remove @ rest" "cleanUpEffects objects (staleDumps w refs) r rest"
    by (rule prune_cases)
  have "forgottenHashes (startEffects remove) = {}" by (auto simp: startEffects_def forgottenHashes_def)
  then have "forgottenHashes trace \<subseteq> (\<lambda>i. drop 2 (info_key i)) ` set objects"
    using c(2,3) by (auto simp: keys_append cleanUpEffects_def)
  moreover have "set objects \<subseteq> set (listAll w ''o/'')"
    using filterR_set [OF c(1) [unfolded unreferencedObjects_def]] by blast
  ultimately have "\<not> isSha256Hex h" if "h \<in> forgottenHashes trace" for h
    using that assms(2) client_key_no_hash by blast
  then show ?thesis using assms(3) by (auto simp: after_objectRows intro!: filter_True)
qed

section \<open>An example\<close>

definition exampleManifest :: "char \<Rightarrow> json option" where
  "exampleManifest c = Some (JObj [(''format'', JStr ''frameleaf-backup-manifest''), (''version'', JNum 1),
     (''instanceId'', JStr ''server''), (''assets'', JObj [(''asset'', JObj [(''files'', JArr [JObj
       [(''role'', JStr ''original''), (''path'', JStr ''a.jpg''), (''sha256'', JStr (replicate 64 c)), (''size'', JNum 10)]])])])])"

definition exampleFetch :: fetcher where
  "exampleFetch key =
     (if key = ''m/20260926T030000Z.json.gz'' then Inr (exampleManifest CHR ''a'')
      else if key = ''m/20260925T030000Z.json.gz'' then Inr (exampleManifest CHR ''b'')
      else Inl (StoreError (Some 404) (Some ''NoSuchKey'')))"

definition exampleBucket :: bucketState where
  "exampleBucket = \<lparr>stored = map (\<lambda>k. \<lparr>info_key = k, info_size = 10\<rparr>)
     [''frameleaf-backup.json'', ''m/20260925T030000Z.json.gz'', ''m/20260926T030000Z.json.gz'',
      ''o/'' @ replicate 64 CHR ''a'', ''o/'' @ replicate 64 CHR ''b''],
     manifestRows = [(''m/20260926T030000Z.json.gz'', Complete)],
     objectRows = [replicate 64 CHR ''a'', replicate 64 CHR ''b''], receiptRows = []\<rparr>"

definition exampleConnection :: backupConnection where
  "exampleConnection = \<lparr>conn_bucket = ''bucket'', conn_vaultId = None, trustedManifests = [], trustedManifestHead = None\<rparr>"

definition exampleTrace :: "pruneEffect list" where
  "exampleTrace = [AdoptPruned [''m/20260925T030000Z.json.gz''], MarkPruned [''m/20260925T030000Z.json.gz''],
     DeleteKey ''m/20260925T030000Z.json.gz'', ForgetHashes [replicate 64 CHR ''b''], DeleteKey (''o/'' @ replicate 64 CHR ''b'')]"

definition exampleRetention :: cloudBackupRetention where
  "exampleRetention = \<lparr>keepDaily = 1, keepWeekly = 0, keepMonthly = 0\<rparr>"

definition exampleRefs :: references where
  "exampleRefs = \<lparr>ref_objects = [(replicate 64 CHR ''a'', 10)],
     ref_storageKeys = [(replicate 64 CHR ''a'', [JStr (''o/'' @ replicate 64 CHR ''a'')])], ref_database = None\<rparr>"

lemma example_time:
  "manifestTime ''m/20260926T030000Z.json.gz'' = Some 1790391600000"
  "manifestTime ''m/20260925T030000Z.json.gz'' = Some 1790305200000"
  by code_simp+

lemma example_inventory:
  "pruneInventory exampleConnection exampleBucket =
     Inr [(''m/20260925T030000Z.json.gz'', 1790305200000), (''m/20260926T030000Z.json.gz'', 1790391600000)]"
  by (simp add: pruneInventory_def exampleConnection_def exampleBucket_def listAll_def startsWith_def map_filter_def
      example_time getPrunedKeys_def listKeptManifests_def)

lemma example_plan:
  "prunePlan exampleConnection exampleRetention exampleBucket =
     Inr ([\<lparr>manifest_key = ''m/20260926T030000Z.json.gz'', manifest_createdAt = 1790391600000\<rparr>],
          [\<lparr>manifest_key = ''m/20260925T030000Z.json.gz'', manifest_createdAt = 1790305200000\<rparr>])"
  unfolding prunePlan_def example_inventory by code_simp

lemma example_refs:
  "keptReferences (\<lambda>_. ''0'') exampleFetch exampleConnection exampleBucket
     [\<lparr>manifest_key = ''m/20260926T030000Z.json.gz'', manifest_createdAt = 1790391600000\<rparr>] = Inr [exampleRefs]"
  by code_simp

lemma example_objects:
  "unreferencedObjects (listAll exampleBucket ''o/'') (\<Union>(referencedBy ` set [exampleRefs])) =
     Inr [\<lparr>info_key = ''o/'' @ replicate 64 CHR ''b'', info_size = 10\<rparr>]"
  by code_simp

lemma example_dumps: "staleDumps exampleBucket [exampleRefs] = []"
  by code_simp

lemma example_prune:
  obtains r where
    "prune (\<lambda>_. ''0'') exampleFetch exampleConnection exampleRetention False (\<lambda>_. True) exampleBucket = Inr (r, exampleTrace)"
proof -
  have "slices MAINTENANCE_BATCH [\<lparr>info_key = ''o/'' @ replicate 64 CHR ''b'', info_size = 10\<rparr>] =
      [[\<lparr>info_key = ''o/'' @ replicate 64 CHR ''b'', info_size = 10\<rparr>]]"
    by (rule slices_short) (simp_all add: MAINTENANCE_BATCH_def)
  moreover have "slices FORGET_BATCH [replicate 64 CHR ''b''] = [[replicate 64 CHR ''b'']]"
    by (rule slices_short) (simp_all add: FORGET_BATCH_def)
  ultimately show ?thesis
    by (intro that, unfold prune_def example_plan bindR_simps prod.case example_refs example_objects example_dumps)
      (simp add: Let_def batchEffects_def exampleTrace_def)
qed

lemma example_read:
  "mapR (\<lambda>m. (map mf_sha256 (manifestFiles m), map mf_objectKey (manifestFiles m), mft_database m))
     (readManifest (\<lambda>_. ''0'') (exampleManifest CHR ''a'')) = Inr ([replicate 64 CHR ''a''], [JUndefined], JNull)"
  by code_simp

lemma example_objectKey: "objectKey (replicate 64 CHR ''a'') = Inr (''o/'' @ replicate 64 CHR ''a'')"
  by code_simp

lemma example_fetch: "exampleFetch ''m/20260926T030000Z.json.gz'' = Inr (exampleManifest CHR ''a'')"
  by (simp add: exampleFetch_def)

lemma example_stored:
  "''o/'' @ replicate 64 CHR ''a'' \<in> info_key ` set (stored exampleBucket)"
  "''m/20260926T030000Z.json.gz'' \<in> info_key ` set (stored exampleBucket)"
  by code_simp+

lemma example_restorable: "restorable (\<lambda>_. ''0'') exampleFetch exampleBucket ''m/20260926T030000Z.json.gz''"
proof -
  obtain m where m: "readManifest (\<lambda>_. ''0'') (exampleManifest CHR ''a'') = Inr m"
    "map mf_sha256 (manifestFiles m) = [replicate 64 CHR ''a'']" "map mf_objectKey (manifestFiles m) = [JUndefined]"
    "mft_database m = JNull"
    using example_read unfolding mapR_eq_Inr by auto
  then obtain f where f: "manifestFiles m = [f]" "mf_sha256 f = replicate 64 CHR ''a''" "mf_objectKey f = JUndefined"
    by (cases "manifestFiles m") auto
  then have "manifestFileObjectKey f = Inr (JStr (''o/'' @ replicate 64 CHR ''a''))"
    by (simp only: manifestFileObjectKey_def nullish_def example_objectKey simp_thms if_True mapR_simps)
  with f(1) m(1,4) show ?thesis
    unfolding restorable_def example_fetch using example_stored by auto
qed

theorem prune_removes_exactly_witness:
  "set (filter (\<lambda>i. \<not> removable (\<lambda>_. ''0'') exampleFetch exampleConnection exampleRetention exampleBucket (info_key i))
     (stored exampleBucket)) \<subseteq> set (stored (after (take 4 exampleTrace) exampleBucket))"
proof -
  obtain r where "prune (\<lambda>_. ''0'') exampleFetch exampleConnection exampleRetention False (\<lambda>_. True) exampleBucket = Inr (r, exampleTrace)"
    by (rule example_prune)
  moreover have "distinct (map info_key (stored exampleBucket))" by code_simp
  ultimately show ?thesis using prune_removes_exactly by blast
qed

theorem prune_keeps_backups_witness:
  "restorable (\<lambda>_. ''0'') exampleFetch (after (take 5 exampleTrace) exampleBucket) ''m/20260926T030000Z.json.gz''"
proof -
  obtain r where run: "prune (\<lambda>_. ''0'') exampleFetch exampleConnection exampleRetention False (\<lambda>_. True) exampleBucket = Inr (r, exampleTrace)"
    by (rule example_prune)
  have "map_of (manifestRows (after (take 5 exampleTrace) exampleBucket)) ''m/20260926T030000Z.json.gz'' \<noteq> Some Pruned"
    by code_simp
  from prune_keeps_backups [OF run example_restorable _ this] show ?thesis by (simp add: example_time(1))
qed

theorem prune_keeps_newest_witness:
  "restorable (\<lambda>_. ''0'') exampleFetch (after (take 3 exampleTrace) exampleBucket) ''m/20260926T030000Z.json.gz''"
proof -
  obtain r where run: "prune (\<lambda>_. ''0'') exampleFetch exampleConnection exampleRetention False (\<lambda>_. True) exampleBucket = Inr (r, exampleTrace)"
    by (rule example_prune)
  show ?thesis by (rule prune_keeps_newest [OF run example_restorable example_time(1) example_inventory]) simp
qed


end
