(* ===== verification/CloudVerify.thy ===== *)
theory CloudVerify
  imports CloudPrune
begin

text \<open>
  The verification of a claimed bucket (\<open>CloudBackupMaintenance.verify\<close> of
  \<open>server/src/services/cloud-backup-maintenance.ts\<close>): every object the manifests name is read or asked for, in
  the order of its hash, from the cursor of the result it starts with.

  A run answers its effects in order with its outcome: an error, nothing (a checkpoint said stop), or the result.
  Storage is a parameter: \<open>fetch\<close> as in the clean-up, \<open>headObject\<close> and \<open>hashStored\<close> for an object. A
  size is compared with the one the manifest records.
\<close>

section \<open>State\<close>

datatype problem = Missing | Mismatched

record verifyResult =
  depth :: verification
  vr_done :: bool
  slice :: int
  vr_total :: nat
  checked :: nat
  missing :: nat
  mismatched :: nat
  degradedManifests :: nat
  degradedKeys :: "string list"
  cursor :: "string option"
  dumpCursor :: "string option"
  bad :: "string list"

definition emptyVerifyResult :: "verification \<Rightarrow> int \<Rightarrow> verifyResult" where
  "emptyVerifyResult d now =
     \<lparr>depth = d, vr_done = False, slice = verifySliceOf now, vr_total = 0, checked = 0, missing = 0, mismatched = 0,
      degradedManifests = 0, degradedKeys = [], cursor = None, dumpCursor = None, bad = []\<rparr>"

record storage =
  fetchManifest :: fetcher
  headObject :: "string \<Rightarrow> backupError + rat option"
  hashStored :: "string \<Rightarrow> backupError + (string \<times> rat)"

record namedObject =
  no_size :: rat
  no_manifests :: "string list"
  no_storageKeys :: "json list"

datatype verifyEffect =
    RecordVerification string verification "problem option"
  | ForgetBad "string list"
  | MarkDegraded "string list"
  | SaveProgress verifyResult

definition VERIFY_BAD_KEPT :: nat where "VERIFY_BAD_KEPT = 1000"

section \<open>What the manifests name\<close>

text \<open>An unreadable manifest is noted; an error of the session or of storage itself ends the run.\<close>

definition unreadableError :: "backupError \<Rightarrow> bool" where
  "unreadableError e =
     (case e of
        AuthorizationLost \<Rightarrow> False
      | StoreError status code \<Rightarrow> status = Some 404 \<or> code = Some ''ChecksumMismatch''
      | _ \<Rightarrow> True)"

definition addKeys :: "json list \<Rightarrow> json list \<Rightarrow> json list" where
  "addKeys keys others = uniq (keys @ others)"

definition nameObject ::
  "string \<Rightarrow> references \<Rightarrow> (string \<times> namedObject) list \<Rightarrow> string \<times> rat \<Rightarrow> (string \<times> namedObject) list" where
  "nameObject key refs named entry =
     (let sha = fst entry; keys = (case map_of (ref_storageKeys refs) sha of None \<Rightarrow> [] | Some ks \<Rightarrow> ks)
      in case map_of named sha of
           Some o' \<Rightarrow> AList.update sha (o'\<lparr>no_manifests := no_manifests o' @ [key],
                        no_storageKeys := addKeys (no_storageKeys o') keys\<rparr>) named
         | None \<Rightarrow> AList.update sha \<lparr>no_size = snd entry, no_manifests = [key], no_storageKeys = keys\<rparr> named)"

record inventory =
  inv_named :: "(string \<times> namedObject) list"
  inv_dumps :: "(string \<times> string list) list"
  inv_unreadable :: "string list"

definition nameDump :: "string \<Rightarrow> string option \<Rightarrow> (string \<times> string list) list \<Rightarrow> (string \<times> string list) list" where
  "nameDump key database dumps =
     (case database of
        Some d \<Rightarrow> if d = [] then dumps
                  else AList.update d ((case map_of dumps d of None \<Rightarrow> [] | Some ks \<Rightarrow> ks) @ [key]) dumps
      | None \<Rightarrow> dumps)"

fun readInventory :: "(rat \<Rightarrow> string) \<Rightarrow> fetcher \<Rightarrow> string list \<Rightarrow> inventory \<Rightarrow> backupError + inventory" where
  "readInventory num fetch [] iv = Inr iv"
| "readInventory num fetch (key # keys) iv =
     (if manifestTime key = None then readInventory num fetch keys iv
      else case readReferences num fetch key of
             Inl e \<Rightarrow> if unreadableError e
                      then readInventory num fetch keys (iv\<lparr>inv_unreadable := inv_unreadable iv @ [key]\<rparr>)
                      else Inl e
           | Inr refs \<Rightarrow> readInventory num fetch keys
               (iv\<lparr>inv_named := foldl (nameObject key refs) (inv_named iv) (ref_objects refs),
                    inv_dumps := nameDump key (ref_database refs) (inv_dumps iv)\<rparr>))"

definition verifyInventory :: "(rat \<Rightarrow> string) \<Rightarrow> fetcher \<Rightarrow> backupConnection \<Rightarrow> bucketState \<Rightarrow> backupError + inventory" where
  "verifyInventory num fetch conn w =
     (let keys = map info_key (listAll w ''m/'');
          hidden = (case trustedManifestHead conn of
                      Some h \<Rightarrow> if h \<noteq> [] \<and> h \<notin> set keys then [h] else []
                    | None \<Rightarrow> [])
      in readInventory num fetch keys \<lparr>inv_named = [], inv_dumps = [], inv_unreadable = hidden\<rparr>)"

section \<open>One object\<close>

definition checkFailure :: "backupError \<Rightarrow> backupError + problem option" where
  "checkFailure e =
     (case e of
        StoreError status code \<Rightarrow>
          if status = Some 404 then Inr (Some Missing)
          else if code = Some ''ChecksumMismatch'' then Inr (Some Mismatched)
          else Inl e
      | _ \<Rightarrow> Inl e)"

definition checkObject :: "storage \<Rightarrow> string \<Rightarrow> rat \<Rightarrow> verification \<Rightarrow> string \<Rightarrow> backupError + problem option" where
  "checkObject st sha size' d key =
     (case d of
        FullPass \<Rightarrow>
          (case headObject st key of
             Inl e \<Rightarrow> checkFailure e
           | Inr None \<Rightarrow> Inr (Some Missing)
           | Inr (Some found) \<Rightarrow> Inr (if found = size' then None else Some Mismatched))
      | SamplePass \<Rightarrow>
          (case hashStored st key of
             Inl e \<Rightarrow> checkFailure e
           | Inr (h, s) \<Rightarrow> Inr (if h = sha \<and> s = size' then None else Some Mismatched)))"

text \<open>Every copy of an object is checked; the last problem found stands for it.\<close>

fun checkCopies ::
  "(rat \<Rightarrow> string) \<Rightarrow> storage \<Rightarrow> string \<Rightarrow> rat \<Rightarrow> verification \<Rightarrow> json list \<Rightarrow> problem option \<Rightarrow> backupError + problem option" where
  "checkCopies num st sha size' d [] p = Inr p"
| "checkCopies num st sha size' d (k # ks) p =
     bindR (checkObject st sha size' d (jsText num k)) (\<lambda>found.
       checkCopies num st sha size' d ks (if found = None then p else found))"

definition objectProblem ::
  "(rat \<Rightarrow> string) \<Rightarrow> storage \<Rightarrow> inventory \<Rightarrow> verification \<Rightarrow> string \<Rightarrow> backupError + problem option" where
  "objectProblem num st iv d sha =
     (case map_of (inv_named iv) sha of
        None \<Rightarrow> Inr None
      | Some o' \<Rightarrow> checkCopies num st sha (no_size o') d (no_storageKeys o') None)"

section \<open>The run\<close>

record verifyRun =
  vr_result :: verifyResult
  vr_degraded :: "string list"
  vr_bad :: "string list"

definition manifestsNaming :: "inventory \<Rightarrow> string \<Rightarrow> string list" where
  "manifestsNaming iv sha = (case map_of (inv_named iv) sha of None \<Rightarrow> [] | Some o' \<Rightarrow> no_manifests o')"

definition recordProblem :: "inventory \<Rightarrow> string \<Rightarrow> problem \<Rightarrow> verifyRun \<Rightarrow> verifyRun" where
  "recordProblem iv sha p run =
     (let res = vr_result run
      in \<lparr>vr_result = (case p of Missing \<Rightarrow> res\<lparr>missing := missing res + 1\<rparr>
                          | Mismatched \<Rightarrow> res\<lparr>mismatched := mismatched res + 1\<rparr>)
             \<lparr>bad := (if length (bad res) < VERIFY_BAD_KEPT then bad res @ [sha] else bad res)\<rparr>,
          vr_degraded = uniq (vr_degraded run @ manifestsNaming iv sha),
          vr_bad = vr_bad run @ [sha]\<rparr>)"

definition countObject :: "inventory \<Rightarrow> string \<Rightarrow> problem option \<Rightarrow> verifyRun \<Rightarrow> verifyRun" where
  "countObject iv sha p run =
     (let run' = (case p of None \<Rightarrow> run | Some q \<Rightarrow> recordProblem iv sha q run); res = vr_result run'
      in run'\<lparr>vr_result := res\<lparr>checked := checked res + 1, cursor := Some sha\<rparr>\<rparr>)"

fun verifyBatch ::
  "(rat \<Rightarrow> string) \<Rightarrow> storage \<Rightarrow> inventory \<Rightarrow> verification \<Rightarrow> string list \<Rightarrow> verifyRun \<Rightarrow>
   verifyEffect list \<times> (backupError + verifyRun)" where
  "verifyBatch num st iv d [] run = ([], Inr run)"
| "verifyBatch num st iv d (sha # shas) run =
     (case objectProblem num st iv d sha of
        Inl e \<Rightarrow> ([], Inl e)
      | Inr p \<Rightarrow> (case verifyBatch num st iv d shas (countObject iv sha p run) of
                    (effects, r) \<Rightarrow> (RecordVerification sha d p # effects, r)))"

text \<open>Bad objects are forgotten, in slices, and the manifests found degraded so far are marked.\<close>

definition settleBad :: "string list \<Rightarrow> string list \<Rightarrow> verifyEffect list" where
  "settleBad bads degraded = map ForgetBad (slices FORGET_BATCH bads) @ [MarkDegraded degraded]"

definition degradedNow :: "verifyResult \<Rightarrow> verifyRun \<Rightarrow> verifyResult" where
  "degradedNow start run = (vr_result run)
     \<lparr>degradedManifests := max (degradedManifests start) (length (vr_degraded run)),
      degradedKeys := take VERIFY_BAD_KEPT (vr_degraded run)\<rparr>"

fun verifyBatches ::
  "(rat \<Rightarrow> string) \<Rightarrow> storage \<Rightarrow> inventory \<Rightarrow> verifyResult \<Rightarrow> (verifyResult \<Rightarrow> bool) \<Rightarrow> string list list \<Rightarrow> verifyRun \<Rightarrow>
   verifyEffect list \<times> (backupError + verifyRun option)" where
  "verifyBatches num st iv start checkpoint [] run = ([], Inr (Some run))"
| "verifyBatches num st iv start checkpoint (b # bs) run =
     (case verifyBatch num st iv (depth start) b run of
        (effects, Inl e) \<Rightarrow> (effects, Inl e)
      | (effects, Inr run') \<Rightarrow>
          let res = degradedNow start run'; here = effects @ settleBad (vr_bad run') (vr_degraded run') @ [SaveProgress res]
          in if \<not> checkpoint res then (here, Inr None)
             else case verifyBatches num st iv start checkpoint bs (run'\<lparr>vr_result := res, vr_bad := []\<rparr>) of
                    (rest, r) \<Rightarrow> (here @ rest, r))"

definition dumpFound :: "storage \<Rightarrow> string \<Rightarrow> backupError + bool" where
  "dumpFound st key =
     (case headObject st key of
        Inl (StoreError status code) \<Rightarrow>
          if status = Some 404 \<or> code = Some ''ChecksumMismatch'' then Inr False else Inl (StoreError status code)
      | Inl e \<Rightarrow> Inl e
      | Inr found \<Rightarrow> Inr (found \<noteq> None))"

fun verifyDumps ::
  "storage \<Rightarrow> verifyResult \<Rightarrow> (verifyResult \<Rightarrow> bool) \<Rightarrow> (string \<times> string list) list \<Rightarrow> verifyRun \<Rightarrow>
   verifyEffect list \<times> (backupError + verifyRun option)" where
  "verifyDumps st start checkpoint [] run = ([], Inr (Some run))"
| "verifyDumps st start checkpoint ((key, names) # rest) run =
     (if (case dumpCursor start of None \<Rightarrow> False | Some c \<Rightarrow> c \<noteq> [] \<and> compareCodeUnits key c \<le> 0)
      then verifyDumps st start checkpoint rest run
      else case dumpFound st key of
             Inl e \<Rightarrow> ([], Inl e)
           | Inr found \<Rightarrow>
               let res = vr_result run;
                   run' = (if found then run
                           else run\<lparr>vr_result := res\<lparr>missing := missing res + 1\<rparr>, vr_degraded := uniq (vr_degraded run @ names)\<rparr>);
                   settle = (if found then [] else settleBad [] (vr_degraded run'));
                   counted = (degradedNow start run')\<lparr>checked := checked (vr_result run') + 1, dumpCursor := Some key\<rparr>;
                   here = settle @ [SaveProgress counted]
               in if \<not> checkpoint counted then (here, Inr None)
                  else case verifyDumps st start checkpoint rest (run'\<lparr>vr_result := counted\<rparr>) of
                         (rest', r) \<Rightarrow> (here @ rest', r))"

definition hashesToCheck :: "inventory \<Rightarrow> verifyResult \<Rightarrow> string list" where
  "hashesToCheck iv start =
     toSorted compareCodeUnits
       (filter (\<lambda>sha. depth start = FullPass \<or> inVerifySlice sha (slice start)) (map fst (inv_named iv)))"

definition pendingHashes :: "inventory \<Rightarrow> verifyResult \<Rightarrow> string list" where
  "pendingHashes iv start =
     (case cursor start of
        None \<Rightarrow> hashesToCheck iv start
      | Some c \<Rightarrow> if c = [] then hashesToCheck iv start
                  else filter (\<lambda>sha. compareCodeUnits sha c > 0) (hashesToCheck iv start))"

definition sortedDumps :: "inventory \<Rightarrow> (string \<times> string list) list" where
  "sortedDumps iv = toSorted (\<lambda>a b. compareCodeUnits (fst a) (fst b)) (inv_dumps iv)"

definition verifyStart :: "inventory \<Rightarrow> verifyResult \<Rightarrow> verifyRun" where
  "verifyStart iv start =
     \<lparr>vr_result = start\<lparr>vr_total := length (hashesToCheck iv start) + (if depth start = FullPass then length (inv_dumps iv) else 0)\<rparr>,
      vr_degraded = uniq (degradedKeys start @ inv_unreadable iv), vr_bad = []\<rparr>"

text \<open>The rest of a run once the manifests are read.\<close>

definition verifyNamed ::
  "(rat \<Rightarrow> string) \<Rightarrow> storage \<Rightarrow> inventory \<Rightarrow> verifyResult \<Rightarrow> (verifyResult \<Rightarrow> bool) \<Rightarrow>
   verifyEffect list \<times> (backupError + verifyResult option)" where
  "verifyNamed num st iv start checkpoint =
     (case verifyBatches num st iv start checkpoint (slices MAINTENANCE_BATCH (pendingHashes iv start)) (verifyStart iv start) of
        (effects, Inl e) \<Rightarrow> (effects, Inl e)
      | (effects, Inr None) \<Rightarrow> (effects, Inr None)
      | (effects, Inr (Some run)) \<Rightarrow>
          (case (if depth start = FullPass then verifyDumps st start checkpoint (sortedDumps iv) run else ([], Inr (Some run))) of
             (later, Inl e) \<Rightarrow> (effects @ later, Inl e)
           | (later, Inr None) \<Rightarrow> (effects @ later, Inr None)
           | (later, Inr (Some run')) \<Rightarrow>
               (effects @ later @ settleBad [] (vr_degraded run'),
                Inr (Some ((vr_result run')\<lparr>degradedManifests := max (degradedManifests start) (length (vr_degraded run')),
                                            vr_done := True\<rparr>)))))"

definition verify ::
  "(rat \<Rightarrow> string) \<Rightarrow> storage \<Rightarrow> backupConnection \<Rightarrow> bucketState \<Rightarrow> verifyResult \<Rightarrow> (verifyResult \<Rightarrow> bool) \<Rightarrow>
   verifyEffect list \<times> (backupError + verifyResult option)" where
  "verify num st conn w start checkpoint =
     (case verifyInventory num (fetchManifest st) conn w of
        Inl e \<Rightarrow> ([], Inl e)
      | Inr iv \<Rightarrow> verifyNamed num st iv start checkpoint)"

section \<open>Counting objects\<close>

text \<open>
  The fields a resumed run must agree on: all but the degraded manifests, of which a result keeps a bounded list.
\<close>

definition tallies :: "verifyResult \<Rightarrow> verifyResult" where
  "tallies res = res\<lparr>degradedManifests := 0, degradedKeys := []\<rparr>"

definition problemOf :: "(rat \<Rightarrow> string) \<Rightarrow> storage \<Rightarrow> inventory \<Rightarrow> verification \<Rightarrow> string \<Rightarrow> problem option" where
  "problemOf num st iv d sha = (case objectProblem num st iv d sha of Inr p \<Rightarrow> p | Inl _ \<Rightarrow> None)"

definition tallyObject :: "string \<Rightarrow> problem option \<Rightarrow> verifyResult \<Rightarrow> verifyResult" where
  "tallyObject sha p res = res
     \<lparr>missing := missing res + (if p = Some Missing then 1 else 0),
      mismatched := mismatched res + (if p = Some Mismatched then 1 else 0),
      bad := (if p \<noteq> None \<and> length (bad res) < VERIFY_BAD_KEPT then bad res @ [sha] else bad res),
      checked := checked res + 1, cursor := Some sha\<rparr>"

lemma countObject_tally:
  "vr_result (countObject iv sha p run) = tallyObject sha p (vr_result run)"
  "vr_bad (countObject iv sha p run) = vr_bad run @ (if p = None then [] else [sha])"
  "set (vr_degraded (countObject iv sha p run)) = set (vr_degraded run) \<union> (if p = None then {} else set (manifestsNaming iv sha))"
proof -
  consider "p = None" | "p = Some Missing" | "p = Some Mismatched" by (cases p) (auto, metis problem.exhaust)
  then show "vr_result (countObject iv sha p run) = tallyObject sha p (vr_result run)"
    "vr_bad (countObject iv sha p run) = vr_bad run @ (if p = None then [] else [sha])"
    "set (vr_degraded (countObject iv sha p run)) = set (vr_degraded run) \<union> (if p = None then {} else set (manifestsNaming iv sha))"
    by (cases; simp add: countObject_def recordProblem_def tallyObject_def Let_def)+
qed

lemma tallies_simps [simp]:
  "tallies (tallyObject sha p res) = tallyObject sha p (tallies res)"
  "tallies (degradedNow start run) = tallies (vr_result run)"
  "tallies (tallies res) = tallies res"
  by (simp_all add: tallies_def tallyObject_def degradedNow_def)

definition tallyAll :: "(string \<Rightarrow> problem option) \<Rightarrow> string list \<Rightarrow> verifyResult \<Rightarrow> verifyResult" where
  "tallyAll prob shas res = foldl (\<lambda>r sha. tallyObject sha (prob sha) r) res shas"

lemma tallyAll_append: "tallyAll prob (xs @ ys) res = tallyAll prob ys (tallyAll prob xs res)"
  by (simp add: tallyAll_def)

lemma tallyAll_Cons: "tallyAll prob (x # xs) res = tallyAll prob xs (tallyObject x (prob x) res)"
  by (simp add: tallyAll_def)

lemma tallies_tallyAll [simp]: "tallies (tallyAll prob xs res) = tallyAll prob xs (tallies res)"
  by (induction xs arbitrary: res) (simp_all add: tallyAll_Cons, simp add: tallyAll_def)

lemma tallyAll_fields:
  "checked (tallyAll prob xs res) = checked res + length xs"
  "missing (tallyAll prob xs res) = missing res + length (filter (\<lambda>x. prob x = Some Missing) xs)"
  "mismatched (tallyAll prob xs res) = mismatched res + length (filter (\<lambda>x. prob x = Some Mismatched) xs)"
  "depth (tallyAll prob xs res) = depth res" "slice (tallyAll prob xs res) = slice res"
  "vr_total (tallyAll prob xs res) = vr_total res" "dumpCursor (tallyAll prob xs res) = dumpCursor res"
  "cursor (tallyAll prob xs res) = (if xs = [] then cursor res else Some (last xs))"
  by (induction xs arbitrary: res) (simp_all add: tallyAll_Cons, simp_all add: tallyAll_def tallyObject_def)


text \<open>What a stretch of objects does to a run.\<close>

definition advanced :: "(string \<Rightarrow> problem option) \<Rightarrow> inventory \<Rightarrow> string list \<Rightarrow> verifyRun \<Rightarrow> verifyRun \<Rightarrow> bool" where
  "advanced prob iv shas run run' \<longleftrightarrow>
     tallies (vr_result run') = tallyAll prob shas (tallies (vr_result run)) \<and>
     set (vr_degraded run') = set (vr_degraded run) \<union> (\<Union>sha \<in> {sha \<in> set shas. prob sha \<noteq> None}. set (manifestsNaming iv sha))"

lemma advanced_append: "advanced prob iv xs run run' \<Longrightarrow> advanced prob iv ys run' run'' \<Longrightarrow> advanced prob iv (xs @ ys) run run''"
  by (auto simp: advanced_def tallyAll_append)

lemma advanced_Nil: "advanced prob iv [] run run"
  by (simp add: advanced_def tallyAll_def)

lemma advanced_one: "advanced prob iv [sha] run (countObject iv sha (prob sha) run)"
  by (auto simp: advanced_def countObject_tally tallyAll_def)

lemma verifyBatch_run:
  "verifyBatch num st iv d shas run = (effects, Inr run') \<Longrightarrow>
     advanced (problemOf num st iv d) iv shas run run' \<and>
     vr_bad run' = vr_bad run @ filter (\<lambda>sha. problemOf num st iv d sha \<noteq> None) shas"
proof (induction shas arbitrary: run effects)
  case Nil
  then show ?case by (simp add: advanced_Nil)
next
  case (Cons sha shas)
  then obtain p es where p: "objectProblem num st iv d sha = Inr p"
      and rec: "verifyBatch num st iv d shas (countObject iv sha p run) = (es, Inr run')"
    by (auto split: sum.splits prod.splits)
  have prob: "problemOf num st iv d sha = p" by (simp add: problemOf_def p)
  note ih = Cons.IH [OF rec]
  have "advanced (problemOf num st iv d) iv ([sha] @ shas) run run'"
    using advanced_append [OF advanced_one [of "problemOf num st iv d" iv sha run, unfolded prob] conjunct1 [OF ih]] .
  moreover have "vr_bad run' = vr_bad run @ filter (\<lambda>sha. problemOf num st iv d sha \<noteq> None) (sha # shas)"
    using ih by (simp add: countObject_tally prob)
  ultimately show ?case by simp
qed

lemma verifyBatch_effects: "fst (verifyBatch num st iv d shas run) = es \<Longrightarrow> SaveProgress s \<notin> set es \<and> ForgetBad hs \<notin> set es"
  by (induction shas arbitrary: run es) (auto split: sum.splits prod.splits, (metis fst_conv)+)

lemma settleBad_forgets: "\<Union>{set hs |hs. ForgetBad hs \<in> set (settleBad bads degraded)} = set bads"
proof -
  have "\<Union>{set hs |hs. ForgetBad hs \<in> set (settleBad bads degraded)} = set (concat (slices FORGET_BATCH bads))"
    by (auto simp: settleBad_def)
  then show ?thesis by (simp add: concat_slices FORGET_BATCH_def)
qed

text \<open>The batches: what a complete run of them does, and where a saved result stands.\<close>

definition forgotten :: "verifyEffect list \<Rightarrow> string set" where
  "forgotten effects = \<Union>{set hs |hs. ForgetBad hs \<in> set effects}"

lemma forgotten_append: "forgotten (xs @ ys) = forgotten xs \<union> forgotten ys"
  by (auto simp: forgotten_def)

lemma verifyBatches_complete:
  "verifyBatches num st iv start checkpoint bs run = (effects, Inr (Some run')) \<Longrightarrow> vr_bad run = [] \<Longrightarrow>
     advanced (problemOf num st iv (depth start)) iv (concat bs) run run' \<and> vr_bad run' = [] \<and>
     {sha \<in> set (concat bs). problemOf num st iv (depth start) sha \<noteq> None} \<subseteq> forgotten effects"
proof (induction bs arbitrary: run effects)
  case Nil
  then show ?case by (simp add: advanced_Nil)
next
  case (Cons b bs)
  obtain es r1 where b: "verifyBatch num st iv (depth start) b run = (es, Inr r1)"
    using Cons.prems(1) by (auto split: prod.splits sum.splits)
  define r2 where "r2 = r1\<lparr>vr_result := degradedNow start r1, vr_bad := []\<rparr>"
  obtain rest where rec: "verifyBatches num st iv start checkpoint bs r2 = (rest, Inr (Some run'))"
    and effects: "effects = (es @ settleBad (vr_bad r1) (vr_degraded r1) @ [SaveProgress (degradedNow start r1)]) @ rest"
    using Cons.prems(1) b by (auto simp: Let_def r2_def split: prod.splits if_splits)
  note one = verifyBatch_run [OF b] and ih = Cons.IH [OF rec]
  have "vr_bad r2 = []" by (simp add: r2_def)
  note ih = ih [OF this]
  have "advanced (problemOf num st iv (depth start)) iv b run r2"
    using one by (simp add: advanced_def r2_def)
  then have "advanced (problemOf num st iv (depth start)) iv (b @ concat bs) run run'"
    using ih advanced_append by blast
  moreover have "forgotten (settleBad (vr_bad r1) (vr_degraded r1)) = set (vr_bad r1)"
    by (simp add: forgotten_def settleBad_forgets)
  then have "{sha \<in> set b. problemOf num st iv (depth start) sha \<noteq> None} \<subseteq> forgotten effects"
    unfolding effects forgotten_append using one by auto
  moreover have "{sha \<in> set (concat bs). problemOf num st iv (depth start) sha \<noteq> None} \<subseteq> forgotten effects"
    unfolding effects forgotten_append using ih by blast
  ultimately show ?case using ih by auto
qed

lemma verifyBatches_saved:
  "verifyBatches num st iv start checkpoint bs run = (effects, out) \<Longrightarrow> vr_bad run = [] \<Longrightarrow> SaveProgress s \<in> set effects \<Longrightarrow>
     [] \<notin> set bs \<Longrightarrow>
     \<exists>xs ys. concat bs = xs @ ys \<and> xs \<noteq> [] \<and> tallies s = tallyAll (problemOf num st iv (depth start)) xs (tallies (vr_result run))"
proof (induction bs arbitrary: run effects)
  case Nil
  then show ?case by simp
next
  case (Cons b bs)
  obtain es o1 where b: "verifyBatch num st iv (depth start) b run = (es, o1)" by fastforce
  have es: "SaveProgress s \<notin> set es" using verifyBatch_effects [of num st iv "depth start" b run es s] b by simp
  then obtain r1 where o1: "o1 = Inr r1" using Cons.prems(1,3) b by (cases o1) auto
  define r2 where "r2 = r1\<lparr>vr_result := degradedNow start r1, vr_bad := []\<rparr>"
  have one: "advanced (problemOf num st iv (depth start)) iv b run r2"
    using verifyBatch_run b o1 by (fastforce simp: advanced_def r2_def)
  have here: "SaveProgress s \<in> set (es @ settleBad (vr_bad r1) (vr_degraded r1) @ [SaveProgress (degradedNow start r1)]) \<Longrightarrow>
      s = degradedNow start r1" using es by (auto simp: settleBad_def)
  show ?case
  proof (cases "s = degradedNow start r1")
    case True
    then have "tallies s = tallyAll (problemOf num st iv (depth start)) b (tallies (vr_result run))"
      using one by (simp add: advanced_def r2_def)
    moreover have "b \<noteq> []" using Cons.prems(4) by auto
    ultimately show ?thesis by (intro exI [of _ b] exI [of _ "concat bs"]) simp
  next
    case False
    then obtain rest where rec: "verifyBatches num st iv start checkpoint bs r2 = (rest, out)" and s: "SaveProgress s \<in> set rest"
      using Cons.prems(1,3) b o1 here by (auto simp: Let_def r2_def split: prod.splits if_splits)
    obtain xs ys where "concat bs = xs @ ys" "xs \<noteq> []"
        "tallies s = tallyAll (problemOf num st iv (depth start)) xs (tallies (vr_result r2))"
      using Cons.IH [OF rec _ s] Cons.prems(4) by (auto simp: r2_def)
    moreover have "tallies (vr_result r2) = tallyAll (problemOf num st iv (depth start)) b (tallies (vr_result run))"
      using one by (simp add: advanced_def)
    ultimately show ?thesis
      by (intro exI [of _ "b @ xs"] exI [of _ ys]) (simp add: tallyAll_append)
  qed
qed

section \<open>Counting dumps\<close>

definition foundOf :: "storage \<Rightarrow> string \<Rightarrow> bool" where
  "foundOf st key = (case dumpFound st key of Inr b \<Rightarrow> b | Inl _ \<Rightarrow> True)"

definition tallyDump :: "storage \<Rightarrow> verifyResult \<Rightarrow> string \<Rightarrow> verifyResult" where
  "tallyDump st res key = res\<lparr>missing := missing res + (if foundOf st key then 0 else 1), checked := checked res + 1,
     dumpCursor := Some key\<rparr>"

definition afterCursor :: "string option \<Rightarrow> string \<Rightarrow> bool" where
  "afterCursor c key \<longleftrightarrow> (case c of None \<Rightarrow> True | Some k \<Rightarrow> k = [] \<or> compareCodeUnits key k > 0)"

lemma tallies_tallyDump [simp]: "tallies (tallyDump st res key) = tallyDump st (tallies res) key"
  by (simp add: tallies_def tallyDump_def)

lemma tallies_foldDump [simp]: "tallies (foldl (tallyDump st) res keys) = foldl (tallyDump st) (tallies res) keys"
  by (induction keys arbitrary: res) simp_all

lemma foldDump_fields:
  "checked (foldl (tallyDump st) res keys) = checked res + length keys"
  "missing (foldl (tallyDump st) res keys) = missing res + length (filter (\<lambda>k. \<not> foundOf st k) keys)"
  "mismatched (foldl (tallyDump st) res keys) = mismatched res" "depth (foldl (tallyDump st) res keys) = depth res"
  "slice (foldl (tallyDump st) res keys) = slice res" "vr_total (foldl (tallyDump st) res keys) = vr_total res"
  "cursor (foldl (tallyDump st) res keys) = cursor res" "bad (foldl (tallyDump st) res keys) = bad res"
  "dumpCursor (foldl (tallyDump st) res keys) = (if keys = [] then dumpCursor res else Some (last keys))"
  by (induction keys arbitrary: res) (simp_all add: tallyDump_def)

text \<open>One dump past the cursor: what is settled, counted and saved.\<close>

definition dumpStep :: "storage \<Rightarrow> verifyResult \<Rightarrow> string \<Rightarrow> string list \<Rightarrow> verifyRun \<Rightarrow> verifyEffect list \<times> verifyRun" where
  "dumpStep st start key names run =
     (let run' = (if foundOf st key then run
                  else run\<lparr>vr_result := (vr_result run)\<lparr>missing := missing (vr_result run) + 1\<rparr>,
                           vr_degraded := uniq (vr_degraded run @ names)\<rparr>);
          counted = (degradedNow start run')\<lparr>checked := checked (vr_result run') + 1, dumpCursor := Some key\<rparr>
      in ((if foundOf st key then [] else settleBad [] (vr_degraded run')) @ [SaveProgress counted], run'\<lparr>vr_result := counted\<rparr>))"

lemma verifyDumps_step:
  assumes "afterCursor (dumpCursor start) key" and "dumpFound st key = Inr b"
  shows "verifyDumps st start checkpoint ((key, names) # ds) run =
     (case dumpStep st start key names run of
        (here, run') \<Rightarrow> if \<not> checkpoint (vr_result run') then (here, Inr None)
          else case verifyDumps st start checkpoint ds run' of (rest, r) \<Rightarrow> (here @ rest, r))"
proof -
  have "\<not> (case dumpCursor start of None \<Rightarrow> False | Some c \<Rightarrow> c \<noteq> [] \<and> compareCodeUnits key c \<le> 0)"
    using assms(1) by (auto simp: afterCursor_def split: option.splits)
  moreover have "foundOf st key = b" by (simp add: foundOf_def assms(2))
  ultimately show ?thesis using assms(2) by (simp add: dumpStep_def Let_def)
qed

lemma dumpStep_tally:
  assumes "dumpStep st start key names run = (here, run')"
  shows "tallies (vr_result run') = tallyDump st (tallies (vr_result run)) key"
    and "set (vr_degraded run') = set (vr_degraded run) \<union> (if foundOf st key then {} else set names)"
    and "SaveProgress s \<in> set here \<Longrightarrow> s = vr_result run'"
  using assms by (auto simp: dumpStep_def Let_def tallies_def tallyDump_def degradedNow_def settleBad_def slices.simps [of _ "[]"])

lemma verifyDumps_skip:
  "\<not> afterCursor (dumpCursor start) key \<Longrightarrow> verifyDumps st start checkpoint ((key, names) # ds) run = verifyDumps st start checkpoint ds run"
  by (auto simp: afterCursor_def split: option.splits)

lemma verifyDumps_complete:
  "verifyDumps st start checkpoint ds run = (effects, Inr (Some run')) \<Longrightarrow>
     tallies (vr_result run') = foldl (tallyDump st) (tallies (vr_result run)) (filter (afterCursor (dumpCursor start)) (map fst ds)) \<and>
     set (vr_degraded run') = set (vr_degraded run) \<union>
       (\<Union>(key, names) \<in> {(k, ns) \<in> set ds. afterCursor (dumpCursor start) k \<and> \<not> foundOf st k}. set names)"
proof (induction ds arbitrary: run effects)
  case Nil
  then show ?case by simp
next
  case (Cons d ds)
  obtain key names where d: "d = (key, names)" by fastforce
  show ?case
  proof (cases "afterCursor (dumpCursor start) key")
    case False
    then show ?thesis using Cons.IH [of run effects] Cons.prems by (simp add: d verifyDumps_skip del: verifyDumps.simps) blast
  next
    case True
    obtain b where b: "dumpFound st key = Inr b"
      using Cons.prems True by (cases "dumpFound st key") (auto simp: d afterCursor_def split: option.splits)
    obtain here r1 where st: "dumpStep st start key names run = (here, r1)" by fastforce
    obtain rest where rec: "verifyDumps st start checkpoint ds r1 = (rest, Inr (Some run'))"
      using Cons.prems by (auto simp: d verifyDumps_step [OF True b] st split: if_splits prod.splits simp del: verifyDumps.simps)
    note tally = dumpStep_tally [OF st] and ih = Cons.IH [OF rec]
    have "set (vr_degraded run') = set (vr_degraded run) \<union>
       (\<Union>(key, names) \<in> {(k, ns) \<in> set (d # ds). afterCursor (dumpCursor start) k \<and> \<not> foundOf st k}. set names)"
      using ih tally(2) True by (auto simp: d split: if_splits)
    then show ?thesis using ih tally(1) True by (simp add: d)
  qed
qed

lemma verifyDumps_saved:
  "verifyDumps st start checkpoint ds run = (effects, out) \<Longrightarrow> SaveProgress s \<in> set effects \<Longrightarrow>
     \<exists>xs ys. filter (afterCursor (dumpCursor start)) (map fst ds) = xs @ ys \<and> xs \<noteq> [] \<and>
       tallies s = foldl (tallyDump st) (tallies (vr_result run)) xs"
proof (induction ds arbitrary: run effects)
  case Nil
  then show ?case by simp
next
  case (Cons d ds)
  obtain key names where d: "d = (key, names)" by fastforce
  show ?case
  proof (cases "afterCursor (dumpCursor start) key")
    case False
    then show ?thesis using Cons.IH [of run effects] Cons.prems by (simp add: d verifyDumps_skip del: verifyDumps.simps)
  next
    case True
    obtain b where b: "dumpFound st key = Inr b"
      using Cons.prems True by (cases "dumpFound st key") (auto simp: d afterCursor_def split: option.splits)
    obtain here r1 where st: "dumpStep st start key names run = (here, r1)" by fastforce
    note tally = dumpStep_tally [OF st]
    show ?thesis
    proof (cases "SaveProgress s \<in> set here")
      case True': True
      then have "tallies s = tallyDump st (tallies (vr_result run)) key" using tally by simp
      then show ?thesis using True
        by (intro exI [of _ "[key]"] exI [of _ "filter (afterCursor (dumpCursor start)) (map fst ds)"]) (simp add: d)
    next
      case False
      obtain rest where rec: "verifyDumps st start checkpoint ds r1 = (rest, out)" and s: "SaveProgress s \<in> set rest"
        using Cons.prems False
        by (auto simp: d verifyDumps_step [OF True b] st split: if_splits prod.splits simp del: verifyDumps.simps)
      obtain xs ys where "filter (afterCursor (dumpCursor start)) (map fst ds) = xs @ ys" "xs \<noteq> []"
          "tallies s = foldl (tallyDump st) (tallies (vr_result r1)) xs"
        using Cons.IH [OF rec s] by blast
      then show ?thesis using True tally(1) by (intro exI [of _ "key # xs"] exI [of _ ys]) (simp add: d)
    qed
  qed
qed

section \<open>Resuming\<close>

text \<open>Names in order, taken up again after the last one done.\<close>

lemma afterCursor_last:
  assumes "sorted_wrt (\<lambda>a b. compareCodeUnits a b \<le> 0) names" and "distinct names" and "[] \<notin> set names"
    and "filter (afterCursor c) names = xs @ ys" and "xs \<noteq> []"
  shows "filter (afterCursor (Some (last xs))) names = ys"
proof -
  define l where "l = last xs"
  have xs: "xs = butlast xs @ [l]" using assms(5) by (simp add: l_def)
  have f: "filter (afterCursor c) names = butlast xs @ [l] @ ys" using assms(4) xs by (metis append.assoc)
  have "l \<in> set (filter (afterCursor c) names)" unfolding assms(4) using assms(5) by (simp add: l_def)
  then have l: "l \<noteq> []" "afterCursor c l" using assms(3) by auto
  have trans: "afterCursor c k" if "compareCodeUnits k l > 0" for k
    using that l(2) codeUnits.cmp_trans [of l k] codeUnits.cmp_total codeUnits.cmp_trans
    by (cases c) (auto simp: afterCursor_def, meson codeUnits.cmp_total codeUnits.cmp_trans not_less)
  have "filter (afterCursor (Some l)) names = filter (\<lambda>k. compareCodeUnits k l > 0) (filter (afterCursor c) names)"
    using l(1) trans by (auto simp: afterCursor_def intro!: filter_cong)
  also have "\<dots> = filter (\<lambda>k. compareCodeUnits k l > 0) (butlast xs @ [l] @ ys)" by (simp only: f)
  also have "\<dots> = ys"
  proof -
    have "sorted_wrt (\<lambda>a b. compareCodeUnits a b \<le> 0) (butlast xs @ [l] @ ys)" "distinct (butlast xs @ [l] @ ys)"
      using sorted_wrt_filter [OF assms(1), of "afterCursor c"] distinct_filter [OF assms(2), of "afterCursor c"]
      unfolding f by simp_all
    then have "\<forall>x \<in> set (butlast xs). compareCodeUnits x l \<le> 0" "\<forall>y \<in> set ys. compareCodeUnits y l > 0"
      using codeUnits.cmp_antisym by (auto simp: sorted_wrt_append) (metis not_le)
    moreover have "\<not> compareCodeUnits l l > 0" using codeUnits.cmp_total [of l l] by simp
    ultimately show ?thesis by (auto simp: filter_empty_conv filter_id_conv)
  qed
  finally show ?thesis by (simp add: l_def)
qed

lemma pendingHashes_alt: "pendingHashes iv start = filter (afterCursor (cursor start)) (hashesToCheck iv start)"
  by (auto simp: pendingHashes_def afterCursor_def split: option.splits intro!: filter_cong)

lemma hashesToCheck_cong: "depth a = depth b \<Longrightarrow> slice a = slice b \<Longrightarrow> hashesToCheck iv a = hashesToCheck iv b"
  by (simp add: hashesToCheck_def)

definition pendingDumps :: "inventory \<Rightarrow> verifyResult \<Rightarrow> string list" where
  "pendingDumps iv start = (if depth start = FullPass then filter (afterCursor (dumpCursor start)) (map fst (sortedDumps iv)) else [])"

lemma insertBy_fst:
  "map fst (insertBy (\<lambda>a b. cmp (fst a) (fst b)) x xs) = insertBy cmp (fst x) (map fst xs)"
  by (induction xs) auto

lemma toSorted_fst: "map fst (toSorted (\<lambda>a b. cmp (fst a) (fst b)) xs) = toSorted cmp (map fst xs)"
  by (induction xs) (simp_all add: toSorted_def insertBy_fst)

lemma sortedDumps_keys: "map fst (sortedDumps iv) = toSorted compareCodeUnits (map fst (inv_dumps iv))"
  unfolding sortedDumps_def by (rule toSorted_fst)

text \<open>What the manifests name has distinct, nonempty names.\<close>

definition namesOk :: "inventory \<Rightarrow> bool" where
  "namesOk iv \<longleftrightarrow> distinct (map fst (inv_named iv)) \<and> [] \<notin> set (map fst (inv_named iv)) \<and>
     distinct (map fst (inv_dumps iv)) \<and> [] \<notin> set (map fst (inv_dumps iv))"

lemma addReferences_objects:
  "addReferences fs r = Inr r' \<Longrightarrow> fst ` set (ref_objects r') \<subseteq> fst ` set (ref_objects r) \<union> mf_sha256 ` set fs"
proof (induction fs arbitrary: r)
  case (Cons f fs)
  then obtain r1 where r1: "addReference f r = Inr r1" "addReferences fs r1 = Inr r'" by (auto simp: res_simps)
  have "ref_objects r1 = AList.update (mf_sha256 f) (mf_size f) (ref_objects r)"
    using r1(1) by (auto simp: addReference_def res_simps Let_def)
  then have "fst ` set (ref_objects r1) = insert (mf_sha256 f) (fst ` set (ref_objects r))"
    by (simp add: dom_update)
  then show ?case using Cons.IH [OF r1(2)] by auto
qed simp

lemma readReferences_named:
  assumes "readReferences num fetch key = Inr refs" and "sha \<in> fst ` set (ref_objects refs)"
  shows "sha \<noteq> []"
proof -
  obtain body m where m: "readManifest num body = Inr m" "manifestReferences m = Inr refs"
    using assms(1) by (auto simp: readReferences_def res_simps)
  then have "sha \<in> mf_sha256 ` set (manifestFiles m)"
    using addReferences_objects [OF m(2) [unfolded manifestReferences_def]] assms(2) by auto
  then have "isSha256Hex sha" using manifest_file_ok(1) [OF m(1)] by auto
  then show ?thesis by (auto simp: isSha256Hex_def)
qed

lemma nameObject_keys:
  assumes "distinct (map fst named)"
  shows "distinct (map fst (nameObject key refs named entry))"
    and "fst ` set (nameObject key refs named entry) = insert (fst entry) (fst ` set named)"
  using assms by (auto simp: nameObject_def Let_def dom_update distinct_update split: option.splits)

lemma nameObjects_keys:
  assumes "distinct (map fst named)"
  shows "distinct (map fst (foldl (nameObject key refs) named es)) \<and>
    fst ` set (foldl (nameObject key refs) named es) = fst ` set es \<union> fst ` set named"
  using assms
proof (induction es arbitrary: named)
  case (Cons e es)
  then show ?case using nameObject_keys [OF Cons.prems, of key refs e] by auto
qed simp

lemma readInventory_ok: "readInventory num fetch keys iv = Inr iv' \<Longrightarrow> namesOk iv \<Longrightarrow> namesOk iv'"
proof (induction num fetch keys iv rule: readInventory.induct)
  case (2 num fetch key keys iv)
  show ?case
  proof (cases "manifestTime key = None")
    case True
    then show ?thesis using 2(1) 2(4,5) by simp
  next
    case False
    show ?thesis
    proof (cases "readReferences num fetch key")
      case (Inl e)
      then show ?thesis using 2(2) [OF False Inl] 2(4,5) False by (auto simp: namesOk_def split: if_splits)
    next
      case (Inr refs)
      have "distinct (map fst (nameDump key (ref_database refs) (inv_dumps iv)))"
        "[] \<notin> set (map fst (nameDump key (ref_database refs) (inv_dumps iv)))"
        using 2(5) by (auto simp: namesOk_def nameDump_def dom_update distinct_update split: option.splits)
      moreover have "[] \<notin> fst ` set (ref_objects refs)" using readReferences_named [OF Inr] by blast
      ultimately have "namesOk (iv\<lparr>inv_named := foldl (nameObject key refs) (inv_named iv) (ref_objects refs),
                    inv_dumps := nameDump key (ref_database refs) (inv_dumps iv)\<rparr>)"
        using 2(5) nameObjects_keys [of "inv_named iv" key refs "ref_objects refs"] by (auto simp: namesOk_def)
      then show ?thesis using 2(3) [OF False Inr] 2(4) False Inr by simp
    qed
  qed
qed simp

lemma verifyInventory_ok: "verifyInventory num fetch conn w = Inr iv \<Longrightarrow> namesOk iv"
  unfolding verifyInventory_def Let_def by (erule readInventory_ok) (simp add: namesOk_def)

text \<open>A complete run, and a result it saved on the way.\<close>

definition counted :: "(rat \<Rightarrow> string) \<Rightarrow> storage \<Rightarrow> inventory \<Rightarrow> verifyResult \<Rightarrow> verifyResult" where
  "counted num st iv start =
     foldl (tallyDump st) (tallyAll (problemOf num st iv (depth start)) (pendingHashes iv start) (tallies (vr_result (verifyStart iv start))))
       (pendingDumps iv start)"

lemma verifyNamed_complete:
  assumes "verifyNamed num st iv start checkpoint = (effects, Inr (Some res))"
  shows "tallies res = (counted num st iv start)\<lparr>vr_done := True\<rparr>"
    and "sha \<in> set (pendingHashes iv start) \<Longrightarrow> problemOf num st iv (depth start) sha \<noteq> None \<Longrightarrow>
      sha \<in> forgotten effects \<and> (\<exists>keys. MarkDegraded keys \<in> set effects \<and> set (manifestsNaming iv sha) \<subseteq> set keys)"
proof -
  obtain es run where b: "verifyBatches num st iv start checkpoint (slices MAINTENANCE_BATCH (pendingHashes iv start)) (verifyStart iv start)
      = (es, Inr (Some run))"
    using assms by (auto simp: verifyNamed_def split: prod.splits sum.splits option.splits)
  have "concat (slices MAINTENANCE_BATCH (pendingHashes iv start)) = pendingHashes iv start"
    by (rule concat_slices) (simp add: MAINTENANCE_BATCH_def)
  note bs = verifyBatches_complete [OF b, unfolded this]
  have bs: "advanced (problemOf num st iv (depth start)) iv (pendingHashes iv start) (verifyStart iv start) run"
    "{sha \<in> set (pendingHashes iv start). problemOf num st iv (depth start) sha \<noteq> None} \<subseteq> forgotten es"
    using bs by (simp_all add: verifyStart_def)
  obtain later run' where d: "(if depth start = FullPass then verifyDumps st start checkpoint (sortedDumps iv) run else ([], Inr (Some run)))
      = (later, Inr (Some run'))"
    and effects: "effects = es @ later @ settleBad [] (vr_degraded run')"
    and res: "res = (vr_result run')\<lparr>degradedManifests := max (degradedManifests start) (length (vr_degraded run')), vr_done := True\<rparr>"
    using assms b by (auto simp: verifyNamed_def split: prod.splits sum.splits option.splits)
  have "tallies (vr_result run') = foldl (tallyDump st) (tallies (vr_result run)) (pendingDumps iv start)"
    and deg: "set (vr_degraded run) \<subseteq> set (vr_degraded run')"
    using d verifyDumps_complete [of st start checkpoint "sortedDumps iv" run later run']
    by (auto simp: pendingDumps_def split: if_splits)
  then have "tallies (vr_result run') = counted num st iv start"
    using bs(1) by (simp add: counted_def advanced_def)
  moreover have "tallies res = (tallies (vr_result run'))\<lparr>vr_done := True\<rparr>" by (simp add: res tallies_def)
  ultimately show "tallies res = (counted num st iv start)\<lparr>vr_done := True\<rparr>" by simp
  assume sha: "sha \<in> set (pendingHashes iv start)" "problemOf num st iv (depth start) sha \<noteq> None"
  then have "set (manifestsNaming iv sha) \<subseteq> set (vr_degraded run')"
    using bs(1) deg unfolding advanced_def by blast
  moreover have "MarkDegraded (vr_degraded run') \<in> set effects" by (simp add: effects settleBad_def)
  moreover have "sha \<in> forgotten effects" using sha bs(2) by (auto simp: effects forgotten_append)
  ultimately show "sha \<in> forgotten effects \<and> (\<exists>keys. MarkDegraded keys \<in> set effects \<and> set (manifestsNaming iv sha) \<subseteq> set keys)"
    by blast
qed

lemma verifyNamed_saved:
  assumes "verifyNamed num st iv start checkpoint = (effects, out)" and "SaveProgress s \<in> set effects"
  defines "begin' \<equiv> tallies (vr_result (verifyStart iv start))" and "prob \<equiv> problemOf num st iv (depth start)"
  shows "(\<exists>xs ys. pendingHashes iv start = xs @ ys \<and> xs \<noteq> [] \<and> tallies s = tallyAll prob xs begin') \<or>
    (\<exists>xs ys. pendingDumps iv start = xs @ ys \<and> xs \<noteq> [] \<and>
       tallies s = foldl (tallyDump st) (tallyAll prob (pendingHashes iv start) begin') xs)"
proof -
  obtain es o1 where b: "verifyBatches num st iv start checkpoint (slices MAINTENANCE_BATCH (pendingHashes iv start)) (verifyStart iv start)
      = (es, o1)" by fastforce
  have cat: "concat (slices MAINTENANCE_BATCH (pendingHashes iv start)) = pendingHashes iv start"
    and non: "[] \<notin> set (slices MAINTENANCE_BATCH (pendingHashes iv start))"
    by (rule concat_slices, simp add: MAINTENANCE_BATCH_def, rule slices_nonempty, simp add: MAINTENANCE_BATCH_def)
  have bad: "vr_bad (verifyStart iv start) = []" by (simp add: verifyStart_def)
  show ?thesis
  proof (cases "SaveProgress s \<in> set es")
    case True
    from verifyBatches_saved [OF b bad True non, unfolded cat] show ?thesis unfolding begin'_def prob_def by blast
  next
    case False
    obtain run where o1: "o1 = Inr (Some run)"
      using assms(1,2) b False by (cases o1; cases "projr o1") (auto simp: verifyNamed_def)
    obtain later o2 where d: "(if depth start = FullPass then verifyDumps st start checkpoint (sortedDumps iv) run else ([], Inr (Some run)))
      = (later, o2)" by fastforce
    have "SaveProgress s \<in> set later"
      using assms(1,2) b o1 False d
      by (auto simp: verifyNamed_def settleBad_def slices.simps [of _ "[]"] split: sum.splits option.splits)
    then have "depth start = FullPass" and v: "verifyDumps st start checkpoint (sortedDumps iv) run = (later, o2)"
      using d by (auto split: if_splits)
    moreover have "tallies (vr_result run) = tallyAll prob (pendingHashes iv start) begin'"
      using verifyBatches_complete [OF b [unfolded o1] bad, unfolded cat] by (simp add: advanced_def begin'_def prob_def)
    ultimately show ?thesis
      using verifyDumps_saved [OF v \<open>SaveProgress s \<in> set later\<close>] by (simp add: pendingDumps_def)
  qed
qed

lemma hashes_sorted:
  assumes "namesOk iv"
  shows "sorted_wrt (\<lambda>a b. compareCodeUnits a b \<le> 0) (hashesToCheck iv start)" "distinct (hashesToCheck iv start)"
    "[] \<notin> set (hashesToCheck iv start)"
  using assms
  by (auto simp: hashesToCheck_def codeUnits.sorted_toSorted codeUnits.set_toSorted namesOk_def distinct_filter
      mset_eq_imp_distinct_iff [OF codeUnits.mset_toSorted])

lemma dumps_sorted:
  assumes "namesOk iv"
  shows "sorted_wrt (\<lambda>a b. compareCodeUnits a b \<le> 0) (map fst (sortedDumps iv))" "distinct (map fst (sortedDumps iv))"
    "[] \<notin> set (map fst (sortedDumps iv))"
  using assms unfolding sortedDumps_keys
  by (auto simp: codeUnits.sorted_toSorted codeUnits.set_toSorted namesOk_def
      mset_eq_imp_distinct_iff [OF codeUnits.mset_toSorted])

text \<open>The fields of a result through its tallies.\<close>

lemma tallies_fields:
  "depth (tallies r) = depth r" "slice (tallies r) = slice r" "cursor (tallies r) = cursor r"
  "dumpCursor (tallies r) = dumpCursor r" "vr_total (tallies r) = vr_total r" "checked (tallies r) = checked r"
  "missing (tallies r) = missing r" "mismatched (tallies r) = mismatched r" "bad (tallies r) = bad r"
  by (simp_all add: tallies_def)

lemma verifyStart_fields:
  "depth (vr_result (verifyStart iv start)) = depth start" "slice (vr_result (verifyStart iv start)) = slice start"
  "cursor (vr_result (verifyStart iv start)) = cursor start" "dumpCursor (vr_result (verifyStart iv start)) = dumpCursor start"
  "vr_total (vr_result (verifyStart iv start)) =
     length (hashesToCheck iv start) + (if depth start = FullPass then length (inv_dumps iv) else 0)"
  by (simp_all add: verifyStart_def)

lemma verifyStart_same:
  assumes "depth s = depth start" "slice s = slice start" "vr_total s = vr_total (vr_result (verifyStart iv start))"
  shows "tallies (vr_result (verifyStart iv s)) = tallies s"
  using assms hashesToCheck_cong [OF assms(1,2), of iv] by (simp add: verifyStart_def tallies_def)

lemma saved_scope:
  assumes "verifyNamed num st iv start checkpoint = (effects, out)" and "SaveProgress s \<in> set effects"
  shows "depth s = depth start \<and> slice s = slice start"
proof -
  note start = tallies_fields(1,2) [of "vr_result (verifyStart iv start)"]
  show ?thesis
    using verifyNamed_saved [OF assms] tallies_fields(1,2) [of s]
    by (elim disjE exE conjE) (simp_all add: tallyAll_fields foldDump_fields start verifyStart_fields)
qed

lemma counted_resume:
  assumes ok: "namesOk iv" and "verifyNamed num st iv start checkpoint = (effects, out)" and "SaveProgress s \<in> set effects"
  shows "counted num st iv s = counted num st iv start"
proof -
  define prob where "prob = problemOf num st iv (depth start)"
  define b where "b = tallies (vr_result (verifyStart iv start))"
  have fields: "depth b = depth start" "slice b = slice start" "cursor b = cursor start" "dumpCursor b = dumpCursor start"
    "vr_total b = vr_total (vr_result (verifyStart iv start))"
    by (simp_all add: b_def tallies_fields verifyStart_fields)
  consider (hashes) xs ys where "pendingHashes iv start = xs @ ys" "xs \<noteq> []" "tallies s = tallyAll prob xs b"
    | (dumps) xs ys where "pendingDumps iv start = xs @ ys" "xs \<noteq> []"
        "tallies s = foldl (tallyDump st) (tallyAll prob (pendingHashes iv start) b) xs"
    using verifyNamed_saved [OF assms(2,3)] unfolding prob_def b_def by blast
  then show ?thesis
  proof cases
    case hashes
    have s: "depth s = depth start" "slice s = slice start" "vr_total s = vr_total (vr_result (verifyStart iv start))"
      "cursor s = Some (last xs)" "dumpCursor s = dumpCursor start"
      using tallies_fields(1-5) [of s] hashes(2,3) fields by (simp_all add: tallyAll_fields)
    have "pendingHashes iv s = ys"
      using afterCursor_last [OF hashes_sorted [OF ok, of start]] hashes(1,2) s(4)
      unfolding pendingHashes_alt hashesToCheck_cong [OF s(1,2)] by metis
    moreover have "pendingDumps iv s = pendingDumps iv start" by (simp add: pendingDumps_def s)
    ultimately show ?thesis
      unfolding counted_def verifyStart_same [OF s(1-3)] s(1) prob_def [symmetric] b_def [symmetric]
      by (simp add: hashes(1,3) tallyAll_append)
  next
    case dumps
    have s: "depth s = depth start" "slice s = slice start" "vr_total s = vr_total (vr_result (verifyStart iv start))"
      "cursor s = (if pendingHashes iv start = [] then cursor start else Some (last (pendingHashes iv start)))"
      "dumpCursor s = Some (last xs)"
      using tallies_fields(1-5) [of s] dumps(2,3) fields by (auto simp: tallyAll_fields foldDump_fields)
    have "pendingHashes iv s = []"
    proof (cases "pendingHashes iv start = []")
      case True
      then show ?thesis using s(4) by (simp add: pendingHashes_alt hashesToCheck_cong [OF s(1,2)])
    next
      case False
      then show ?thesis
        using afterCursor_last [OF hashes_sorted [OF ok, of start], of "cursor start" "pendingHashes iv start" "[]"] s(4)
        by (simp add: pendingHashes_alt hashesToCheck_cong [OF s(1,2)])
    qed
    moreover have "depth start = FullPass" using dumps(1,2) by (auto simp: pendingDumps_def split: if_splits)
    then have "pendingDumps iv s = ys"
      using afterCursor_last [OF dumps_sorted [OF ok]] dumps(1,2) s(1,5) by (simp add: pendingDumps_def)
    ultimately show ?thesis
      unfolding counted_def verifyStart_same [OF s(1-3)] s(1) prob_def [symmetric] b_def [symmetric]
      by (simp add: dumps(1,3)) (simp add: tallyAll_def)
  qed
qed

text \<open>A run that is never told to stop ends, when no check fails for another reason than the object's.\<close>

lemma verifyBatch_ends:
  "list_all (\<lambda>sha. okR (objectProblem num st iv d sha)) shas \<Longrightarrow> \<exists>effects run'. verifyBatch num st iv d shas run = (effects, Inr run')"
proof (induction shas arbitrary: run)
  case (Cons sha shas)
  then obtain p where p: "objectProblem num st iv d sha = Inr p" by (auto simp: okR_iff)
  from Cons obtain es run' where "verifyBatch num st iv d shas (countObject iv sha p run) = (es, Inr run')" by fastforce
  with p show ?case by simp
qed simp

lemma verifyBatches_ends:
  "list_all (\<lambda>sha. okR (objectProblem num st iv (depth start) sha)) (concat bs) \<Longrightarrow>
     \<exists>effects run'. verifyBatches num st iv start (\<lambda>_. True) bs run = (effects, Inr (Some run'))"
proof (induction bs arbitrary: run)
  case (Cons b bs)
  have "list_all (\<lambda>sha. okR (objectProblem num st iv (depth start) sha)) b"
    "list_all (\<lambda>sha. okR (objectProblem num st iv (depth start) sha)) (concat bs)"
    using Cons.prems by (auto simp: list_all_iff)
  then obtain es r1 where "verifyBatch num st iv (depth start) b run = (es, Inr r1)"
    and "\<exists>effects run'. verifyBatches num st iv start (\<lambda>_. True) bs (r1\<lparr>vr_result := degradedNow start r1, vr_bad := []\<rparr>) = (effects, Inr (Some run'))"
    using verifyBatch_ends Cons.IH by metis
  then show ?case by (auto simp: Let_def)
qed simp

lemma verifyDumps_ends:
  "list_all (\<lambda>(key, _). okR (dumpFound st key)) ds \<Longrightarrow>
     \<exists>effects run'. verifyDumps st start (\<lambda>_. True) ds run = (effects, Inr (Some run'))"
proof (induction ds arbitrary: run)
  case (Cons d ds)
  obtain key names where d: "d = (key, names)" by fastforce
  have ds: "list_all (\<lambda>(key, _). okR (dumpFound st key)) ds" using Cons.prems by simp
  show ?case
  proof (cases "afterCursor (dumpCursor start) key")
    case False
    then show ?thesis using Cons.IH [OF ds] by (simp add: d verifyDumps_skip del: verifyDumps.simps)
  next
    case True
    obtain b where b: "dumpFound st key = Inr b" using Cons.prems by (auto simp: d okR_iff)
    obtain here r1 where "dumpStep st start key names run = (here, r1)" by fastforce
    moreover obtain rest r2 where "verifyDumps st start (\<lambda>_. True) ds r1 = (rest, Inr (Some r2))" using Cons.IH [OF ds] by blast
    ultimately show ?thesis by (simp add: d verifyDumps_step [OF True b] del: verifyDumps.simps)
  qed
qed simp

lemma verifyNamed_ends:
  assumes "list_all (\<lambda>sha. okR (objectProblem num st iv (depth start) sha)) (hashesToCheck iv start)"
    and "list_all (\<lambda>(key, _). okR (dumpFound st key)) (inv_dumps iv)"
  shows "\<exists>effects res. verifyNamed num st iv start (\<lambda>_. True) = (effects, Inr (Some res))"
proof -
  have "concat (slices MAINTENANCE_BATCH (pendingHashes iv start)) = pendingHashes iv start"
    by (rule concat_slices) (simp add: MAINTENANCE_BATCH_def)
  then have "list_all (\<lambda>sha. okR (objectProblem num st iv (depth start) sha)) (concat (slices MAINTENANCE_BATCH (pendingHashes iv start)))"
    using assms(1) by (auto simp: list_all_iff pendingHashes_alt)
  then obtain es run where b: "verifyBatches num st iv start (\<lambda>_. True) (slices MAINTENANCE_BATCH (pendingHashes iv start)) (verifyStart iv start)
      = (es, Inr (Some run))" using verifyBatches_ends by blast
  have "set (map fst (sortedDumps iv)) = set (map fst (inv_dumps iv))"
    by (simp only: sortedDumps_keys codeUnits.set_toSorted)
  moreover have "list_all (\<lambda>(key, _). okR (dumpFound st key)) ds \<longleftrightarrow> (\<forall>key \<in> set (map fst ds). okR (dumpFound st key))" for ds
    by (induction ds) auto
  ultimately have "list_all (\<lambda>(key, _). okR (dumpFound st key)) (sortedDumps iv)" using assms(2) by metis
  then obtain later run' where "verifyDumps st start (\<lambda>_. True) (sortedDumps iv) run = (later, Inr (Some run'))"
    using verifyDumps_ends by blast
  with b show ?thesis by (simp add: verifyNamed_def)
qed


text \<open>
  C18. An interrupted verification picks up where it stopped. Whatever run saved a result at a checkpoint, a
  verification resumed from that result and completed counts what an uninterrupted one counts: the same objects
  and dumps checked, missing and damaged, and the same list of bad objects, each object once.
\<close>

theorem verify_resume_exact:
  assumes "verify num st conn w start checkpoint = (effects, out)" and "SaveProgress s \<in> set effects"
    and "verify num st conn w start checkpoint1 = (effects1, Inr (Some whole))"
    and "verify num st conn w s checkpoint2 = (effects2, Inr (Some resumed))"
  shows "tallies resumed = tallies whole"
proof -
  obtain iv where iv: "verifyInventory num (fetchManifest st) conn w = Inr iv"
    using assms(3) by (auto simp: verify_def split: sum.splits)
  then have run: "verifyNamed num st iv start checkpoint = (effects, out)"
    "verifyNamed num st iv start checkpoint1 = (effects1, Inr (Some whole))"
    "verifyNamed num st iv s checkpoint2 = (effects2, Inr (Some resumed))"
    using assms by (simp_all add: verify_def)
  show ?thesis
    unfolding verifyNamed_complete(1) [OF run(2)] verifyNamed_complete(1) [OF run(3)]
      counted_resume [OF verifyInventory_ok [OF iv] run(1) assms(2)] by (rule refl)
qed

section \<open>An example\<close>

text \<open>Of the two objects the example bucket's manifests name, the second is gone.\<close>

definition exampleStorage :: storage where
  "exampleStorage = \<lparr>fetchManifest = exampleFetch,
     headObject = (\<lambda>key. if key = ''o/'' @ replicate 64 CHR ''b'' then Inr None else Inr (Some 10)),
     hashStored = (\<lambda>key. Inr (drop 2 key, 10))\<rparr>"

definition exampleInventory :: inventory where
  "exampleInventory = \<lparr>inv_named = map (\<lambda>(c, m). (replicate 64 c, \<lparr>no_size = 10, no_manifests = [m],
       no_storageKeys = [JStr (''o/'' @ replicate 64 c)]\<rparr>))
     [(CHR ''b'', ''m/20260925T030000Z.json.gz''), (CHR ''a'', ''m/20260926T030000Z.json.gz'')],
     inv_dumps = [], inv_unreadable = []\<rparr>"

lemma example_verifyInventory: "verifyInventory (\<lambda>_. ''0'') (fetchManifest exampleStorage) exampleConnection exampleBucket = Inr exampleInventory"
  by code_simp

lemma example_hashes:
  "hashesToCheck exampleInventory (emptyVerifyResult FullPass 0) = [replicate 64 CHR ''a'', replicate 64 CHR ''b'']"
  by code_simp

lemma example_problems:
  "objectProblem (\<lambda>_. ''0'') exampleStorage exampleInventory FullPass (replicate 64 CHR ''a'') = Inr None"
  "objectProblem (\<lambda>_. ''0'') exampleStorage exampleInventory FullPass (replicate 64 CHR ''b'') = Inr (Some Missing)"
  by code_simp+

lemma example_answers:
  "list_all (\<lambda>sha. okR (objectProblem (\<lambda>_. ''0'') exampleStorage exampleInventory FullPass sha))
     [replicate 64 CHR ''a'', replicate 64 CHR ''b'']"
  by (simp only: list.pred_inject example_problems okR_simps simp_thms)


lemma example_saved:
  "\<exists>effects res. verify (\<lambda>_. ''0'') exampleStorage exampleConnection exampleBucket (emptyVerifyResult FullPass 0) (\<lambda>_. True)
     = (effects, Inr (Some res)) \<and> (\<exists>s. SaveProgress s \<in> set effects)"
proof -
  have pending: "pendingHashes exampleInventory (emptyVerifyResult FullPass 0) = [replicate 64 CHR ''a'', replicate 64 CHR ''b'']"
    using example_hashes by (simp add: pendingHashes_def emptyVerifyResult_def)
  have slice: "slices MAINTENANCE_BATCH [replicate 64 CHR ''a'', replicate 64 CHR ''b''] = [[replicate 64 CHR ''a'', replicate 64 CHR ''b'']]"
    by (rule slices_short) (simp_all add: MAINTENANCE_BATCH_def)
  have depth: "depth (emptyVerifyResult FullPass 0) = FullPass" by (simp add: emptyVerifyResult_def)
  have dumps: "sortedDumps exampleInventory = []" by (simp add: sortedDumps_def exampleInventory_def toSorted_def)
  obtain es run where "verifyBatch (\<lambda>_. ''0'') exampleStorage exampleInventory FullPass [replicate 64 CHR ''a'', replicate 64 CHR ''b'']
      (verifyStart exampleInventory (emptyVerifyResult FullPass 0)) = (es, Inr run)"
    using verifyBatch_ends [OF example_answers] by blast
  then show ?thesis
    unfolding verify_def example_verifyInventory sum.case verifyNamed_def pending slice depth dumps
    by (simp add: Let_def depth) blast
qed

theorem verify_resume_exact_witness:
  "\<exists>effects s whole effects2 resumed.
     verify (\<lambda>_. ''0'') exampleStorage exampleConnection exampleBucket (emptyVerifyResult FullPass 0) (\<lambda>_. True)
       = (effects, Inr (Some whole)) \<and> SaveProgress s \<in> set effects \<and>
     verify (\<lambda>_. ''0'') exampleStorage exampleConnection exampleBucket s (\<lambda>_. True) = (effects2, Inr (Some resumed)) \<and>
     tallies resumed = tallies whole"
proof -
  obtain effects whole s where run: "verify (\<lambda>_. ''0'') exampleStorage exampleConnection exampleBucket
      (emptyVerifyResult FullPass 0) (\<lambda>_. True) = (effects, Inr (Some whole))" and s: "SaveProgress s \<in> set effects"
    using example_saved by blast
  have "depth s = FullPass" "slice s = slice (emptyVerifyResult FullPass 0)"
    using saved_scope [OF run [unfolded verify_def example_verifyInventory sum.case] s] by (simp_all add: emptyVerifyResult_def)
  moreover from this have "hashesToCheck exampleInventory s = [replicate 64 CHR ''a'', replicate 64 CHR ''b'']"
    using hashesToCheck_cong [of s "emptyVerifyResult FullPass 0" exampleInventory] example_hashes
    by (simp add: emptyVerifyResult_def)
  moreover have "list_all (\<lambda>(key, _). okR (dumpFound exampleStorage key)) (inv_dumps exampleInventory)"
    by (simp add: exampleInventory_def)
  ultimately obtain effects2 resumed where
    "verifyNamed (\<lambda>_. ''0'') exampleStorage exampleInventory s (\<lambda>_. True) = (effects2, Inr (Some resumed))"
    using verifyNamed_ends [of "\<lambda>_. ''0''" exampleStorage exampleInventory s] example_answers by metis
  then have again: "verify (\<lambda>_. ''0'') exampleStorage exampleConnection exampleBucket s (\<lambda>_. True) = (effects2, Inr (Some resumed))"
    by (simp only: verify_def example_verifyInventory sum.case)
  from verify_resume_exact [OF run s run again] run s again show ?thesis by blast
qed

end
