(* ===== verification/JobStore.thy ===== *)
theory JobStore
  imports JobQueue "HOL-Library.List_Lexorder" "HOL-Library.Char_ord" "HOL-Library.Product_Lexorder"
begin

text \<open>
  The persistent job store: \<open>server/src/queue/store.ts\<close> over the tables of \<open>queue/schema.ts\<close>.

  A table is a list of records. A transaction is a function on the whole store that returns its result and the new
  store, or an error, which stands for the rollback: a statement that breaks a unique index, a foreign key or a check
  of the schema raises, as does the code itself. Row locks make a transaction atomic; the rows other transactions
  hold locked, which \<open>skip locked\<close> passes over, are an argument. Times are milliseconds since the epoch, \<open>now\<close> the
  start of the transaction and \<open>clock\<close> the later \<open>clock_timestamp()\<close>; new ids and tokens are arguments. The rest of the
  database, which callbacks of a handler change in the same transaction, is the field \<open>domain\<close>, of any type.
  Waking the claim loops (a notification that only saves time) and forgetting cached reads are left out.
\<close>

section \<open>Tables\<close>

type_synonym uuid = string

datatype queueState = Pending | Waiting | Active | Completed | Failed | NeedsAttention | Cancelled | Blocked

definition queuedState :: "queueState \<Rightarrow> bool" where
  "queuedState s \<longleftrightarrow> s = Pending \<or> s = Waiting"

definition LIVE :: "queueState \<Rightarrow> bool" where
  "LIVE s \<longleftrightarrow> s = Pending \<or> s = Waiting \<or> s = Active"

definition TERMINAL_QUEUE_STATES :: "queueState list" where
  "TERMINAL_QUEUE_STATES = [Completed, Failed, NeedsAttention, Cancelled, Blocked]"

text \<open>A timestamp or \<open>infinity\<close>, where held jobs wait.\<close>

datatype availableTime = Available int | HELD

definition STARTED_BY_HAND :: availableTime where
  "STARTED_BY_HAND = Available 0"

fun availableBy :: "int \<Rightarrow> availableTime \<Rightarrow> bool" where
  "availableBy now (Available t) = (t \<le> now)"
| "availableBy now HELD = False"

fun availableOrder :: "availableTime \<Rightarrow> bool \<times> int" where
  "availableOrder (Available t) = (False, t)"
| "availableOrder HELD = (True, 0)"

datatype cancelCause = DeadlineCause | RequestCause

datatype runHoldReason = SetupHold | PausedHold | ParkedHold

record queueDeduplication =
  dedup_id :: string
  keepLastIfActive :: bool

record queueOptions =
  opt_jobId :: "string option"
  opt_delay :: "int option"
  opt_deduplication :: "queueDeduplication option"

record queueIntent =
  in_queue :: string
  in_name :: string
  in_data :: json
  in_options :: "queueOptions option"
  in_safeToRetry :: bool
  in_sensitive :: bool
  in_deadlineMs :: int
  in_runId :: "uuid option"
  in_itemKey :: "string option"
  in_rootItemKey :: "string option"
  in_parentId :: "uuid option"

record job =
  j_id :: uuid
  j_queue :: string
  j_name :: string
  j_data :: json
  j_state :: queueState
  j_dedupKey :: "string option"
  j_externalId :: "string option"
  j_latestPending :: "queueIntent option"
  j_safeToRetry :: bool
  j_sensitive :: bool
  j_deadlineMs :: int
  j_attempt :: nat
  j_retryBaseAttempt :: nat
  j_runId :: "uuid option"
  j_itemKey :: "string option"
  j_rootItemKey :: "string option"
  j_parentId :: "uuid option"
  j_token :: "uuid option"
  j_workerId :: "uuid option"
  j_availableAt :: availableTime
  j_createdAt :: int
  j_startedAt :: "int option"
  j_finishedAt :: "int option"
  j_leaseExpiresAt :: "int option"
  j_progressAt :: "int option"
  j_progressUnits :: int
  j_cancelRequestedAt :: "int option"
  j_cancelReason :: "cancelCause option"
  j_dependencyReason :: "jobDependencyReason option"
  j_error :: "string option"

datatype attemptOutcome =
    EndedIn queueState
  | Deferred
  | RestoredDiscardedBackup
  | RestoredCancelled
  | RestoredRetry
  | RestoredNeedsAttention

record jobAttempt =
  a_jobId :: uuid
  a_attempt :: nat
  a_token :: uuid
  a_workerId :: uuid
  a_startedAt :: int
  a_finishedAt :: "int option"
  a_outcome :: "attemptOutcome option"
  a_error :: "string option"

text \<open>Of a run's \<open>selection\<close>, the keys the store reads; the rest stays in \<open>run_selection\<close>.\<close>

record jobRun =
  run_id :: uuid
  run_kind :: string
  run_selection :: json
  run_holds :: "(string \<times> runHoldReason) list option"
  run_holdsDirty :: bool
  run_holdsCursor :: "(string \<times> string) option"
  run_enumerationDone :: bool
  run_createdAt :: int
  run_finishedAt :: "int option"

record jobQueueRow =
  q_name :: string
  q_paused :: bool
  q_concurrency :: int
  q_closedUntil :: "int option"

datatype workerState = RunningWorker | StoppingWorker | LostWorker

record jobWorker =
  w_id :: uuid
  w_startedAt :: int
  w_heartbeatAt :: int
  w_state :: workerState

text \<open>The columns of \<open>media_operation\<close> the store writes; its id as text.\<close>

record operationRow =
  op_id :: string
  op_failed :: bool
  op_finishedAt :: "int option"
  op_claimToken :: "uuid option"
  op_claimExpiresAt :: "int option"
  op_claimedBy :: "string option"
  op_errorCode :: "string option"
  op_error :: "string option"
  op_needsAttention :: bool

text \<open>
  Evidence that an executor stopped (\<open>utils/attempt-evidence.ts\<close>): the token and job of an attempt that ended, and
  the workers that stopped with all their children.
\<close>

record 'd store =
  jobs :: "job list"
  attempts :: "jobAttempt list"
  runs :: "jobRun list"
  queues :: "jobQueueRow list"
  workers :: "jobWorker list"
  stoppedAttempts :: "(uuid \<times> uuid) list"
  stoppedWorkers :: "uuid list"
  operations :: "operationRow list"
  domain :: 'd

datatype storeError =
    UniqueViolation
  | CheckViolation
  | ForeignKeyViolation
  | PublicationLeaseExpired
  | DiagnosticLostClaim
  | ConcurrencyNotPositive
  | HandlerError string

section \<open>Statements\<close>

text \<open>The unique indexes and the check of the table \<open>job\<close>. A null in a unique index differs from every value.\<close>

definition liveKeys :: "job list \<Rightarrow> (string \<times> string) list" where
  "liveKeys js = map (\<lambda>j. (j_queue j, the (j_dedupKey j))) (filter (\<lambda>j. LIVE (j_state j) \<and> j_dedupKey j \<noteq> None) js)"

definition runStages :: "job list \<Rightarrow> (uuid \<times> string \<times> string) list" where
  "runStages js = map (\<lambda>j. (the (j_runId j), the (j_itemKey j), j_name j))
     (filter (\<lambda>j. j_runId j \<noteq> None \<and> j_itemKey j \<noteq> None) js)"

definition jobTableError :: "job list \<Rightarrow> storeError option" where
  "jobTableError js =
     (if \<not> distinct (map j_id js) \<or> \<not> distinct (liveKeys js) \<or> \<not> distinct (runStages js) then Some UniqueViolation
      else if \<not> list_all (\<lambda>j. (j_state j = Active) = (j_token j \<noteq> None)) js then Some CheckViolation
      else None)"

definition putJobs :: "job list \<Rightarrow> 'd store \<Rightarrow> storeError + 'd store" where
  "putJobs js st = (case jobTableError js of Some e \<Rightarrow> Inl e | None \<Rightarrow> Inr (st\<lparr>jobs := js\<rparr>))"

definition updateJobs :: "(job \<Rightarrow> bool) \<Rightarrow> (job \<Rightarrow> job) \<Rightarrow> 'd store \<Rightarrow> storeError + 'd store" where
  "updateJobs P f st = putJobs (map (\<lambda>j. if P j then f j else j) (jobs st)) st"

definition updateAttempts :: "(jobAttempt \<Rightarrow> bool) \<Rightarrow> (jobAttempt \<Rightarrow> jobAttempt) \<Rightarrow> 'd store \<Rightarrow> 'd store" where
  "updateAttempts P f st = st\<lparr>attempts := map (\<lambda>a. if P a then f a else a) (attempts st)\<rparr>"

definition updateRuns :: "(jobRun \<Rightarrow> bool) \<Rightarrow> (jobRun \<Rightarrow> jobRun) \<Rightarrow> 'd store \<Rightarrow> 'd store" where
  "updateRuns P f st = st\<lparr>runs := map (\<lambda>r. if P r then f r else r) (runs st)\<rparr>"

text \<open>\<open>insert into job_queue(name) \<dots> on conflict do nothing\<close>, with the defaults of the table.\<close>

definition ensureQueue :: "string \<Rightarrow> 'd store \<Rightarrow> 'd store" where
  "ensureQueue name st =
     (if name \<in> set (map q_name (queues st)) then st
      else st\<lparr>queues := queues st @ [\<lparr>q_name = name, q_paused = False, q_concurrency = 1, q_closedUntil = None\<rparr>]\<rparr>)"

definition jobById :: "'d store \<Rightarrow> uuid \<Rightarrow> job option" where
  "jobById st jobId = find_first (\<lambda>j. j_id j = jobId) (jobs st)"

fun jsonHas :: "json \<Rightarrow> string \<Rightarrow> bool" where
  "jsonHas (JObj kvs) k = (k \<in> set (map fst kvs))"
| "jsonHas _ k = False"

definition cancelledByRequest :: "job \<Rightarrow> bool" where
  "cancelledByRequest j \<longleftrightarrow> j_cancelRequestedAt j \<noteq> None \<and> j_cancelReason j \<noteq> Some DeadlineCause"

section \<open>Availability\<close>

definition stageHeld :: "'d store \<Rightarrow> uuid option \<Rightarrow> string \<Rightarrow> bool" where
  "stageHeld st runId name \<longleftrightarrow>
     list_ex (\<lambda>r. Some (run_id r) = runId \<and> (case run_holds r of None \<Rightarrow> False | Some hs \<Rightarrow> name \<in> set (map fst hs))) (runs st)"

definition availability :: "'d store \<Rightarrow> uuid option \<Rightarrow> string \<Rightarrow> int \<Rightarrow> int \<Rightarrow> availableTime" where
  "availability st runId name delayMs now = (if stageHeld st runId name then HELD else Available (now + delayMs))"

definition intentDelay :: "queueIntent \<Rightarrow> int" where
  "intentDelay intent = (case in_options intent of None \<Rightarrow> 0 | Some opts \<Rightarrow> (case opt_delay opts of None \<Rightarrow> 0 | Some d \<Rightarrow> d))"

definition intentAvailability :: "'d store \<Rightarrow> queueIntent \<Rightarrow> int \<Rightarrow> availableTime" where
  "intentAvailability st intent now = availability st (in_runId intent) (in_name intent) (intentDelay intent) now"

definition deferralDelay :: "jobDependencyReason \<Rightarrow> nat \<Rightarrow> int" where
  "deferralDelay reason n =
     (if reason = LocalCapacity \<or> reason = DestinationCapacity then 30000
      else if reason = LockedKeyUnavailable then 3600000
      else min (30000 * 2 ^ min (n - 1) 5) 600000)"

section \<open>Enqueueing\<close>

definition intentKey :: "queueIntent \<Rightarrow> string option" where
  "intentKey intent =
     (case in_options intent of
        None \<Rightarrow> None
      | Some opts \<Rightarrow> (case opt_deduplication opts of Some d \<Rightarrow> Some (dedup_id d) | None \<Rightarrow> opt_jobId opts))"

definition intentJobId :: "queueIntent \<Rightarrow> string option" where
  "intentJobId intent = (case in_options intent of None \<Rightarrow> None | Some opts \<Rightarrow> opt_jobId opts)"

definition keepsLast :: "queueIntent \<Rightarrow> bool" where
  "keepsLast intent =
     (case in_options intent of
        None \<Rightarrow> False
      | Some opts \<Rightarrow> (case opt_deduplication opts of None \<Rightarrow> False | Some d \<Rightarrow> keepLastIfActive d))"

definition ownsProducerState :: "job \<Rightarrow> bool" where
  "ownsProducerState j \<longleftrightarrow> jsonHas (j_data j) ''_producerCheckpoints'' \<or> jsonHas (j_data j) ''_selectionCursor''"

definition sharedSealing :: "queueIntent \<Rightarrow> job \<Rightarrow> bool" where
  "sharedSealing intent j \<longleftrightarrow>
     in_name intent = ''LockedSeal'' \<and> j_name j = in_name intent \<and>
     (case jget (in_data intent) ''id'' of JStr _ \<Rightarrow> True | _ \<Rightarrow> False) \<and>
     jget (j_data j) ''id'' = jget (in_data intent) ''id'' \<and> \<not> ownsProducerState j"

definition liveWithKey :: "'d store \<Rightarrow> string \<Rightarrow> string \<Rightarrow> job option" where
  "liveWithKey st queue key =
     find_first (\<lambda>j. j_queue j = queue \<and> j_dedupKey j = Some key \<and> LIVE (j_state j)) (jobs st)"

definition newJob :: "int \<Rightarrow> uuid \<Rightarrow> queueIntent \<Rightarrow> 'd store \<Rightarrow> job" where
  "newJob now newId intent st =
     \<lparr>j_id = newId, j_queue = in_queue intent, j_name = in_name intent, j_data = in_data intent, j_state = Pending,
      j_dedupKey = intentKey intent, j_externalId = intentJobId intent, j_latestPending = None,
      j_safeToRetry = in_safeToRetry intent, j_sensitive = in_sensitive intent, j_deadlineMs = in_deadlineMs intent,
      j_attempt = 0, j_retryBaseAttempt = 0, j_runId = in_runId intent, j_itemKey = in_itemKey intent,
      j_rootItemKey = in_rootItemKey intent, j_parentId = in_parentId intent, j_token = None, j_workerId = None,
      j_availableAt = intentAvailability st intent now, j_createdAt = now, j_startedAt = None, j_finishedAt = None,
      j_leaseExpiresAt = None, j_progressAt = None, j_progressUnits = 0, j_cancelRequestedAt = None,
      j_cancelReason = None, j_dependencyReason = None, j_error = None\<rparr>"

text \<open>\<open>insert into job \<dots> on conflict do nothing\<close>: whether a row was inserted.\<close>

definition referencesExist :: "job \<Rightarrow> 'd store \<Rightarrow> bool" where
  "referencesExist j st \<longleftrightarrow>
     (case j_runId j of None \<Rightarrow> True | Some r \<Rightarrow> r \<in> set (map run_id (runs st))) \<and>
     (case j_parentId j of None \<Rightarrow> True | Some p \<Rightarrow> p \<in> set (map j_id (jobs st)))"

definition insertJob :: "job \<Rightarrow> 'd store \<Rightarrow> storeError + bool \<times> 'd store" where
  "insertJob j st =
     (case jobTableError (jobs st @ [j]) of
        Some UniqueViolation \<Rightarrow> Inr (False, st)
      | Some e \<Rightarrow> Inl e
      | None \<Rightarrow> if referencesExist j st then Inr (True, st\<lparr>jobs := jobs st @ [j]\<rparr>) else Inl ForeignKeyViolation)"

definition rearmable :: "queueIntent \<Rightarrow> job \<Rightarrow> bool" where
  "rearmable intent j \<longleftrightarrow>
     in_runId intent \<noteq> None \<and> j_runId j = in_runId intent \<and> in_itemKey intent \<noteq> None \<and> j_itemKey j = in_itemKey intent \<and>
     j_name j = in_name intent \<and> j_state j \<in> set TERMINAL_QUEUE_STATES \<and>
     (j_state j = Cancelled \<or> in_parentId intent \<noteq> None \<and> j_parentId j = in_parentId intent)"

definition rearmRunStage :: "int \<Rightarrow> queueIntent \<Rightarrow> string option \<Rightarrow> 'd store \<Rightarrow> storeError + bool \<times> 'd store" where
  "rearmRunStage now intent key st =
     mapR (\<lambda>st'. (list_ex (rearmable intent) (jobs st), st'))
       (updateJobs (rearmable intent)
          (\<lambda>j. j\<lparr>j_state := Pending, j_data := in_data intent, j_dedupKey := key, j_externalId := intentJobId intent,
                 j_safeToRetry := in_safeToRetry intent, j_sensitive := in_sensitive intent,
                 j_deadlineMs := in_deadlineMs intent, j_rootItemKey := in_rootItemKey intent,
                 j_parentId := in_parentId intent, j_availableAt := intentAvailability st intent now,
                 j_retryBaseAttempt := j_attempt j, j_finishedAt := None, j_error := None, j_cancelRequestedAt := None,
                 j_cancelReason := None, j_workerId := None, j_latestPending := None, j_dependencyReason := None\<rparr>) st)"

text \<open>A request that finds a live job of its key: whether it was taken on.\<close>

definition replaceRequest :: "int \<Rightarrow> queueIntent \<Rightarrow> 'd store \<Rightarrow> job \<Rightarrow> job" where
  "replaceRequest now intent st j =
     j\<lparr>j_data := in_data intent, j_safeToRetry := in_safeToRetry intent, j_sensitive := in_sensitive intent,
       j_deadlineMs := in_deadlineMs intent, j_runId := in_runId intent, j_itemKey := in_itemKey intent,
       j_rootItemKey := in_rootItemKey intent, j_availableAt := intentAvailability st intent now\<rparr>"

definition coalesce :: "int \<Rightarrow> queueIntent \<Rightarrow> job \<Rightarrow> 'd store \<Rightarrow> storeError + bool \<times> 'd store" where
  "coalesce now intent existing st =
     (if \<not> keepsLast intent then Inr (False, st)
      else if j_state existing = Active \<or> ownsProducerState existing then
        mapR (Pair True) (updateJobs (\<lambda>j. j_id j = j_id existing) (\<lambda>j. j\<lparr>j_latestPending := Some intent\<rparr>) st)
      else if \<not> sharedSealing intent existing then
        mapR (Pair True) (updateJobs (\<lambda>j. j_id j = j_id existing) (replaceRequest now intent st) st)
      else Inr (False, st))"

definition insertOrRearm :: "int \<Rightarrow> uuid \<Rightarrow> queueIntent \<Rightarrow> 'd store \<Rightarrow> storeError + bool \<times> 'd store" where
  "insertOrRearm now newId intent st =
     bindR (insertJob (newJob now newId intent st) st) (\<lambda>(inserted, st').
       if inserted then Inr (True, st')
       else if in_runId intent \<noteq> None \<and> in_itemKey intent \<noteq> None \<and> in_itemKey intent \<noteq> Some []
         then rearmRunStage now intent (intentKey intent) st'
       else Inr (False, st'))"

definition insertIntent :: "int \<Rightarrow> uuid \<Rightarrow> queueIntent \<Rightarrow> 'd store \<Rightarrow> storeError + bool \<times> 'd store" where
  "insertIntent now newId intent st =
     (case intentKey intent of
        None \<Rightarrow> insertOrRearm now newId intent st
      | Some key \<Rightarrow>
          if key = [] then insertOrRearm now newId intent st
          else (case liveWithKey st (in_queue intent) key of
                  Some existing \<Rightarrow> coalesce now intent existing st
                | None \<Rightarrow> insertOrRearm now newId intent st))"

fun insertIntents :: "int \<Rightarrow> (uuid \<times> queueIntent) list \<Rightarrow> 'd store \<Rightarrow> storeError + nat \<times> 'd store" where
  "insertIntents now [] st = Inr (0, st)"
| "insertIntents now ((newId, intent) # rest) st =
     bindR (insertIntent now newId intent st) (\<lambda>(took, st').
       mapR (\<lambda>(n, st''). ((if took then Suc n else n), st'')) (insertIntents now rest st'))"

definition insertBatch :: "int \<Rightarrow> (uuid \<times> queueIntent) list \<Rightarrow> uuid option \<Rightarrow> 'd store \<Rightarrow> storeError + nat \<times> 'd store" where
  "insertBatch now intents liveRunId st =
     (let st1 = foldr ensureQueue (map (in_queue \<circ> snd) intents) st;
          reopened = filter (\<lambda>r. Some r \<noteq> liveRunId) (concat (map (\<lambda>i. case in_runId (snd i) of None \<Rightarrow> [] | Some r \<Rightarrow> [r]) intents));
          st2 = updateRuns (\<lambda>r. run_id r \<in> set reopened) (\<lambda>r. r\<lparr>run_finishedAt := None\<rparr>) st1
      in insertIntents now intents st2)"

fun enqueueBatches :: "int \<Rightarrow> uuid option \<Rightarrow> (uuid \<times> queueIntent) list list \<Rightarrow> 'd store \<Rightarrow> storeError + nat \<times> 'd store" where
  "enqueueBatches now liveRunId [] st = Inr (0, st)"
| "enqueueBatches now liveRunId (b # bs) st =
     bindR (insertBatch now b liveRunId st) (\<lambda>(n, st'). mapR (\<lambda>(m, st''). (n + m, st'')) (enqueueBatches now liveRunId bs st'))"

text \<open>Inside the caller's transaction; each intent comes with the id its row would get.\<close>

definition enqueue :: "int \<Rightarrow> (uuid \<times> queueIntent) list \<Rightarrow> uuid option \<Rightarrow> 'd store \<Rightarrow> storeError + nat \<times> 'd store" where
  "enqueue now intents liveRunId st = enqueueBatches now liveRunId (slices QUEUE_BATCH intents) st"

section \<open>Runs\<close>

definition createRun :: "int \<Rightarrow> uuid \<Rightarrow> string \<Rightarrow> json \<Rightarrow> 'd store \<Rightarrow> storeError + 'd store" where
  "createRun now newId kind selection st =
     (if newId \<in> set (map run_id (runs st)) then Inl UniqueViolation
      else Inr (st\<lparr>runs := runs st @ [\<lparr>run_id = newId, run_kind = kind, run_selection = selection, run_holds = None,
             run_holdsDirty = False, run_holdsCursor = None, run_enumerationDone = False, run_createdAt = now,
             run_finishedAt = None\<rparr>]\<rparr>))"

definition finishEnumeration :: "uuid \<Rightarrow> 'd store \<Rightarrow> 'd store" where
  "finishEnumeration runId st = updateRuns (\<lambda>r. run_id r = runId) (\<lambda>r. r\<lparr>run_enumerationDone := True\<rparr>) st"

text \<open>A run and its first jobs in one transaction; a run whose every job was already queued gives way to the run doing it.\<close>

definition admitRun ::
  "int \<Rightarrow> uuid \<Rightarrow> string \<Rightarrow> json \<Rightarrow> (uuid \<times> queueIntent) list \<Rightarrow> 'd store \<Rightarrow> storeError + (uuid \<times> nat) \<times> 'd store" where
  "admitRun now newId kind selection intents st =
     bindR (createRun now newId kind selection st) (\<lambda>st1.
     bindR (enqueue now intents (Some newId) (finishEnumeration newId st1)) (\<lambda>(inserted, st2).
       if inserted > 0 \<or> intents = [] then Inr ((newId, inserted), st2)
       else let (_, first) = hd intents
            in (case (case intentKey first of None \<Rightarrow> None | Some key \<Rightarrow> liveWithKey st2 (in_queue first) key) of
                  None \<Rightarrow> Inr ((newId, inserted), st2)
                | Some found \<Rightarrow>
                    (case j_runId found of
                       None \<Rightarrow> Inr ((newId, inserted), st2)
                     | Some r \<Rightarrow>
                         Inr ((r, inserted),
                              if list_ex (\<lambda>j. j_runId j = Some newId) (jobs st2) then st2
                              else st2\<lparr>runs := filter (\<lambda>x. run_id x \<noteq> newId) (runs st2)\<rparr>)))))"

section \<open>Claims\<close>

record queueClaim =
  c_id :: uuid
  c_queue :: string
  c_token :: "uuid option"
  c_workerId :: "uuid option"
  c_attempt :: nat
  c_name :: string
  c_data :: json
  c_runId :: "uuid option"
  c_itemKey :: "string option"
  c_rootItemKey :: "string option"
  c_deadlineMs :: int
  c_startedAt :: "int option"
  c_safeToRetry :: bool

definition claimOf :: "job \<Rightarrow> queueClaim" where
  "claimOf j = \<lparr>c_id = j_id j, c_queue = j_queue j, c_token = j_token j, c_workerId = j_workerId j, c_attempt = j_attempt j,
     c_name = j_name j, c_data = j_data j, c_runId = j_runId j, c_itemKey = j_itemKey j, c_rootItemKey = j_rootItemKey j,
     c_deadlineMs = j_deadlineMs j, c_startedAt = j_startedAt j, c_safeToRetry = j_safeToRetry j\<rparr>"

definition parentCompleted :: "'d store \<Rightarrow> job \<Rightarrow> bool" where
  "parentCompleted st j \<longleftrightarrow>
     (case j_parentId j of None \<Rightarrow> True | Some p \<Rightarrow> list_ex (\<lambda>q. j_id q = p \<and> j_state q = Completed) (jobs st))"

definition claimable :: "int \<Rightarrow> string \<Rightarrow> bool \<Rightarrow> 'd store \<Rightarrow> job \<Rightarrow> bool" where
  "claimable now queue byHand st j \<longleftrightarrow>
     j_queue j = queue \<and> queuedState (j_state j) \<and>
     (if byHand then j_availableAt j = STARTED_BY_HAND else availableBy now (j_availableAt j)) \<and>
     \<not> cancelledByRequest j \<and> parentCompleted st j"

definition claimOrder :: "job \<Rightarrow> (bool \<times> int) \<times> int \<times> uuid" where
  "claimOrder j = (availableOrder (j_availableAt j), j_createdAt j, j_id j)"

definition claimCandidates :: "int \<Rightarrow> string \<Rightarrow> nat \<Rightarrow> bool \<Rightarrow> uuid set \<Rightarrow> 'd store \<Rightarrow> uuid list" where
  "claimCandidates now queue limit byHand locked st =
     map j_id (take limit (sort_key claimOrder (filter (\<lambda>j. claimable now queue byHand st j \<and> j_id j \<notin> locked) (jobs st))))"

definition startJob :: "int \<Rightarrow> uuid \<Rightarrow> uuid \<Rightarrow> job \<Rightarrow> job" where
  "startJob now workerId token j =
     j\<lparr>j_state := Active, j_token := Some token, j_workerId := Some workerId, j_attempt := j_attempt j + 1,
       j_startedAt := Some now, j_progressAt := Some now, j_progressUnits := 0,
       j_leaseExpiresAt := Some (now + 60000), j_cancelRequestedAt := None, j_cancelReason := None,
       j_dependencyReason := None\<rparr>"

definition attemptOf :: "int \<Rightarrow> job \<Rightarrow> jobAttempt" where
  "attemptOf now j = \<lparr>a_jobId = j_id j, a_attempt = j_attempt j, a_token = the (j_token j), a_workerId = the (j_workerId j),
     a_startedAt = now, a_finishedAt = None, a_outcome = None, a_error = None\<rparr>"

definition insertAttempts :: "jobAttempt list \<Rightarrow> 'd store \<Rightarrow> storeError + 'd store" where
  "insertAttempts new st =
     (let rows = attempts st @ new
      in if \<not> distinct (map a_token rows) \<or> \<not> distinct (map (\<lambda>a. (a_jobId a, a_attempt a)) rows) then Inl UniqueViolation
         else Inr (st\<lparr>attempts := rows\<rparr>))"

text \<open>\<open>gen_random_uuid()\<close> of each claimed row is \<open>newToken\<close> of its id.\<close>

definition claimPending ::
  "int \<Rightarrow> string \<Rightarrow> uuid \<Rightarrow> nat \<Rightarrow> bool \<Rightarrow> uuid set \<Rightarrow> (uuid \<Rightarrow> uuid) \<Rightarrow> 'd store \<Rightarrow> storeError + queueClaim list \<times> 'd store" where
  "claimPending now queue workerId limit byHand locked newToken st =
     (let ids = claimCandidates now queue limit byHand locked st
      in if ids = [] then Inr ([], st)
         else if workerId \<notin> set (map w_id (workers st)) then Inl ForeignKeyViolation
         else bindR (updateJobs (\<lambda>j. j_id j \<in> set ids) (\<lambda>j. startJob now workerId (newToken (j_id j)) j) st) (\<lambda>st1.
              let claimed = filter (\<lambda>j. j_id j \<in> set ids) (jobs st1)
              in mapR (\<lambda>st2. (map claimOf claimed, st2)) (insertAttempts (map (attemptOf now) claimed) st1)))"

definition activeCount :: "'d store \<Rightarrow> string \<Rightarrow> nat" where
  "activeCount st queue = length (filter (\<lambda>j. j_queue j = queue \<and> j_state j = Active) (jobs st))"

definition queueRow :: "'d store \<Rightarrow> string \<Rightarrow> jobQueueRow option" where
  "queueRow st queue = find_first (\<lambda>q. q_name q = queue) (queues st)"

definition closedNow :: "int \<Rightarrow> jobQueueRow \<Rightarrow> bool" where
  "closedNow now q = (case q_closedUntil q of None \<Rightarrow> False | Some t \<Rightarrow> t > now)"

text \<open>The claim transaction. \<open>locked\<close> are the job rows, \<open>queueLocked\<close> whether the queue row is locked by another one.\<close>

definition claimTx ::
  "int \<Rightarrow> string \<Rightarrow> uuid \<Rightarrow> int \<Rightarrow> bool \<Rightarrow> uuid set \<Rightarrow> (uuid \<Rightarrow> uuid) \<Rightarrow> 'd store \<Rightarrow> storeError + queueClaim list \<times> 'd store" where
  "claimTx now queue workerId maxClaims queueLocked locked newToken st =
     (case queueRow st queue of
        None \<Rightarrow> Inr ([], st)
      | Some config \<Rightarrow>
          if queueLocked then Inr ([], st)
          else bindR (claimPending now queue workerId (nat (min (int QUEUE_BATCH) maxClaims)) True locked newToken st) (\<lambda>(byHand, st1).
            let n = int (length byHand);
                capacity = min (min (int QUEUE_BATCH - n) (maxClaims - n)) (q_concurrency config - int (activeCount st1 queue))
            in if q_paused config \<or> closedNow now config \<or> n \<ge> maxClaims \<or> capacity \<le> 0 then Inr (byHand, st1)
               else mapR (\<lambda>(more, st2). (byHand @ more, st2))
                      (claimPending now queue workerId (nat capacity) False locked newToken st1)))"

definition startNow :: "string \<Rightarrow> uuid \<Rightarrow> 'd store \<Rightarrow> storeError + bool \<times> 'd store" where
  "startNow queue jobId st =
     (let P = (\<lambda>j. j_id j = jobId \<and> j_queue j = queue \<and> queuedState (j_state j) \<and> j_availableAt j \<noteq> HELD \<and>
                   \<not> cancelledByRequest j \<and> parentCompleted st j)
      in mapR (Pair (list_ex P (jobs st))) (updateJobs P (\<lambda>j. j\<lparr>j_availableAt := STARTED_BY_HAND\<rparr>) st))"

definition leaseValid :: "int \<Rightarrow> job \<Rightarrow> bool" where
  "leaseValid clock j = (case j_leaseExpiresAt j of None \<Rightarrow> False | Some t \<Rightarrow> t > clock)"

definition heartbeat :: "int \<Rightarrow> int \<Rightarrow> uuid \<Rightarrow> (uuid \<times> uuid) list \<Rightarrow> uuid set \<Rightarrow> 'd store \<Rightarrow> storeError + 'd store" where
  "heartbeat now clock workerId claims locked st =
     updateJobs (\<lambda>j. (case j_token j of None \<Rightarrow> False | Some t \<Rightarrow> (j_id j, t) \<in> set claims) \<and> j_state j = Active \<and>
                     j_workerId j = Some workerId \<and> leaseValid clock j \<and> j_id j \<notin> locked)
       (\<lambda>j. j\<lparr>j_leaseExpiresAt := Some (now + 60000)\<rparr>)
       (st\<lparr>workers := map (\<lambda>w. if w_id w = workerId then w\<lparr>w_heartbeatAt := now\<rparr> else w) (workers st)\<rparr>)"

definition reportProgress :: "int \<Rightarrow> int \<Rightarrow> queueClaim \<Rightarrow> int \<Rightarrow> 'd store \<Rightarrow> storeError + 'd store" where
  "reportProgress now clock claim reported st =
     (if \<not> isSafeInteger reported \<or> reported < 0 then Inr st
      else updateJobs (\<lambda>j. j_id j = c_id claim \<and> c_token claim \<noteq> None \<and> j_token j = c_token claim \<and> j_state j = Active \<and>
                           leaseValid clock j \<and> j_progressUnits j < reported)
             (\<lambda>j. j\<lparr>j_progressAt := Some now, j_progressUnits := reported\<rparr>) st)"

section \<open>Settling a claim\<close>

text \<open>Whether the claim is the current one, in time and not cancelled: the fence of every publication.\<close>

definition currentClaim :: "int \<Rightarrow> queueClaim \<Rightarrow> job \<Rightarrow> bool" where
  "currentClaim clock claim j \<longleftrightarrow>
     j_id j = c_id claim \<and> c_token claim \<noteq> None \<and> j_token j = c_token claim \<and> j_state j = Active \<and>
     leaseValid clock j \<and> j_cancelRequestedAt j = None"

definition scrub :: "job \<Rightarrow> json" where
  "scrub j = (if j_sensitive j then JObj [] else j_data j)"

text \<open>The request that arrived while a job ran, and the jobs it had to stop for attention.\<close>

definition sameStage :: "uuid \<Rightarrow> queueIntent \<Rightarrow> job \<Rightarrow> bool" where
  "sameStage previousId latest j \<longleftrightarrow>
     j_id j = previousId \<and> in_runId latest \<noteq> None \<and> j_runId j = in_runId latest \<and>
     in_itemKey latest \<noteq> None \<and> j_itemKey j = in_itemKey latest \<and> j_name j = in_name latest"

definition rerunStage :: "int \<Rightarrow> queueIntent \<Rightarrow> 'd store \<Rightarrow> job \<Rightarrow> job" where
  "rerunStage now latest st j =
     j\<lparr>j_state := Pending, j_data := in_data latest, j_rootItemKey := in_rootItemKey latest,
       j_safeToRetry := in_safeToRetry latest, j_sensitive := in_sensitive latest, j_deadlineMs := in_deadlineMs latest,
       j_availableAt := intentAvailability st latest now, j_retryBaseAttempt := j_attempt j, j_finishedAt := None,
       j_cancelRequestedAt := None, j_cancelReason := None, j_error := None, j_workerId := None, j_latestPending := None\<rparr>"

definition runLatest :: "int \<Rightarrow> uuid \<Rightarrow> uuid \<Rightarrow> queueIntent \<Rightarrow> 'd store \<Rightarrow> storeError + 'd store" where
  "runLatest now newId previousId latest st =
     (if list_ex (sameStage previousId latest) (jobs st) then
        mapR (updateRuns (\<lambda>r. Some (run_id r) = in_runId latest) (\<lambda>r. r\<lparr>run_finishedAt := None\<rparr>))
          (updateJobs (sameStage previousId latest) (rerunStage now latest st) st)
      else mapR snd (enqueue now
             [(newId, latest\<lparr>in_parentId := (if in_parentId latest = Some previousId then None else in_parentId latest)\<rparr>)] None st))"

definition heldForAttention :: "queueIntent \<Rightarrow> job \<Rightarrow> bool" where
  "heldForAttention latest j \<longleftrightarrow>
     j_queue j = in_queue latest \<and> intentKey latest \<noteq> None \<and> j_dedupKey j = intentKey latest \<and> queuedState (j_state j)"

definition scheduleLatest ::
  "int \<Rightarrow> uuid \<Rightarrow> uuid \<Rightarrow> queueIntent option \<Rightarrow> bool \<Rightarrow> 'd store \<Rightarrow> storeError + uuid list \<times> 'd store" where
  "scheduleLatest now newId previousId latest predecessorSucceeded st =
     (case latest of
        None \<Rightarrow> Inr ([], st)
      | Some intent \<Rightarrow>
          bindR (runLatest now newId previousId intent st) (\<lambda>st1.
            if predecessorSucceeded \<or> in_safeToRetry intent then Inr ([], st1)
            else mapR (\<lambda>st2. (map j_id (filter (heldForAttention intent) (jobs st1)), st2))
                   (updateJobs (heldForAttention intent)
                      (\<lambda>j. j\<lparr>j_state := NeedsAttention, j_finishedAt := Some now,
                             j_error := Some ''Previous execution did not settle safely; review this request before rerunning'',
                             j_data := scrub j\<rparr>) st1)))"

text \<open>
  A follow-up without a run joins the run of the claim. \<open>ownKey\<close> gives the item of a request that names none:
  its \<open>id\<close>, its \<open>assetId\<close> or the hash of its data.
\<close>

definition inheritRun :: "(json \<Rightarrow> string) \<Rightarrow> queueClaim \<Rightarrow> queueIntent \<Rightarrow> queueIntent" where
  "inheritRun ownKey claim intent =
     (if in_runId intent \<noteq> None \<or> c_runId claim = None then intent
      else intent\<lparr>in_runId := c_runId claim,
                  in_rootItemKey := (case in_rootItemKey intent of Some k \<Rightarrow> Some k | None \<Rightarrow> c_rootItemKey claim),
                  in_itemKey := (case in_itemKey intent of Some k \<Rightarrow> Some k | None \<Rightarrow> Some (ownKey (in_data intent)))\<rparr>)"

definition enqueueFollowups ::
  "int \<Rightarrow> (json \<Rightarrow> string) \<Rightarrow> queueClaim \<Rightarrow> (uuid \<times> queueIntent) list \<Rightarrow> 'd store \<Rightarrow> storeError + nat \<times> 'd store" where
  "enqueueFollowups now ownKey claim followups st =
     enqueue now (map (\<lambda>(i, f). (i, inheritRun ownKey claim f)) followups) (c_runId claim) st"

definition completeJob :: "int \<Rightarrow> job \<Rightarrow> job" where
  "completeJob clock j =
     j\<lparr>j_state := Completed, j_finishedAt := Some clock, j_token := None, j_leaseExpiresAt := None, j_latestPending := None,
       j_dependencyReason := None, j_data := scrub j\<rparr>"

text \<open>\<open>adopt\<close> publishes the result in the same transaction; \<open>clock'\<close> is the time after it.\<close>

definition complete ::
  "int \<Rightarrow> int \<Rightarrow> int \<Rightarrow> (json \<Rightarrow> string) \<Rightarrow> uuid \<Rightarrow> queueClaim \<Rightarrow> (uuid \<times> queueIntent) list \<Rightarrow> ('d \<Rightarrow> storeError + 'd) \<Rightarrow>
   'd store \<Rightarrow> storeError + bool \<times> 'd store" where
  "complete now clock clock' ownKey newId claim followups adopt st =
     (case find_first (currentClaim clock claim) (jobs st) of
        None \<Rightarrow> Inr (False, st)
      | Some row \<Rightarrow>
          bindR (adopt (domain st)) (\<lambda>d.
          if \<not> leaseValid clock' row then Inl PublicationLeaseExpired
          else bindR (updateJobs (currentClaim clock' claim) (completeJob clock') (st\<lparr>domain := d\<rparr>)) (\<lambda>st1.
               bindR (enqueueFollowups now ownKey claim followups
                        (updateAttempts (\<lambda>a. Some (a_token a) = c_token claim)
                           (\<lambda>a. a\<lparr>a_outcome := Some (EndedIn Completed), a_finishedAt := Some now\<rparr>) st1)) (\<lambda>(_, st2).
               mapR (\<lambda>(_, st3). (True, st3)) (scheduleLatest now newId (c_id claim) (j_latestPending row) True st2)))))"

definition wakeDeferred :: "int \<Rightarrow> uuid list \<Rightarrow> jobDependencyReason \<Rightarrow> 'd store \<Rightarrow> storeError + nat \<times> 'd store" where
  "wakeDeferred now ids reason st =
     (let P = (\<lambda>j. j_id j \<in> set ids \<and> j_state j = Pending \<and> j_dependencyReason j = Some reason \<and>
                   \<not> availableBy now (j_availableAt j) \<and> j_availableAt j \<noteq> HELD)
      in mapR (Pair (length (filter P (jobs st)))) (updateJobs P (\<lambda>j. j\<lparr>j_availableAt := Available now\<rparr>) st))"

definition reasonText :: "jobDependencyReason \<Rightarrow> string" where
  "reasonText reason =
     (case reason of
        WorkloadDisabled \<Rightarrow> ''workload-disabled''
      | DestinationIsUnavailable \<Rightarrow> ''destination-unavailable''
      | DestinationCapacity \<Rightarrow> ''destination-capacity''
      | DestinationConfiguration \<Rightarrow> ''destination-configuration''
      | DestinationConsent \<Rightarrow> ''destination-consent''
      | DestinationBudget \<Rightarrow> ''destination-budget''
      | SourceUnavailable \<Rightarrow> ''source-unavailable''
      | LocalCapacity \<Rightarrow> ''local-capacity''
      | LockedKeyUnavailable \<Rightarrow> ''locked-key-unavailable'')"

definition deferJob :: "int \<Rightarrow> jobDependencyReason \<Rightarrow> job \<Rightarrow> job" where
  "deferJob clock reason j =
     j\<lparr>j_state := Pending, j_token := None, j_leaseExpiresAt := None, j_workerId := None, j_cancelRequestedAt := None,
       j_cancelReason := None, j_finishedAt := None, j_error := None, j_retryBaseAttempt := j_retryBaseAttempt j + 1,
       j_dependencyReason := Some reason, j_availableAt := Available (clock + deferralDelay reason (j_attempt j))\<rparr>"

definition defer_claim :: "int \<Rightarrow> queueClaim \<Rightarrow> jobDependencyReason \<Rightarrow> 'd store \<Rightarrow> storeError + bool \<times> 'd store" where
  "defer_claim clock claim reason st =
     (if \<not> list_ex (currentClaim clock claim) (jobs st) then Inr (False, st)
      else mapR (\<lambda>st1. (True, updateAttempts (\<lambda>a. Some (a_token a) = c_token claim)
             (\<lambda>a. a\<lparr>a_outcome := Some Deferred, a_finishedAt := Some clock, a_error := Some (reasonText reason)\<rparr>) st1))
           (updateJobs (currentClaim clock claim) (deferJob clock reason) st))"

end
