(* ===== verification/JobFailure.thy ===== *)
theory JobFailure
  imports JobStore
begin

text \<open>
  The second half of the operations of \<open>server/src/queue/store.ts\<close>: a failed, cancelled or expired claim, the
  dependencies of a job that ended, clearing and retrying, and the reset after a restore.
\<close>

section \<open>Dependencies\<close>

definition terminalFailure :: "queueState \<Rightarrow> bool" where
  "terminalFailure s \<longleftrightarrow> s = Failed \<or> s = NeedsAttention \<or> s = Cancelled \<or> s = Blocked"

definition queuedChildren :: "job list \<Rightarrow> uuid list \<Rightarrow> uuid list" where
  "queuedChildren js parents =
     map j_id (filter (\<lambda>c. queuedState (j_state c) \<and> (case j_parentId c of None \<Rightarrow> False | Some p \<Rightarrow> p \<in> set parents)) js)"

text \<open>A recursive query: rounds of \<open>next\<close> until a round finds nothing in \<open>universe\<close> that is new.\<close>

function rounds :: "('a list \<Rightarrow> 'a list) \<Rightarrow> 'a list \<Rightarrow> 'a list \<Rightarrow> 'a list \<Rightarrow> 'a list" where
  "rounds step universe seen [] = seen"
| "rounds step universe seen (x # xs) =
     (let new = filter (\<lambda>c. c \<notin> set seen \<and> c \<in> set universe) (step (x # xs)) in rounds step universe (seen @ new) new)"
  by pat_completeness auto
termination
proof (relation "measure (\<lambda>(step, universe, seen, frontier). card (set universe - set seen) + (if frontier = [] then 0 else 1))", goal_cases)
  case (2 step universe seen x xs new)
  show ?case
  proof (cases "new = []")
    case False
    then obtain c where "c \<in> set new" by (meson last_in_set)
    moreover have "set new \<subseteq> set universe" "set new \<inter> set seen = {}" by (auto simp: 2)
    ultimately have "set universe - set (seen @ new) \<subset> set universe - set seen" by auto
    then have "card (set universe - set (seen @ new)) < card (set universe - set seen)"
      by (intro psubset_card_mono) auto
    with False show ?thesis by auto
  qed simp
qed simp

definition blockedBy :: "job list \<Rightarrow> uuid list \<Rightarrow> uuid list" where
  "blockedBy js parents =
     (let failed = filter (\<lambda>p. list_ex (\<lambda>j. j_id j = p \<and> terminalFailure (j_state j)) js) parents;
          first = queuedChildren js failed
      in rounds (queuedChildren js) (map j_id js) first first)"

definition settleDependencies :: "int \<Rightarrow> uuid list \<Rightarrow> 'd store \<Rightarrow> storeError + 'd store" where
  "settleDependencies now parents st =
     updateJobs (\<lambda>j. j_id j \<in> set (blockedBy (jobs st) parents))
       (\<lambda>j. j\<lparr>j_state := Blocked, j_error := Some ''Dependency did not succeed'', j_finishedAt := Some now\<rparr>) st"

section \<open>A claim that failed\<close>

record 'd failOptions =
  expiredRecovery :: bool
  stopRequestedOnly :: bool
  queuedCancellation :: bool
  settlements :: "(string \<Rightarrow> bool \<Rightarrow> 'd \<Rightarrow> storeError + 'd) list"

definition failOwned :: "int \<Rightarrow> uuid \<Rightarrow> string \<Rightarrow> uuid option \<Rightarrow> 'd failOptions \<Rightarrow> job \<Rightarrow> bool" where
  "failOwned clock jobId queue token opts j \<longleftrightarrow>
     j_id j = jobId \<and>
     (if queuedCancellation opts
      then j_queue j = queue \<and> queuedState (j_state j) \<and> j_token j = None \<and> cancelledByRequest j
      else token \<noteq> None \<and> j_token j = token \<and> j_state j = Active \<and>
           (\<not> expiredRecovery opts \<or> j_leaseExpiresAt j \<noteq> None \<and> \<not> leaseValid clock j))"

definition executorStopped :: "'d store \<Rightarrow> uuid \<Rightarrow> uuid \<Rightarrow> uuid \<Rightarrow> bool" where
  "executorStopped st jobId token workerId \<longleftrightarrow> (token, jobId) \<in> set (stoppedAttempts st) \<or> workerId \<in> set (stoppedWorkers st)"

definition stoppedJobAttempts :: "'d store \<Rightarrow> job \<Rightarrow> bool" where
  "stoppedJobAttempts st j \<longleftrightarrow>
     (j_attempt j = 0 \<or> list_ex (\<lambda>a. a_jobId a = j_id j \<and> a_attempt a = j_attempt j) (attempts st)) \<and>
     list_all (\<lambda>a. a_jobId a = j_id j \<longrightarrow>
        a_outcome a = Some (EndedIn Completed) \<and> a_finishedAt a \<noteq> None \<or>
        executorStopped st (j_id j) (a_token a) (a_workerId a)) (attempts st)"

definition confirmedStop :: "'d store \<Rightarrow> 'd failOptions \<Rightarrow> job \<Rightarrow> bool" where
  "confirmedStop st opts j =
     (if queuedCancellation opts then stoppedJobAttempts st j
      else (case j_token j of None \<Rightarrow> False
            | Some t \<Rightarrow> (t, j_id j) \<in> set (stoppedAttempts st) \<or>
                        (case j_workerId j of None \<Rightarrow> False | Some w \<Rightarrow> w \<in> set (stoppedWorkers st))))"

definition graceElapsed :: "int \<Rightarrow> job \<Rightarrow> bool" where
  "graceElapsed clock j = (case j_leaseExpiresAt j of None \<Rightarrow> False | Some t \<Rightarrow> t \<le> clock - 30000)"

definition retryAvailable :: "job \<Rightarrow> bool" where
  "retryAvailable j \<longleftrightarrow> j_attempt j < j_retryBaseAttempt j + 2"

text \<open>\<open>data->>'key'\<close>: \<open>pgText\<close> is the text PostgreSQL gives a value that is not a string.\<close>

definition textOf :: "(json \<Rightarrow> string) \<Rightarrow> json \<Rightarrow> string \<Rightarrow> string option" where
  "textOf pgText v key =
     (case jget v key of JUndefined \<Rightarrow> None | JNull \<Rightarrow> None | JStr t \<Rightarrow> Some t | x \<Rightarrow> Some (pgText x))"

definition ownedOperation :: "(json \<Rightarrow> string) \<Rightarrow> job \<Rightarrow> string option" where
  "ownedOperation pgText j =
     (case textOf pgText (j_data j) ''operationId'' of None \<Rightarrow> None | Some t \<Rightarrow> if t = [] then None else Some t)"

definition unconfirmedAttention :: "(json \<Rightarrow> string) \<Rightarrow> job \<Rightarrow> bool \<Rightarrow> bool" where
  "unconfirmedAttention pgText j unconfirmedStop \<longleftrightarrow>
     unconfirmedStop \<and> (cancelledByRequest j \<or> \<not> j_safeToRetry j \<or> ownedOperation pgText j \<noteq> None)"

definition failureReason :: "(json \<Rightarrow> string) \<Rightarrow> job \<Rightarrow> bool \<Rightarrow> string \<Rightarrow> string" where
  "failureReason pgText j unconfirmedStop reason =
     (if unconfirmedAttention pgText j unconfirmedStop
      then ''Executor stop could not be confirmed; review the worker before retrying''
      else if unconfirmedStop then
        (if retryAvailable j
         then ''Interrupted before it finished (for example by a restart); it is retried automatically''
         else ''Interrupted before it finished (for example by a restart) and out of automatic retries; retry failed jobs to run it again'')
      else if cancelledByRequest j then ''Job cancellation requested''
      else reason)"

definition failedState :: "(json \<Rightarrow> string) \<Rightarrow> bool \<Rightarrow> job \<Rightarrow> queueState" where
  "failedState pgText unconfirmedStop j =
     (if unconfirmedAttention pgText j unconfirmedStop then NeedsAttention
      else if cancelledByRequest j then Cancelled
      else if \<not> j_safeToRetry j then NeedsAttention
      else if retryAvailable j then Pending
      else Failed)"

definition failJob :: "int \<Rightarrow> (json \<Rightarrow> string) \<Rightarrow> bool \<Rightarrow> string \<Rightarrow> job \<Rightarrow> job" where
  "failJob now pgText unconfirmedStop reason j =
     j\<lparr>j_state := failedState pgText unconfirmedStop j, j_availableAt := Available (now + 30000),
       j_dependencyReason := None, j_token := None, j_leaseExpiresAt := None,
       j_finishedAt := (if failedState pgText unconfirmedStop j = Pending then None else Some now),
       j_error := Some (if j_sensitive j then ''Job failed; sensitive details omitted'' else take 500 reason),
       j_data := scrub j\<rparr>"

definition failAttempts :: "int \<Rightarrow> uuid \<Rightarrow> uuid option \<Rightarrow> 'd failOptions \<Rightarrow> queueState \<Rightarrow> string option \<Rightarrow> 'd store \<Rightarrow> 'd store" where
  "failAttempts now jobId token opts state err st =
     updateAttempts
       (\<lambda>a. a_jobId a = jobId \<and> (if queuedCancellation opts then a_finishedAt a = None else Some (a_token a) = token))
       (\<lambda>a. a\<lparr>a_outcome := Some (EndedIn state), a_finishedAt := Some now, a_error := err\<rparr>) st"

definition settleOperation :: "int \<Rightarrow> string option \<Rightarrow> bool \<Rightarrow> string \<Rightarrow> 'd store \<Rightarrow> 'd store" where
  "settleOperation now operation unconfirmedStop reason st =
     (case operation of
        None \<Rightarrow> st
      | Some opId \<Rightarrow>
          st\<lparr>operations := map (\<lambda>o1.
            if op_id o1 = opId \<and> op_claimedBy o1 = Some ''job-queue'' \<and> op_claimToken o1 \<noteq> None then
              (if unconfirmedStop
               then o1\<lparr>op_failed := True, op_finishedAt := Some now, op_claimToken := None, op_claimExpiresAt := None,
                       op_claimedBy := None, op_errorCode := Some ''executor_stop_unconfirmed'', op_error := Some reason,
                       op_needsAttention := True\<rparr>
               else o1\<lparr>op_claimExpiresAt := Some now\<rparr>)
            else o1) (operations st)\<rparr>)"

fun runSettlements :: "(string \<Rightarrow> bool \<Rightarrow> 'd \<Rightarrow> storeError + 'd) list \<Rightarrow> string \<Rightarrow> bool \<Rightarrow> 'd \<Rightarrow> storeError + 'd" where
  "runSettlements [] reason cancelled d = Inr d"
| "runSettlements (s # ss) reason cancelled d = bindR (s reason cancelled d) (runSettlements ss reason cancelled)"

text \<open>A job that ended: its later request, unless it waits for a person, and the jobs that depend on it.\<close>

definition settleEnded :: "int \<Rightarrow> uuid \<Rightarrow> uuid \<Rightarrow> queueIntent option \<Rightarrow> bool \<Rightarrow> 'd store \<Rightarrow> storeError + 'd store" where
  "settleEnded now newId jobId latest attention st =
     bindR (updateJobs (\<lambda>j. j_id j = jobId) (\<lambda>j. j\<lparr>j_latestPending := None\<rparr>) st) (\<lambda>st1.
     bindR (if attention then Inr ([], st1) else scheduleLatest now newId jobId latest False st1) (\<lambda>(stopped, st2).
     settleDependencies now (jobId # stopped) st2))"

definition applyFailure ::
  "int \<Rightarrow> int \<Rightarrow> (json \<Rightarrow> string) \<Rightarrow> uuid \<Rightarrow> string \<Rightarrow> uuid option \<Rightarrow> 'd failOptions \<Rightarrow> job \<Rightarrow> bool \<Rightarrow> string \<Rightarrow> uuid \<Rightarrow>
   'd store \<Rightarrow> storeError + 'd store" where
  "applyFailure now clock pgText jobId queue token opts row unconfirmedStop reason newId st =
     bindR (updateJobs (failOwned clock jobId queue token opts) (failJob now pgText unconfirmedStop reason) st) (\<lambda>st1.
     let failed = failJob now pgText unconfirmedStop reason row;
         st2 = failAttempts now jobId token opts (j_state failed) (j_error failed) st1
     in bindR (runSettlements (settlements opts) reason (cancelledByRequest row) (domain st2)) (\<lambda>d.
        let operation = (if expiredRecovery opts \<or> queuedCancellation opts \<and> unconfirmedStop then ownedOperation pgText row else None);
            st3 = settleOperation now operation unconfirmedStop reason (st2\<lparr>domain := d\<rparr>)
        in if j_state failed = Pending then Inr st3
           else settleEnded now newId jobId (j_latestPending row) (unconfirmedAttention pgText row unconfirmedStop) st3))"

text \<open>
  \<open>diagnostic\<close> writes in the same transaction, and only under a claim that is still current before and after it.
  \<open>clock'\<close> is the time after it.
\<close>

definition fail ::
  "int \<Rightarrow> int \<Rightarrow> int \<Rightarrow> (json \<Rightarrow> string) \<Rightarrow> uuid \<Rightarrow> uuid \<Rightarrow> string \<Rightarrow> uuid option \<Rightarrow> string \<Rightarrow> ('d \<Rightarrow> storeError + 'd) option \<Rightarrow>
   'd failOptions \<Rightarrow> 'd store \<Rightarrow> storeError + bool \<times> 'd store" where
  "fail now clock clock' pgText newId jobId queue token reason diagnostic opts st =
     (case find_first (failOwned clock jobId queue token opts) (jobs st) of
        None \<Rightarrow> Inr (False, st)
      | Some row \<Rightarrow>
          let stopRequested = (j_cancelRequestedAt row \<noteq> None);
              stopped = confirmedStop st opts row;
              unconfirmedStop = ((expiredRecovery opts \<or> stopRequested) \<and> \<not> stopped);
              reason' = failureReason pgText row unconfirmedStop reason
          in if stopRequestedOnly opts \<and> \<not> stopRequested then Inr (False, st)
             else if settlements opts \<noteq> [] \<and> \<not> stopped then Inr (False, st)
             else if unconfirmedStop \<and> \<not> graceElapsed clock row \<and> \<not> queuedCancellation opts then
               mapR (Pair False)
                 (updateJobs (\<lambda>j. j_id j = jobId)
                    (\<lambda>j. j\<lparr>j_cancelRequestedAt := (if j_cancelRequestedAt j = None then Some clock else j_cancelRequestedAt j),
                           j_cancelReason := (if j_cancelRequestedAt j = None then Some DeadlineCause else j_cancelReason j),
                           j_error := Some ''Waiting for confirmation that the executor has stopped''\<rparr>) st)
             else (case (if stopRequested then None else diagnostic) of
                     None \<Rightarrow> mapR (Pair True) (applyFailure now clock pgText jobId queue token opts row unconfirmedStop reason' newId st)
                   | Some write \<Rightarrow>
                       if token = None \<or> j_token row \<noteq> token \<or> j_state row \<noteq> Active \<or> \<not> leaseValid clock row then Inr (False, st)
                       else bindR (write (domain st)) (\<lambda>d.
                            if \<not> leaseValid clock' row then Inl DiagnosticLostClaim
                            else mapR (Pair True)
                                   (applyFailure now clock pgText jobId queue token opts row unconfirmedStop reason' newId (st\<lparr>domain := d\<rparr>)))))"

section \<open>Several transactions in a row\<close>

text \<open>A loop of \<open>fail\<close> calls: each is a transaction of its own, and the first that raises ends the loop.\<close>

fun failEach ::
  "int \<Rightarrow> int \<Rightarrow> (json \<Rightarrow> string) \<Rightarrow> (uuid \<Rightarrow> uuid) \<Rightarrow> string \<Rightarrow> 'd failOptions \<Rightarrow> (uuid \<times> string \<times> uuid option) list \<Rightarrow>
   'd store \<Rightarrow> storeError option \<times> 'd store" where
  "failEach now clock pgText newId reason opts [] st = (None, st)"
| "failEach now clock pgText newId reason opts ((jobId, queue, token) # rest) st =
     (case fail now clock clock pgText (newId jobId) jobId queue token reason None opts st of
        Inl e \<Rightarrow> (Some e, st)
      | Inr (_, st') \<Rightarrow> failEach now clock pgText newId reason opts rest st')"

definition expiredClaims :: "int \<Rightarrow> 'd store \<Rightarrow> (uuid \<times> string \<times> uuid option) list" where
  "expiredClaims now st =
     map (\<lambda>j. (j_id j, j_queue j, j_token j))
       (take QUEUE_BATCH (sort_key (\<lambda>j. the (j_leaseExpiresAt j))
          (filter (\<lambda>j. j_state j = Active \<and> (case j_leaseExpiresAt j of None \<Rightarrow> False | Some t \<Rightarrow> t < now)) (jobs st))))"

definition recoverExpired :: "int \<Rightarrow> int \<Rightarrow> (json \<Rightarrow> string) \<Rightarrow> (uuid \<Rightarrow> uuid) \<Rightarrow> 'd store \<Rightarrow> storeError option \<times> 'd store" where
  "recoverExpired now clock pgText newId st =
     (case failEach now clock pgText newId ''Worker lease expired after confirmed executor stop''
             \<lparr>expiredRecovery = True, stopRequestedOnly = False, queuedCancellation = False, settlements = []\<rparr>
             (expiredClaims now st) st of
        (Some e, st') \<Rightarrow> (Some e, st')
      | (None, st') \<Rightarrow>
          (None, st'\<lparr>workers := map (\<lambda>w. if w_heartbeatAt w < now - 60000 then w\<lparr>w_state := LostWorker\<rparr> else w) (workers st')\<rparr>))"

definition cancelledQueued :: "string \<Rightarrow> 'd store \<Rightarrow> (uuid \<times> string \<times> uuid option) list" where
  "cancelledQueued queue st =
     map (\<lambda>j. (j_id j, queue, None))
       (take QUEUE_BATCH (sort_key (\<lambda>j. (j_createdAt j, j_id j))
          (filter (\<lambda>j. j_queue j = queue \<and> queuedState (j_state j) \<and> cancelledByRequest j) (jobs st))))"

definition claim ::
  "int \<Rightarrow> int \<Rightarrow> (json \<Rightarrow> string) \<Rightarrow> (uuid \<Rightarrow> uuid) \<Rightarrow> string \<Rightarrow> uuid \<Rightarrow> int \<Rightarrow> bool \<Rightarrow> uuid set \<Rightarrow> (uuid \<Rightarrow> uuid) \<Rightarrow>
   'd store \<Rightarrow> (storeError + queueClaim list) \<times> 'd store" where
  "claim now clock pgText newId queue workerId maxClaims queueLocked locked newToken st =
     (if \<not> isSafeInteger maxClaims \<or> maxClaims \<le> 0 then (Inr [], st)
      else (case failEach now clock pgText newId ''Job cancellation requested''
                   \<lparr>expiredRecovery = False, stopRequestedOnly = False, queuedCancellation = True, settlements = []\<rparr>
                   (cancelledQueued queue st) st of
              (Some e, st') \<Rightarrow> (Inl e, st')
            | (None, st') \<Rightarrow>
                (case claimTx now queue workerId maxClaims queueLocked locked newToken st' of
                   Inl e \<Rightarrow> (Inl e, st')
                 | Inr (claims, st'') \<Rightarrow> (Inr claims, st''))))"

section \<open>Deadlines, cancelling, retrying\<close>

definition overdueJob :: "int \<Rightarrow> int \<Rightarrow> job \<Rightarrow> bool" where
  "overdueJob stallMs now j \<longleftrightarrow>
     j_cancelRequestedAt j \<noteq> None \<or>
     j_leaseExpiresAt j \<noteq> None \<and> \<not> leaseValid now j \<or>
     j_progressUnits j = 0 \<and> (case j_startedAt j of None \<Rightarrow> False | Some t \<Rightarrow> t + j_deadlineMs j \<le> now) \<or>
     j_progressUnits j > 0 \<and> (case j_progressAt j of None \<Rightarrow> False | Some t \<Rightarrow> t + stallMs \<le> now)"

definition deadlines :: "int \<Rightarrow> int \<Rightarrow> uuid \<Rightarrow> 'd store \<Rightarrow> storeError + uuid list \<times> 'd store" where
  "deadlines stallMs now workerId st =
     (let P = (\<lambda>j. j_state j = Active \<and> j_workerId j = Some workerId \<and> overdueJob stallMs now j)
      in mapR (Pair (map j_id (filter P (jobs st))))
           (updateJobs P (\<lambda>j. j\<lparr>j_cancelRequestedAt := (if j_cancelRequestedAt j = None then Some now else j_cancelRequestedAt j),
                                 j_cancelReason := (if j_cancelRequestedAt j = None then Some DeadlineCause else j_cancelReason j)\<rparr>) st))"

definition cancel :: "int \<Rightarrow> string \<Rightarrow> queueState list \<Rightarrow> (job \<Rightarrow> bool) \<Rightarrow> 'd store \<Rightarrow> storeError + 'd store" where
  "cancel now queue states about st =
     (let P = (\<lambda>j. j_queue j = queue \<and> j_state j \<in> set states \<and> j_state j \<noteq> Active \<and> about j)
      in bindR (updateJobs P (\<lambda>j. j\<lparr>j_state := Cancelled, j_data := JObj [], j_latestPending := None, j_finishedAt := Some now\<rparr>) st)
           (settleDependencies now (map j_id (filter P (jobs st)))))"

definition clear ::
  "int \<Rightarrow> (json \<Rightarrow> string) \<Rightarrow> string \<Rightarrow> queueState list \<Rightarrow> string list option \<Rightarrow> 'd store \<Rightarrow> storeError + 'd store" where
  "clear now pgText queue states entityIds st =
     (case entityIds of
        None \<Rightarrow> cancel now queue states (\<lambda>j. j_availableAt j \<noteq> HELD) st
      | Some ids \<Rightarrow>
          if ids = [] then Inr st
          else cancel now queue states
                 (\<lambda>j. case textOf pgText (j_data j) ''id'' of None \<Rightarrow> False | Some t \<Rightarrow> t \<in> set ids) st)"

definition cancelQueued :: "int \<Rightarrow> string \<Rightarrow> string \<Rightarrow> 'd store \<Rightarrow> storeError + 'd store" where
  "cancelQueued now queue externalId st =
     cancel now queue [Pending, Waiting] (\<lambda>j. j_externalId j = Some externalId) st"

text \<open>One transaction of \<open>retryFailed\<close>: up to \<open>limit\<close> failed jobs, the oldest of each key, none whose key is live.\<close>

definition retryCandidate :: "string \<Rightarrow> uuid option \<Rightarrow> job \<Rightarrow> bool" where
  "retryCandidate queue jobId j \<longleftrightarrow>
     j_queue j = queue \<and> j_state j = Failed \<and> j_safeToRetry j \<and> (jobId = None \<or> jobId = Some (j_id j))"

definition partitionKey :: "job \<Rightarrow> string" where
  "partitionKey j = (case j_dedupKey j of Some k \<Rightarrow> k | None \<Rightarrow> j_id j)"

definition keyIsLive :: "job list \<Rightarrow> string \<Rightarrow> string option \<Rightarrow> bool" where
  "keyIsLive js queue key \<longleftrightarrow>
     key \<noteq> None \<and> list_ex (\<lambda>d. j_queue d = queue \<and> j_dedupKey d = key \<and> LIVE (j_state d)) js"

definition retryable :: "string \<Rightarrow> uuid option \<Rightarrow> job list \<Rightarrow> job \<Rightarrow> bool" where
  "retryable queue jobId js j \<longleftrightarrow>
     retryCandidate queue jobId j \<and>
     list_all (\<lambda>i. retryCandidate queue jobId i \<and> partitionKey i = partitionKey j \<longrightarrow> (j_createdAt j, j_id j) \<le> (j_createdAt i, j_id i)) js \<and>
     \<not> keyIsLive js queue (j_dedupKey j)"

definition retryPage :: "int \<Rightarrow> string \<Rightarrow> uuid option \<Rightarrow> nat \<Rightarrow> 'd store \<Rightarrow> storeError + nat \<times> 'd store" where
  "retryPage now queue jobId limit st =
     (let ids = take limit (map j_id (filter (retryable queue jobId (jobs st)) (jobs st)));
          reopened = map j_runId (filter (\<lambda>j. j_id j \<in> set ids) (jobs st))
      in bindR (updateJobs (\<lambda>j. j_id j \<in> set ids)
                  (\<lambda>j. j\<lparr>j_state := Pending, j_availableAt := availability st (j_runId j) (j_name j) 0 now,
                         j_finishedAt := None, j_error := None, j_retryBaseAttempt := j_attempt j\<rparr>) st) (\<lambda>st1.
           Inr (length ids, updateRuns (\<lambda>r. Some (run_id r) \<in> set reopened) (\<lambda>r. r\<lparr>run_finishedAt := None\<rparr>) st1)))"

section \<open>Restore\<close>

definition databaseBackup :: "job \<Rightarrow> bool" where
  "databaseBackup j \<longleftrightarrow> j_name j = ''DatabaseBackup'' \<and> j_queue j = ''backupDatabase''"

definition operationOwned :: "job \<Rightarrow> bool" where
  "operationOwned j = jsonHas (j_data j) ''operationId''"

definition repeatable :: "job \<Rightarrow> bool" where
  "repeatable j \<longleftrightarrow> (j_safeToRetry j \<or> databaseBackup j) \<and> \<not> operationOwned j"

definition discardBackup :: "job \<Rightarrow> bool" where
  "discardBackup j \<longleftrightarrow> j_state j = Active \<and> databaseBackup j \<and> \<not> operationOwned j"

definition restoredOutcome :: "'d store \<Rightarrow> job \<Rightarrow> attemptOutcome" where
  "restoredOutcome st j =
     (if discardBackup j then RestoredDiscardedBackup
      else if cancelledByRequest j then (if stoppedJobAttempts st j then RestoredCancelled else RestoredNeedsAttention)
      else if repeatable j \<and> retryAvailable j then RestoredRetry
      else RestoredNeedsAttention)"

definition restoredState :: "'d store \<Rightarrow> job \<Rightarrow> queueState" where
  "restoredState st j =
     (if discardBackup j then Cancelled
      else if cancelledByRequest j then (if stoppedJobAttempts st j then Cancelled else NeedsAttention)
      else if repeatable j \<and> retryAvailable j then Pending
      else NeedsAttention)"

definition restoreReset :: "job \<Rightarrow> bool" where
  "restoreReset j \<longleftrightarrow>
     j_state j = Active \<or> (\<not> j_safeToRetry j \<or> operationOwned j \<or> cancelledByRequest j) \<and> queuedState (j_state j)"

definition restoreJob :: "int \<Rightarrow> 'd store \<Rightarrow> job \<Rightarrow> job" where
  "restoreJob now st j =
     j\<lparr>j_state := restoredState st j,
       j_safeToRetry := j_safeToRetry j \<or> databaseBackup j \<and> \<not> operationOwned j,
       j_token := None, j_leaseExpiresAt := None, j_workerId := None, j_cancelRequestedAt := None, j_cancelReason := None,
       j_availableAt := (if j_state j \<noteq> Active \<and> j_availableAt j = HELD then HELD else Available (now + 30000)),
       j_latestPending := None,
       j_finishedAt := (if \<not> discardBackup j \<and> \<not> cancelledByRequest j \<and> repeatable j \<and> retryAvailable j then None else Some now),
       j_error := Some (if discardBackup j then ''Restore discarded the snapshot backup invocation''
                        else if cancelledByRequest j \<and> \<not> stoppedJobAttempts st j
                        then ''Executor stop could not be confirmed; review the worker before retrying''
                        else ''Restore revoked the previous execution claim''),
       j_data := scrub j\<rparr>"

text \<open>Each statement sees the attempts as the one before it left them.\<close>

definition restoreAttempts :: "int \<Rightarrow> 'd store \<Rightarrow> 'd store" where
  "restoreAttempts now st =
     st\<lparr>attempts := map (\<lambda>a.
       if a_finishedAt a \<noteq> None then a
       else (case jobById st (a_jobId a) of
               None \<Rightarrow> a
             | Some j \<Rightarrow> a\<lparr>a_outcome := Some (restoredOutcome st j), a_finishedAt := Some now\<rparr>)) (attempts st)\<rparr>"

definition resetQueueAfterRestore :: "int \<Rightarrow> 'd store \<Rightarrow> storeError + 'd store" where
  "resetQueueAfterRestore now st =
     (let st1 = restoreAttempts now st
      in mapR (\<lambda>st2. st2\<lparr>workers := map (\<lambda>w. w\<lparr>w_state := LostWorker\<rparr>) (workers st2)\<rparr>)
           (updateJobs restoreReset (restoreJob now st1) st1))"

end
