(* ===== verification/JobClaims.thy ===== *)
theory JobClaims
  imports JobFailure
begin

text \<open>
  The job store as a step relation: every transaction of \<open>JobStore\<close> and \<open>JobFailure\<close>, in any order, by any caller.
  The invariant ties each active job to the one attempt that may settle it.
\<close>

section \<open>Well-formed stores\<close>

definition latestOk :: "job \<Rightarrow> bool" where
  "latestOk j \<longleftrightarrow>
     (\<forall>latest. j_latestPending j = Some latest \<longrightarrow>
        in_queue latest = j_queue j \<and> intentKey latest = j_dedupKey j \<and> j_dedupKey j \<noteq> None \<and> keepsLast latest)"

definition budgetOk :: "job \<Rightarrow> bool" where
  "budgetOk j \<longleftrightarrow>
     j_retryBaseAttempt j \<le> j_attempt j \<and> j_attempt j \<le> j_retryBaseAttempt j + 2 \<and>
     (queuedState (j_state j) \<longrightarrow> j_attempt j < j_retryBaseAttempt j + 2) \<and>
     (j_state j = Active \<longrightarrow> j_retryBaseAttempt j < j_attempt j)"

definition leaseOk :: "job \<Rightarrow> bool" where
  "leaseOk j \<longleftrightarrow> (j_state j = Active \<longrightarrow> j_leaseExpiresAt j \<noteq> None \<and> j_workerId j \<noteq> None)"

definition jobOk :: "job \<Rightarrow> bool" where
  "jobOk j \<longleftrightarrow> budgetOk j \<and> leaseOk j \<and> latestOk j"

definition openAttempt :: "jobAttempt \<Rightarrow> bool" where
  "openAttempt a \<longleftrightarrow> a_finishedAt a = None"

definition attemptRunning :: "jobAttempt \<Rightarrow> job \<Rightarrow> bool" where
  "attemptRunning a j \<longleftrightarrow>
     a_jobId a = j_id j \<and> j_state j = Active \<and> j_token j = Some (a_token a) \<and> a_attempt a = j_attempt j \<and>
     j_workerId j = Some (a_workerId a)"

definition attemptsOk :: "job list \<Rightarrow> jobAttempt list \<Rightarrow> bool" where
  "attemptsOk js as \<longleftrightarrow>
     distinct (map a_token as) \<and> distinct (map (\<lambda>a. (a_jobId a, a_attempt a)) as) \<and>
     (\<forall>a \<in> set as. a_jobId a \<in> j_id ` set js) \<and>
     (\<forall>a \<in> set as. openAttempt a \<longrightarrow> (\<exists>j \<in> set js. attemptRunning a j)) \<and>
     (\<forall>j \<in> set js. j_state j = Active \<longrightarrow> (\<exists>a \<in> set as. openAttempt a \<and> attemptRunning a j)) \<and>
     (\<forall>a \<in> set as. \<forall>j \<in> set js. a_jobId a = j_id j \<longrightarrow> a_attempt a \<le> j_attempt j)"

lemma attemptsOk_le:
  "attemptsOk js as \<Longrightarrow> a \<in> set as \<Longrightarrow> j \<in> set js \<Longrightarrow> a_jobId a = j_id j \<Longrightarrow> a_attempt a \<le> j_attempt j"
  by (auto simp: attemptsOk_def)

lemma attemptsOk_running:
  "attemptsOk js as \<Longrightarrow> a \<in> set as \<Longrightarrow> openAttempt a \<Longrightarrow> \<exists>j \<in> set js. attemptRunning a j"
  by (simp add: attemptsOk_def)

lemma attemptsOk_open:
  "attemptsOk js as \<Longrightarrow> j \<in> set js \<Longrightarrow> j_state j = Active \<Longrightarrow> \<exists>a \<in> set as. openAttempt a \<and> attemptRunning a j"
  by (simp add: attemptsOk_def)

definition rowsOk :: "'d store \<Rightarrow> bool" where
  "rowsOk st \<longleftrightarrow> jobTableError (jobs st) = None \<and> (\<forall>j \<in> set (jobs st). jobOk j)"

definition storeOk :: "'d store \<Rightarrow> bool" where
  "storeOk st \<longleftrightarrow> rowsOk st \<and> attemptsOk (jobs st) (attempts st)"

lemmas ok_defs = jobOk_def budgetOk_def leaseOk_def latestOk_def

lemma queuedState_simps [simp]:
  "queuedState Pending" "queuedState Waiting" "\<not> queuedState Active" "\<not> queuedState Completed" "\<not> queuedState Failed"
  "\<not> queuedState NeedsAttention" "\<not> queuedState Cancelled" "\<not> queuedState Blocked"
  by (simp_all add: queuedState_def)

section \<open>Statements that leave claims alone\<close>

definition claimKept :: "job \<Rightarrow> job \<Rightarrow> bool" where
  "claimKept j j' \<longleftrightarrow>
     j_id j' = j_id j \<and> j_attempt j' = j_attempt j \<and> (j_state j' = Active) = (j_state j = Active) \<and>
     (j_state j = Active \<longrightarrow> j_token j' = j_token j \<and> j_workerId j' = j_workerId j)"

definition unclaimed :: "job \<Rightarrow> bool" where
  "unclaimed j \<longleftrightarrow> j_state j \<noteq> Active \<and> j_attempt j = 0"

definition claimsKept :: "job list \<Rightarrow> job list \<Rightarrow> bool" where
  "claimsKept js js' \<longleftrightarrow> (\<exists>old new. js' = old @ new \<and> list_all2 claimKept js old \<and> list_all unclaimed new)"

text \<open>
  A quiet transaction changes no claim and no attempt, and keeps the table and each row well formed.
\<close>

definition quiet :: "'d store \<Rightarrow> 'd store \<Rightarrow> bool" where
  "quiet st st' \<longleftrightarrow>
     attempts st' = attempts st \<and> workers st' = workers st \<and>
     (rowsOk st \<longrightarrow> claimsKept (jobs st) (jobs st') \<and> rowsOk st')"

lemma claimKept_refl [simp]: "claimKept j j" by (simp add: claimKept_def)

lemma claimKept_trans: "claimKept a b \<Longrightarrow> claimKept b c \<Longrightarrow> claimKept a c" by (auto simp: claimKept_def)

lemma unclaimed_kept: "unclaimed a \<Longrightarrow> claimKept a b \<Longrightarrow> unclaimed b" by (auto simp: claimKept_def unclaimed_def)

lemma claimsKept_refl [simp]: "claimsKept js js"
  unfolding claimsKept_def by (rule exI [of _ js], rule exI [of _ "[]"]) (simp add: list_all2_refl)

lemma claimsKept_trans:
  assumes "claimsKept a b" and "claimsKept b c"
  shows "claimsKept a c"
proof -
  obtain o1 n1 where b: "b = o1 @ n1" "list_all2 claimKept a o1" "list_all unclaimed n1"
    using assms(1) by (auto simp: claimsKept_def)
  obtain o2 n2 where c: "c = o2 @ n2" "list_all2 claimKept (o1 @ n1) o2" "list_all unclaimed n2"
    using assms(2) b(1) by (auto simp: claimsKept_def)
  then obtain p q where o2: "o2 = p @ q" "list_all2 claimKept o1 p" "list_all2 claimKept n1 q"
    by (auto simp: list_all2_append1)
  have "list_all2 claimKept a p"
    using list_all2_trans [OF claimKept_trans b(2) o2(2)] by simp
  moreover have "list_all unclaimed q"
    using o2(3) b(3) by (induction rule: list_all2_induct) (auto intro: unclaimed_kept)
  ultimately show ?thesis
    unfolding claimsKept_def using c o2 by (intro exI [of _ p] exI [of _ "q @ n2"]) simp
qed

lemma quiet_refl [simp, keeps]: "quiet st st" by (simp add: quiet_def)

lemma quiet_trans: "quiet a b \<Longrightarrow> quiet b c \<Longrightarrow> quiet a c"
  unfolding quiet_def by (metis claimsKept_trans)

lemma claimsKept_map: "(\<And>j. j \<in> set js \<Longrightarrow> claimKept j (f j)) \<Longrightarrow> claimsKept js (map f js)"
  unfolding claimsKept_def by (rule exI [of _ "map f js"], rule exI [of _ "[]"]) (simp add: list_all2_conv_all_nth)

lemma putJobs_Inr: "putJobs js st = Inr st' \<longleftrightarrow> jobTableError js = None \<and> st' = st\<lparr>jobs := js\<rparr>"
  by (auto simp: putJobs_def split: option.splits)

lemma updateJobs_Inr:
  "updateJobs P f st = Inr st' \<longleftrightarrow>
     jobTableError (map (\<lambda>j. if P j then f j else j) (jobs st)) = None \<and>
     st' = st\<lparr>jobs := map (\<lambda>j. if P j then f j else j) (jobs st)\<rparr>"
  by (simp add: updateJobs_def putJobs_Inr)

lemma quiet_update:
  assumes "updateJobs P f st = Inr st'"
    and "\<And>j. rowsOk st \<Longrightarrow> j \<in> set (jobs st) \<Longrightarrow> P j \<Longrightarrow> claimKept j (f j)"
    and "\<And>j. rowsOk st \<Longrightarrow> j \<in> set (jobs st) \<Longrightarrow> P j \<Longrightarrow> jobOk j \<Longrightarrow> jobOk (f j)"
  shows "quiet st st'"
  using assms unfolding updateJobs_Inr quiet_def by (auto simp: rowsOk_def intro!: claimsKept_map)

lemma quiet_runs [simp]: "quiet st (updateRuns P f st)" by (simp add: quiet_def rowsOk_def updateRuns_def)

lemma quiet_runsR: "quiet st st' \<Longrightarrow> quiet st (updateRuns P f st')"
  by (rule quiet_trans [OF _ quiet_runs])

lemma quiet_queue [simp]: "quiet st (ensureQueue q st)" by (simp add: quiet_def rowsOk_def ensureQueue_def)

lemma quiet_queues [simp]: "quiet st (foldr ensureQueue qs st)"
  by (induction qs) (auto intro: quiet_trans)

section \<open>Enqueueing is quiet\<close>

lemma jobOk_new: "jobOk (newJob now newId intent st)"
  by (simp add: ok_defs newJob_def queuedState_def)

lemma quiet_insertJob:
  assumes "insertJob j st = Inr (b, st')" and "unclaimed j" and "jobOk j"
  shows "quiet st st'"
proof -
  have "claimsKept (jobs st) (jobs st @ [j])"
    unfolding claimsKept_def
    by (rule exI [of _ "jobs st"], rule exI [of _ "[j]"]) (simp add: assms(2) list_all2_refl)
  with assms show ?thesis
    by (auto simp: insertJob_def quiet_def rowsOk_def split: option.splits storeError.splits if_splits)
qed

lemma quiet_rearm: "rearmRunStage now intent key st = Inr (b, st') \<Longrightarrow> quiet st st'"
  unfolding rearmRunStage_def mapR_eq_Inr
  by (elim exE conjE, simp, erule quiet_update)
     (auto simp: rearmable_def TERMINAL_QUEUE_STATES_def claimKept_def ok_defs queuedState_def)

lemma quiet_insertOrRearm:
  assumes "insertOrRearm now newId intent st = Inr (b, st')"
  shows "quiet st st'"
proof -
  have u: "unclaimed (newJob now newId intent st)" by (simp add: unclaimed_def newJob_def)
  obtain took st1 where i: "insertJob (newJob now newId intent st) st = Inr (took, st1)"
    using assms by (auto simp: insertOrRearm_def bindR_eq_Inr)
  have "quiet st st1" by (rule quiet_insertJob [OF i u jobOk_new])
  with assms i show ?thesis
    by (auto simp: insertOrRearm_def split: if_splits intro: quiet_trans quiet_rearm)
qed

lemma liveWithKey_Some:
  "liveWithKey st queue key = Some j \<Longrightarrow> j \<in> set (jobs st) \<and> j_queue j = queue \<and> j_dedupKey j = Some key \<and> LIVE (j_state j)"
  unfolding liveWithKey_def by (drule find_first_Some) simp

lemma distinct_ids: "jobTableError js = None \<Longrightarrow> distinct (map j_id js)"
  by (simp add: jobTableError_def split: if_splits)

lemma same_id: "jobTableError js = None \<Longrightarrow> i \<in> set js \<Longrightarrow> j \<in> set js \<Longrightarrow> j_id i = j_id j \<Longrightarrow> i = j"
  by (meson distinct_ids distinct_map inj_onD)

lemma quiet_coalesce:
  assumes "coalesce now intent existing st = Inr (b, st')"
    and "existing \<in> set (jobs st)" and "j_queue existing = in_queue intent"
    and "j_dedupKey existing = intentKey intent" and "intentKey intent \<noteq> None"
  shows "quiet st st'"
proof -
  have same: "j = existing" if "rowsOk st" "j \<in> set (jobs st)" "j_id j = j_id existing" for j
    using that assms(2) same_id [of "jobs st" j existing] by (simp add: rowsOk_def)
  consider "st' = st"
    | "keepsLast intent" "updateJobs (\<lambda>j. j_id j = j_id existing) (\<lambda>j. j\<lparr>j_latestPending := Some intent\<rparr>) st = Inr st'"
    | "updateJobs (\<lambda>j. j_id j = j_id existing) (replaceRequest now intent st) st = Inr st'"
    using assms(1) by (auto simp: coalesce_def mapR_eq_Inr split: if_splits)
  then show ?thesis
  proof cases
    case 2
    show ?thesis
    proof (rule quiet_update [OF 2(2)])
      fix j assume "rowsOk st" "j \<in> set (jobs st)" "j_id j = j_id existing" "jobOk j"
      with same have "j = existing" by blast
      with 2(1) assms(3-5) \<open>jobOk j\<close> show "jobOk (j\<lparr>j_latestPending := Some intent\<rparr>)" by (simp add: ok_defs)
    qed (simp add: claimKept_def)
  next
    case 3
    show ?thesis
      by (rule quiet_update [OF 3]) (auto simp: replaceRequest_def claimKept_def ok_defs)
  qed simp
qed

lemma quiet_insertIntent: "insertIntent now newId intent st = Inr (b, st') \<Longrightarrow> quiet st st'"
  by (auto simp: insertIntent_def split: option.splits if_splits
      intro: quiet_insertOrRearm quiet_coalesce dest!: liveWithKey_Some)

lemma quiet_insertIntents: "insertIntents now intents st = Inr (n, st') \<Longrightarrow> quiet st st'"
proof (induction now intents st arbitrary: n st' rule: insertIntents.induct)
  case (2 now newId intent rest st)
  then obtain took st1 m where "insertIntent now newId intent st = Inr (took, st1)" "insertIntents now rest st1 = Inr (m, st')"
    by (auto simp: bindR_eq_Inr mapR_eq_Inr)
  then show ?case using 2(1) by (blast intro: quiet_trans quiet_insertIntent)
qed simp

lemma quiet_insertBatch: "insertBatch now intents liveRunId st = Inr (n, st') \<Longrightarrow> quiet st st'"
  unfolding insertBatch_def Let_def
  by (rule quiet_trans [OF quiet_runsR [OF quiet_queues] quiet_insertIntents])

lemma quiet_batches: "enqueueBatches now liveRunId bs st = Inr (n, st') \<Longrightarrow> quiet st st'"
proof (induction now liveRunId bs st arbitrary: n st' rule: enqueueBatches.induct)
  case (2 now liveRunId b bs st)
  then obtain k st1 m where "insertBatch now b liveRunId st = Inr (k, st1)" "enqueueBatches now liveRunId bs st1 = Inr (m, st')"
    by (auto simp: bindR_eq_Inr mapR_eq_Inr)
  then show ?case using 2(1) by (blast intro: quiet_trans quiet_insertBatch)
qed simp

lemma quiet_enqueue: "enqueue now intents liveRunId st = Inr (n, st') \<Longrightarrow> quiet st st'"
  unfolding enqueue_def by (rule quiet_batches)

lemma quiet_admitRun:
  assumes "admitRun now newId kind selection intents st = Inr (r, st')"
  shows "quiet st st'"
proof -
  obtain st1 n st2 where c: "createRun now newId kind selection st = Inr st1"
    and e: "enqueue now intents (Some newId) (finishEnumeration newId st1) = Inr (n, st2)"
    using assms by (auto simp: admitRun_def bindR_eq_Inr)
  have "quiet st st1" using c by (auto simp: createRun_def quiet_def rowsOk_def split: if_splits)
  then have "quiet st (finishEnumeration newId st1)" unfolding finishEnumeration_def by (rule quiet_runsR)
  then have q: "quiet st st2" using quiet_enqueue [OF e] by (rule quiet_trans)
  have "quiet st2 (st2\<lparr>runs := rs\<rparr>)" for rs by (simp add: quiet_def rowsOk_def)
  with c e q assms show ?thesis
    by (auto simp: admitRun_def Let_def split: if_splits option.splits prod.splits intro: quiet_trans)
qed

section \<open>Other quiet transactions\<close>

text \<open>An update of queued rows, or of columns that are neither the claim nor the retry budget.\<close>

lemma quiet_startNow: "startNow queue jobId st = Inr (b, st') \<Longrightarrow> quiet st st'"
  unfolding startNow_def Let_def mapR_eq_Inr
  by (elim exE conjE, simp, erule quiet_update) (auto simp: claimKept_def ok_defs)

lemma quiet_heartbeat:
  assumes "heartbeat now clock workerId claims locked st = Inr st'"
  shows "attempts st' = attempts st \<and> (rowsOk st \<longrightarrow> claimsKept (jobs st) (jobs st') \<and> rowsOk st')"
proof -
  let ?st = "st\<lparr>workers := map (\<lambda>w. if w_id w = workerId then w\<lparr>w_heartbeatAt := now\<rparr> else w) (workers st)\<rparr>"
  have "quiet ?st st'"
    by (rule quiet_update [OF assms [unfolded heartbeat_def]]) (simp_all add: claimKept_def ok_defs)
  then show ?thesis by (simp add: quiet_def rowsOk_def)
qed

lemma quiet_progress: "reportProgress now clock cl n st = Inr st' \<Longrightarrow> quiet st st'"
  unfolding reportProgress_def
  by (auto split: if_splits elim!: quiet_update simp: claimKept_def ok_defs)

lemma quiet_wakeDeferred: "wakeDeferred now ids reason st = Inr (n, st') \<Longrightarrow> quiet st st'"
  unfolding wakeDeferred_def Let_def mapR_eq_Inr
  by (elim exE conjE, simp, erule quiet_update) (auto simp: claimKept_def ok_defs)

lemma quiet_deadlines: "deadlines stallMs now workerId st = Inr (ids, st') \<Longrightarrow> quiet st st'"
  unfolding deadlines_def Let_def mapR_eq_Inr
  by (elim exE conjE, simp, erule quiet_update) (auto simp: claimKept_def ok_defs)

lemma set_rounds_step: "set (rounds step universe seen frontier) \<subseteq> set seen \<union> (\<Union>(set ` range step))"
proof (induction step universe seen frontier rule: rounds.induct)
  case (2 step universe seen x xs)
  have "set (filter (\<lambda>c. c \<notin> set seen \<and> c \<in> set universe) (step (x # xs))) \<subseteq> \<Union>(set ` range step)" by auto
  with 2 [OF refl] show ?case by (auto simp: Let_def)
qed simp

lemma queuedChildren_queued:
  "c \<in> set (queuedChildren js parents) \<Longrightarrow> \<exists>j \<in> set js. j_id j = c \<and> queuedState (j_state j)"
  by (auto simp: queuedChildren_def)

lemma blockedBy_queued:
  assumes "c \<in> set (blockedBy js parents)"
  shows "\<exists>j \<in> set js. j_id j = c \<and> queuedState (j_state j)"
  using assms set_rounds_step [of "queuedChildren js" "map j_id js"] queuedChildren_queued
  unfolding blockedBy_def Let_def by fastforce

lemma quiet_settle:
  assumes "settleDependencies now parents st = Inr st'"
  shows "quiet st st'"
proof (rule quiet_update [OF assms [unfolded settleDependencies_def]])
  fix j assume "rowsOk st" and j: "j \<in> set (jobs st)" "j_id j \<in> set (blockedBy (jobs st) parents)"
  then have q: "queuedState (j_state j)" using blockedBy_queued same_id unfolding rowsOk_def by metis
  then show "claimKept j (j\<lparr>j_state := Blocked, j_error := Some ''Dependency did not succeed'', j_finishedAt := Some now\<rparr>)"
    by (auto simp: claimKept_def queuedState_def)
qed (simp add: ok_defs queuedState_def)

lemma quiet_table: "quiet st st' \<Longrightarrow> rowsOk st \<Longrightarrow> rowsOk st'" by (simp add: quiet_def)

lemma quiet_cancel:
  assumes "cancel now queue states about st = Inr st'"
  shows "quiet st st'"
proof -
  obtain st1 ids where u: "updateJobs (\<lambda>j. j_queue j = queue \<and> j_state j \<in> set states \<and> j_state j \<noteq> Active \<and> about j)
        (\<lambda>j. j\<lparr>j_state := Cancelled, j_data := JObj [], j_latestPending := None, j_finishedAt := Some now\<rparr>) st = Inr st1"
    and s: "settleDependencies now ids st1 = Inr st'"
    using assms by (auto simp: cancel_def bindR_eq_Inr Let_def)
  have "quiet st st1" by (rule quiet_update [OF u]) (simp_all add: claimKept_def ok_defs queuedState_def)
  moreover have "quiet st1 st'" by (rule quiet_settle [OF s])
  ultimately show ?thesis by (rule quiet_trans)
qed

lemma quiet_clear: "clear now pgText queue states ids st = Inr st' \<Longrightarrow> quiet st st'"
  by (auto simp: clear_def split: option.splits if_splits dest: quiet_cancel)

lemma quiet_retryPage:
  assumes "retryPage now queue jobId limit st = Inr (n, st')"
  shows "quiet st st'"
proof -
  let ?ids = "set (take limit (map j_id (filter (retryable queue jobId (jobs st)) (jobs st))))"
  obtain st1 reopened where u: "updateJobs (\<lambda>j. j_id j \<in> ?ids)
      (\<lambda>j. j\<lparr>j_state := Pending, j_availableAt := availability st (j_runId j) (j_name j) 0 now,
             j_finishedAt := None, j_error := None, j_retryBaseAttempt := j_attempt j\<rparr>) st = Inr st1"
    and st': "st' = updateRuns (\<lambda>x. Some (run_id x) \<in> reopened) (\<lambda>r. r\<lparr>run_finishedAt := None\<rparr>) st1"
    using assms unfolding retryPage_def Let_def bindR_eq_Inr by (elim exE conjE) blast
  have failed: "j_state j = Failed" if "rowsOk st" "j \<in> set (jobs st)" "j_id j \<in> ?ids" for j
  proof -
    from that(3) have "j_id j \<in> j_id ` set (filter (retryable queue jobId (jobs st)) (jobs st))"
      by (auto dest!: in_set_takeD)
    then obtain i where "i \<in> set (jobs st)" "retryable queue jobId (jobs st) i" "j_id i = j_id j" by fastforce
    then show ?thesis using same_id [OF _ _ that(2)] that(1) by (auto simp: retryable_def retryCandidate_def rowsOk_def)
  qed
  have "quiet st st1"
    by (rule quiet_update [OF u]) (simp_all add: failed claimKept_def ok_defs)
  then show ?thesis unfolding st' by (rule quiet_runsR)
qed

section \<open>The later request is quiet\<close>

lemma quiet_runLatest:
  assumes "runLatest now newId previousId latest st = Inr st'"
    and "\<And>j. j \<in> set (jobs st) \<Longrightarrow> j_id j = previousId \<Longrightarrow> j_state j \<noteq> Active"
  shows "quiet st st'"
proof (cases "list_ex (sameStage previousId latest) (jobs st)")
  case True
  then obtain st1 where u: "updateJobs (sameStage previousId latest) (rerunStage now latest st) st = Inr st1"
    and st': "st' = updateRuns (\<lambda>r. Some (run_id r) = in_runId latest) (\<lambda>r. r\<lparr>run_finishedAt := None\<rparr>) st1"
    using assms(1) by (auto simp: runLatest_def mapR_eq_Inr)
  have "quiet st st1"
  proof (rule quiet_update [OF u])
    fix j assume "j \<in> set (jobs st)" "sameStage previousId latest j"
    then have "j_state j \<noteq> Active" using assms(2) by (auto simp: sameStage_def)
    then show "claimKept j (rerunStage now latest st j)" by (simp add: rerunStage_def claimKept_def)
  qed (simp add: rerunStage_def ok_defs queuedState_def)
  then show ?thesis unfolding st' by (rule quiet_runsR)
next
  case False
  with assms(1) show ?thesis by (auto simp: runLatest_def mapR_eq_Inr intro: quiet_enqueue)
qed

lemma quiet_scheduleLatest:
  assumes "scheduleLatest now newId previousId latest ok st = Inr (ids, st')"
    and "\<And>j. j \<in> set (jobs st) \<Longrightarrow> j_id j = previousId \<Longrightarrow> j_state j \<noteq> Active"
  shows "quiet st st'"
proof (cases latest)
  case None
  with assms(1) show ?thesis by (simp add: scheduleLatest_def)
next
  case (Some intent)
  with assms(1) obtain st1 where r: "runLatest now newId previousId intent st = Inr st1"
    by (auto simp: scheduleLatest_def bindR_eq_Inr)
  have q: "quiet st st1" by (rule quiet_runLatest [OF r assms(2)])
  have "quiet st1 st'"
  proof (cases "ok \<or> in_safeToRetry intent")
    case True
    with assms(1) Some r show ?thesis by (auto simp: scheduleLatest_def)
  next
    case False
    with assms(1) Some r have u: "updateJobs (heldForAttention intent)
        (\<lambda>j. j\<lparr>j_state := NeedsAttention, j_finishedAt := Some now,
               j_error := Some ''Previous execution did not settle safely; review this request before rerunning'',
               j_data := scrub j\<rparr>) st1 = Inr st'"
      by (auto simp: scheduleLatest_def mapR_eq_Inr)
    show ?thesis
    proof (rule quiet_update [OF u])
      fix j assume "heldForAttention intent j"
      then have "j_state j \<noteq> Active" by (auto simp: heldForAttention_def queuedState_def)
      then show "claimKept j (j\<lparr>j_state := NeedsAttention, j_finishedAt := Some now,
               j_error := Some ''Previous execution did not settle safely; review this request before rerunning'',
               j_data := scrub j\<rparr>)" by (simp add: claimKept_def)
    qed (simp add: ok_defs queuedState_def)
  qed
  with q show ?thesis by (rule quiet_trans)
qed

lemma quiet_settleEnded:
  assumes "settleEnded now newId jobId latest attention st = Inr st'"
    and "\<And>j. j \<in> set (jobs st) \<Longrightarrow> j_id j = jobId \<Longrightarrow> j_state j \<noteq> Active"
  shows "quiet st st'"
proof -
  obtain st1 ids st2 where u: "updateJobs (\<lambda>j. j_id j = jobId) (\<lambda>j. j\<lparr>j_latestPending := None\<rparr>) st = Inr st1"
    and l: "(if attention then Inr ([], st1) else scheduleLatest now newId jobId latest False st1) = Inr (ids, st2)"
    and s: "settleDependencies now (jobId # ids) st2 = Inr st'"
    using assms(1) by (auto simp: settleEnded_def bindR_eq_Inr)
  have q1: "quiet st st1" by (rule quiet_update [OF u]) (simp_all add: claimKept_def ok_defs)
  have idle: "j_state j \<noteq> Active" if j: "j \<in> set (jobs st1)" "j_id j = jobId" for j
  proof -
    obtain i where "i \<in> set (jobs st)" "j = (if j_id i = jobId then i\<lparr>j_latestPending := None\<rparr> else i)"
      using j(1) u by (auto simp: updateJobs_Inr)
    then show ?thesis using j(2) assms(2) [of i] by (simp split: if_splits)
  qed
  have q2: "quiet st1 st2"
  proof (cases attention)
    case True
    then show ?thesis using l by simp
  next
    case False
    then have "scheduleLatest now newId jobId latest False st1 = Inr (ids, st2)" using l by simp
    then show ?thesis using idle by (rule quiet_scheduleLatest)
  qed
  show ?thesis by (rule quiet_trans [OF quiet_trans [OF q1 q2] quiet_settle [OF s]])
qed

section \<open>Attempts under each kind of transaction\<close>

lemma attemptRunning_kept: "claimKept j j' \<Longrightarrow> attemptRunning a j \<Longrightarrow> attemptRunning a j'"
  by (auto simp: attemptRunning_def claimKept_def)

lemma attemptsOk_kept:
  assumes ok: "attemptsOk js as" and kept: "claimsKept js js'" and ids: "distinct (map j_id js')"
  shows "attemptsOk js' as"
proof -
  obtain old new where js': "js' = old @ new" and old: "list_all2 claimKept js old" and new: "list_all unclaimed new"
    using kept by (auto simp: claimsKept_def)
  have fwd: "\<exists>j' \<in> set old. claimKept j j'" if "j \<in> set js" for j
    using old that by (metis in_set_conv_nth list_all2_conv_all_nth)
  have bwd: "\<exists>j \<in> set js. claimKept j j'" if "j' \<in> set old" for j'
    using old that by (metis in_set_conv_nth list_all2_conv_all_nth)
  have known: "a_jobId a \<in> j_id ` set old" if "a \<in> set as" for a
  proof -
    obtain j where "j \<in> set js" "j_id j = a_jobId a" using ok \<open>a \<in> set as\<close> by (auto simp: attemptsOk_def)
    then show ?thesis using fwd by (force simp: claimKept_def)
  qed
  have "a_attempt a \<le> j_attempt j'" if "a \<in> set as" "j' \<in> set js'" "a_jobId a = j_id j'" for a j'
  proof -
    have "j_id j' \<in> j_id ` set old" using known [OF that(1)] that(3) by simp
    then have "j' \<in> set old" using that(2) ids js' by auto
    then obtain j where "j \<in> set js" "claimKept j j'" using bwd by blast
    then show ?thesis using ok that(1,3) by (auto simp: attemptsOk_def claimKept_def)
  qed
  moreover have "\<exists>a \<in> set as. openAttempt a \<and> attemptRunning a j'" if "j' \<in> set js'" "j_state j' = Active" for j'
  proof -
    have "j' \<in> set old" using that new js' by (auto simp: list_all_iff unclaimed_def)
    then obtain j where "j \<in> set js" "claimKept j j'" using bwd by blast
    then show ?thesis using ok that(2) unfolding attemptsOk_def by (metis attemptRunning_kept claimKept_def)
  qed
  moreover have "\<exists>j' \<in> set js'. attemptRunning a j'" if "a \<in> set as" "openAttempt a" for a
    using ok that fwd js' unfolding attemptsOk_def by (metis Un_iff attemptRunning_kept set_append)
  moreover have "a_jobId a \<in> j_id ` set js'" if "a \<in> set as" for a using known [OF that] js' by auto
  ultimately show ?thesis
    using ok unfolding attemptsOk_def by blast
qed

lemma quiet_storeOk: "quiet st st' \<Longrightarrow> storeOk st \<Longrightarrow> storeOk st'"
  unfolding quiet_def storeOk_def by (metis attemptsOk_kept distinct_ids rowsOk_def)

text \<open>The row of a claim, and that no other row carries its token.\<close>

lemma claimCandidates_queued:
  assumes "jobTableError (jobs st) = None" and "j \<in> set (jobs st)"
    and "j_id j \<in> set (claimCandidates now queue limit byHand locked st)"
  shows "claimable now queue byHand st j \<and> j_id j \<notin> locked"
proof -
  from assms(3) obtain i where "i \<in> set (jobs st)" "claimable now queue byHand st i" "j_id i \<notin> locked" "j_id i = j_id j"
    unfolding claimCandidates_def by (auto dest!: in_set_takeD)
  then show ?thesis using same_id [OF assms(1) _ assms(2)] by auto
qed

lemma jobOk_start:
  "jobOk j \<Longrightarrow> queuedState (j_state j) \<Longrightarrow> jobOk (startJob now workerId token j)"
  by (auto simp: ok_defs startJob_def)

lemma startJob_simps [simp]:
  "j_id (startJob now w t j) = j_id j" "j_state (startJob now w t j) = Active"
  "j_attempt (startJob now w t j) = Suc (j_attempt j)" "j_token (startJob now w t j) = Some t"
  "j_workerId (startJob now w t j) = Some w" "j_queue (startJob now w t j) = j_queue j"
  by (simp_all add: startJob_def)

lemma claimPending_Inr:
  assumes "claimPending now queue w limit byHand locked newToken st = Inr (cs, st')"
  defines "ids \<equiv> set (claimCandidates now queue limit byHand locked st)"
  defines "claimed \<equiv> map (\<lambda>j. startJob now w (newToken (j_id j)) j) (filter (\<lambda>j. j_id j \<in> ids) (jobs st))"
  shows "jobs st' = map (\<lambda>j. if j_id j \<in> ids then startJob now w (newToken (j_id j)) j else j) (jobs st) \<and>
         attempts st' = attempts st @ map (attemptOf now) claimed \<and> cs = map claimOf claimed \<and>
         (jobTableError (jobs st) = None \<longrightarrow> jobTableError (jobs st') = None) \<and>
         (cs \<noteq> [] \<longrightarrow> distinct (map a_token (attempts st')) \<and> distinct (map (\<lambda>a. (a_jobId a, a_attempt a)) (attempts st')))"
proof (cases "claimCandidates now queue limit byHand locked st = []")
  case True
  then show ?thesis using assms(1) by (simp add: claimPending_def ids_def claimed_def)
next
  case False
  have filt: "filter (\<lambda>j. j_id j \<in> ids) (map (\<lambda>j. if j_id j \<in> ids then startJob now w (newToken (j_id j)) j else j) (jobs st)) = claimed"
    unfolding claimed_def by (induction "jobs st") (auto simp: filter_map o_def)
  show ?thesis
    using assms(1) False filt
    by (auto simp: claimPending_def Let_def updateJobs_Inr bindR_eq_Inr mapR_eq_Inr insertAttempts_def ids_def split: if_splits)
qed

lemma jobs_by_id:
  assumes "jobTableError (jobs st) = None" and "i \<in> set (jobs st)" and "j \<in> set (jobs st)" and "attemptsOk (jobs st) as"
    and "a \<in> set as" and "a_jobId a = j_id j"
  shows "attemptRunning a i \<Longrightarrow> i = j"
  using assms same_id [OF assms(1-3)] by (simp add: attemptRunning_def)

lemma storeOk_claimPending:
  assumes ok: "storeOk st" and c: "claimPending now queue w limit byHand locked newToken st = Inr (cs, st')"
  shows "storeOk st' \<and> map a_token (attempts st') = map a_token (attempts st) @ map (the \<circ> c_token) cs \<and>
         (\<forall>a \<in> set (attempts st') - set (attempts st). openAttempt a) \<and> set (attempts st) \<subseteq> set (attempts st')"
proof -
  define ids where "ids = set (claimCandidates now queue limit byHand locked st)"
  define start where "start j = startJob now w (newToken (j_id j)) j" for j
  define claimed where "claimed = map start (filter (\<lambda>j. j_id j \<in> ids) (jobs st))"
  have table: "jobTableError (jobs st) = None" and rows: "\<forall>j \<in> set (jobs st). jobOk j" and at: "attemptsOk (jobs st) (attempts st)"
    using ok by (auto simp: storeOk_def rowsOk_def)
  note c' = claimPending_Inr [OF c, folded ids_def start_def, folded claimed_def]
  have js: "jobs st' = map (\<lambda>j. if j_id j \<in> ids then start j else j) (jobs st)"
    and as: "attempts st' = attempts st @ map (attemptOf now) claimed" and cs: "cs = map claimOf claimed"
    and table': "jobTableError (jobs st') = None" using c' table by auto
  have queued: "queuedState (j_state j)" if "j \<in> set (jobs st)" "j_id j \<in> ids" for j
    using claimCandidates_queued [OF table that(1)] that(2) by (auto simp: ids_def claimable_def)
  have start_simps [simp]: "j_id (start j) = j_id j" "j_state (start j) = Active" "j_attempt (start j) = Suc (j_attempt j)" for j
    by (simp_all add: start_def)
  have "map j_id (jobs st') = map j_id (jobs st)" by (simp add: js)
  then have ids': "j_id ` set (jobs st') = j_id ` set (jobs st)" by (metis set_map)
  have claimedI: "start j \<in> set claimed" if "j \<in> set (jobs st)" "j_id j \<in> ids" for j
    using that by (auto simp: claimed_def)
  have run: "attemptRunning (attemptOf now (start j)) (start j)" for j
    by (simp add: attemptRunning_def attemptOf_def start_def)
  have distinct: "distinct (map a_token (attempts st'))" "distinct (map (\<lambda>a. (a_jobId a, a_attempt a)) (attempts st'))"
    using c' at by (cases "cs = []"; auto simp: cs as attemptsOk_def)+
  have "attemptsOk (jobs st') (attempts st')"
    unfolding attemptsOk_def
  proof (intro conjI ballI impI distinct)
    fix a assume "a \<in> set (attempts st')"
    then consider "a \<in> set (attempts st)" | j where "j \<in> set (jobs st)" "j_id j \<in> ids" "a = attemptOf now (start j)"
      by (auto simp: as claimed_def)
    note here = this
    show "a_jobId a \<in> j_id ` set (jobs st')"
      using here at unfolding ids' by cases (auto simp: attemptsOk_def attemptOf_def)
    show "\<exists>j \<in> set (jobs st'). attemptRunning a j" if "openAttempt a"
      using here
    proof cases
      case 1
      then obtain j where j: "j \<in> set (jobs st)" "attemptRunning a j" using at \<open>openAttempt a\<close> by (auto simp: attemptsOk_def)
      then have "j_id j \<notin> ids" using queued [OF j(1)] by (auto simp: attemptRunning_def)
      with j show ?thesis by (force simp: js)
    next
      case (2 j)
      then show ?thesis using run [of j] by (force simp: js)
    qed
    fix j' assume "j' \<in> set (jobs st')" and same: "a_jobId a = j_id j'"
    then obtain j where j: "j \<in> set (jobs st)" "j' = (if j_id j \<in> ids then start j else j)" by (auto simp: js)
    show "a_attempt a \<le> j_attempt j'"
      using here
    proof cases
      case 1
      then have "a_attempt a \<le> j_attempt j" using at j same by (auto simp: attemptsOk_def split: if_splits)
      then show ?thesis using j by simp
    next
      case (2 i)
      then have "i = j" using same_id [OF table 2(1) j(1)] same j by (auto simp: attemptOf_def split: if_splits)
      then show ?thesis using 2 j by (simp add: attemptOf_def)
    qed
  next
    fix j' assume "j' \<in> set (jobs st')" and act: "j_state j' = Active"
    then obtain j where j: "j \<in> set (jobs st)" "j' = (if j_id j \<in> ids then start j else j)" by (auto simp: js)
    show "\<exists>a \<in> set (attempts st'). openAttempt a \<and> attemptRunning a j'"
    proof (cases "j_id j \<in> ids")
      case True
      then have "attemptOf now (start j) \<in> set (attempts st')" using claimedI [OF j(1)] by (simp add: as)
      then show ?thesis using run [of j] True j by (force simp: openAttempt_def attemptOf_def)
    next
      case False
      then have "j_state j = Active" "j' = j" using j act by auto
      then show ?thesis using at j(1) by (force simp: attemptsOk_def as)
    qed
  qed
  moreover have "\<forall>j \<in> set (jobs st'). jobOk j"
    using rows queued by (auto simp: js start_def intro: jobOk_start)
  ultimately show ?thesis
    using table' by (auto simp: storeOk_def rowsOk_def as cs claimed_def attemptOf_def claimOf_def openAttempt_def)
qed

text \<open>What a transaction that settles a claim does to the attempts.\<close>

definition finishedTokens :: "'d store \<Rightarrow> uuid set" where
  "finishedTokens st = a_token ` {a \<in> set (attempts st). \<not> openAttempt a}"

definition settles :: "uuid \<Rightarrow> 'd store \<Rightarrow> 'd store \<Rightarrow> bool" where
  "settles t st st' \<longleftrightarrow>
     t \<in> a_token ` set (attempts st) \<and> t \<notin> finishedTokens st \<and>
     map a_token (attempts st') = map a_token (attempts st) \<and> finishedTokens st' = insert t (finishedTokens st)"

lemma storeOk_settle:
  assumes ok: "storeOk st" and row: "row \<in> set (jobs st)" "j_state row = Active" "j_token row = Some t"
    and jobs': "jobs st' = map (\<lambda>j. if j = row then f j else j) (jobs st)" and table': "jobTableError (jobs st') = None"
    and f: "j_id (f row) = j_id row" "j_attempt (f row) = j_attempt row" "j_state (f row) \<noteq> Active" "jobOk row \<Longrightarrow> jobOk (f row)"
    and attempts': "attempts st' = map (\<lambda>a. if Q a then g a else a) (attempts st)"
    and Q: "\<And>a. a \<in> set (attempts st) \<Longrightarrow> a_jobId a = j_id row \<or> a_token a \<noteq> t \<Longrightarrow> Q a \<longleftrightarrow> a_token a = t"
    and g: "\<And>a. a_jobId (g a) = a_jobId a \<and> a_attempt (g a) = a_attempt a \<and> a_token (g a) = a_token a \<and> \<not> openAttempt (g a)"
  shows "storeOk st' \<and> settles t st st'"
proof -
  have table: "jobTableError (jobs st) = None" and rows: "\<forall>j \<in> set (jobs st). jobOk j" and at: "attemptsOk (jobs st) (attempts st)"
    using ok by (auto simp: storeOk_def rowsOk_def)
  obtain b where b: "b \<in> set (attempts st)" "openAttempt b" "attemptRunning b row"
    using at row by (auto simp: attemptsOk_def)
  then have bt: "a_token b = t" "a_jobId b = j_id row" using row by (auto simp: attemptRunning_def)
  have onlyb: "a = b" if "a \<in> set (attempts st)" "a_token a = t" for a
  proof -
    have "inj_on a_token (set (attempts st))" using at by (simp add: attemptsOk_def distinct_map)
    then show ?thesis using that b(1) bt(1) by (auto dest: inj_onD)
  qed
  have Q': "Q a \<longleftrightarrow> a = b" if "a \<in> set (attempts st)" for a
    using Q [OF that] onlyb [OF that] bt by metis
  have as: "attempts st' = map (\<lambda>a. if a = b then g a else a) (attempts st)" using Q' by (simp add: attempts')
  have keys: "map a_token (attempts st') = map a_token (attempts st)"
    "map (\<lambda>a. (a_jobId a, a_attempt a)) (attempts st') = map (\<lambda>a. (a_jobId a, a_attempt a)) (attempts st)"
    by (simp_all add: as g)
  have "map j_id (jobs st') = map j_id (jobs st)" using f by (simp add: jobs')
  then have ids': "j_id ` set (jobs st') = j_id ` set (jobs st)" by (metis set_map)
  have old: "\<exists>j \<in> set (jobs st). j_id j = j_id j' \<and> j_attempt j = j_attempt j' \<and> (j_state j' = Active \<longrightarrow> j' = j \<and> j \<noteq> row)"
    if "j' \<in> set (jobs st')" for j'
    using that f row by (auto simp: jobs' split: if_splits)
  have olda: "\<exists>a \<in> set (attempts st). a_jobId a = a_jobId a' \<and> a_attempt a = a_attempt a' \<and> (openAttempt a' \<longrightarrow> a' = a \<and> a \<noteq> b)"
    if "a' \<in> set (attempts st')" for a'
    using that g b(1) by (auto simp: as split: if_splits)
  have "attemptsOk (jobs st') (attempts st')"
    unfolding attemptsOk_def
  proof (intro conjI ballI impI)
    show "distinct (map a_token (attempts st'))" "distinct (map (\<lambda>a. (a_jobId a, a_attempt a)) (attempts st'))"
      using at unfolding keys by (auto simp: attemptsOk_def)
  next
    fix a' assume a': "a' \<in> set (attempts st')"
    then obtain a where a: "a \<in> set (attempts st)" "a_jobId a = a_jobId a'" "a_attempt a = a_attempt a'"
      "openAttempt a' \<longrightarrow> a' = a \<and> a \<noteq> b" using olda by blast
    have "a_jobId a \<in> j_id ` set (jobs st)" using at a(1) by (simp add: attemptsOk_def)
    then show "a_jobId a' \<in> j_id ` set (jobs st')" using a(2) ids' by simp
    show "a_attempt a' \<le> j_attempt j'" if j': "j' \<in> set (jobs st')" "a_jobId a' = j_id j'" for j'
    proof -
      obtain j where j: "j \<in> set (jobs st)" "j_id j = j_id j'" "j_attempt j = j_attempt j'" using old [OF j'(1)] by blast
      then have "a_attempt a \<le> j_attempt j" using attemptsOk_le [OF at a(1) j(1)] a(2) j(2) j'(2) by simp
      then show ?thesis using a(3) j(3) by simp
    qed
    assume "openAttempt a'"
    then have "a' = a" "a \<noteq> b" using a(4) by auto
    then obtain j where j: "j \<in> set (jobs st)" "attemptRunning a j" using at a(1) \<open>openAttempt a'\<close> by (auto simp: attemptsOk_def)
    then have "j \<noteq> row" using onlyb [OF a(1)] \<open>a \<noteq> b\<close> row(3) by (auto simp: attemptRunning_def)
    then have "j \<in> set (jobs st')" using j(1) by (force simp: jobs')
    then show "\<exists>j \<in> set (jobs st'). attemptRunning a' j" using j(2) \<open>a' = a\<close> by blast
  next
    fix j' assume "j' \<in> set (jobs st')" "j_state j' = Active"
    then have j: "j' \<in> set (jobs st)" "j' \<noteq> row" using old by blast+
    then obtain a where a: "a \<in> set (attempts st)" "openAttempt a" "attemptRunning a j'"
      using at \<open>j_state j' = Active\<close> by (auto simp: attemptsOk_def)
    then have "a \<noteq> b" using bt j same_id [OF table j(1) row(1)] by (auto simp: attemptRunning_def)
    then have "a \<in> set (attempts st')" using a(1) by (force simp: as)
    then show "\<exists>a \<in> set (attempts st'). openAttempt a \<and> attemptRunning a j'" using a by blast
  qed
  moreover have "\<forall>j \<in> set (jobs st'). jobOk j" using rows f(4) by (auto simp: jobs')
  moreover have "finishedTokens st' = insert t (finishedTokens st)"
  proof -
    have "{a \<in> set (attempts st'). \<not> openAttempt a} = insert (g b) {a \<in> set (attempts st). \<not> openAttempt a}"
      using b(1,2) g [of b] by (auto simp: as)
    then show ?thesis using g [of b] bt(1) by (simp add: finishedTokens_def)
  qed
  moreover have "t \<notin> finishedTokens st" using onlyb b(2) by (auto simp: finishedTokens_def)
  ultimately show ?thesis using table' keys(1) b(1) bt by (auto simp: storeOk_def rowsOk_def settles_def)
qed

section \<open>The transactions that settle claims\<close>

definition idle :: "uuid \<Rightarrow> 'd store \<Rightarrow> bool" where
  "idle i st \<longleftrightarrow> (\<forall>j \<in> set (jobs st). j_id j = i \<longrightarrow> j_state j \<noteq> Active)"

lemma idle_kept:
  assumes "idle i st" and "claimsKept (jobs st) (jobs st')"
  shows "idle i st'"
proof -
  obtain old new where js': "jobs st' = old @ new" and old: "list_all2 claimKept (jobs st) old" and new: "list_all unclaimed new"
    using assms(2) by (auto simp: claimsKept_def)
  have "\<exists>j \<in> set (jobs st). claimKept j j'" if "j' \<in> set old" for j'
    using old that by (metis in_set_conv_nth list_all2_conv_all_nth)
  then show ?thesis
    using assms(1) new unfolding idle_def js' by (fastforce simp: claimKept_def list_all_iff unclaimed_def)
qed

lemma idle_quiet: "idle i st \<Longrightarrow> quiet st st' \<Longrightarrow> rowsOk st \<Longrightarrow> idle i st'"
  unfolding quiet_def by (blast intro: idle_kept)

lemma settles_quiet: "settles t st st1 \<Longrightarrow> quiet st1 st2 \<Longrightarrow> settles t st st2"
  by (simp add: settles_def quiet_def finishedTokens_def)

lemma jobOk_complete: "jobOk j \<Longrightarrow> jobOk (completeJob clock j)"
  by (simp add: ok_defs completeJob_def)

lemma completeJob_simps [simp]:
  "j_id (completeJob clock j) = j_id j" "j_attempt (completeJob clock j) = j_attempt j" "j_state (completeJob clock j) = Completed"
  by (simp_all add: completeJob_def)

lemma currentClaim_row:
  assumes "jobTableError (jobs st) = None" and "find_first (currentClaim clock cl) (jobs st) = Some row"
    and "leaseValid clock' row" and "j \<in> set (jobs st)"
  shows "currentClaim clock' cl j \<longleftrightarrow> j = row"
  using assms find_first_Some [OF assms(2)] same_id [OF assms(1), of j row] by (auto simp: currentClaim_def)

text \<open>\<open>quiet_scheduleLatest\<close> in a state that a transaction has reached.\<close>

lemma quiet_latest: "scheduleLatest now newId i latest ok st = Inr (ids, st') \<Longrightarrow> idle i st \<Longrightarrow> quiet st st'"
  by (erule quiet_scheduleLatest) (simp add: idle_def)

lemma quiet_ended: "settleEnded now newId i latest attention st = Inr st' \<Longrightarrow> idle i st \<Longrightarrow> quiet st st'"
  by (erule quiet_settleEnded) (simp add: idle_def)

lemma storeOk_complete:
  assumes ok: "storeOk st" and c: "complete now clock clock' ownKey newId cl followups adopt st = Inr (True, st')"
  shows "\<exists>t. c_token cl = Some t \<and> storeOk st' \<and> settles t st st'"
proof -
  obtain row where row: "find_first (currentClaim clock cl) (jobs st) = Some row"
    using c by (cases "find_first (currentClaim clock cl) (jobs st)") (simp_all add: complete_def)
  note cur = find_first_Some [OF row]
  obtain t where t: "c_token cl = Some t" "j_token row = Some t" using cur by (auto simp: currentClaim_def)
  obtain d st1 n st3 where lease: "leaseValid clock' row"
    and u: "updateJobs (currentClaim clock' cl) (completeJob clock') (st\<lparr>domain := d\<rparr>) = Inr st1"
    and e: "enqueueFollowups now ownKey cl followups
              (updateAttempts (\<lambda>a. Some (a_token a) = c_token cl)
                 (\<lambda>a. a\<lparr>a_outcome := Some (EndedIn Completed), a_finishedAt := Some now\<rparr>) st1) = Inr (n, st3)"
    and l: "\<exists>ids. scheduleLatest now newId (c_id cl) (j_latestPending row) True st3 = Inr (ids, st')"
    using c row by (auto simp: complete_def bindR_eq_Inr mapR_eq_Inr split: if_splits)
  let ?st2 = "updateAttempts (\<lambda>a. Some (a_token a) = c_token cl)
                 (\<lambda>a. a\<lparr>a_outcome := Some (EndedIn Completed), a_finishedAt := Some now\<rparr>) st1"
  have table: "jobTableError (jobs st) = None" using ok by (simp add: storeOk_def rowsOk_def)
  have P: "currentClaim clock' cl j \<longleftrightarrow> j = row" if "j \<in> set (jobs st)" for j
    by (rule currentClaim_row [OF table row lease that])
  have jobs1: "jobs st1 = map (\<lambda>j. if j = row then completeJob clock' j else j) (jobs st)"
    and table1: "jobTableError (jobs st1) = None" and at1: "attempts st1 = attempts st"
    using u P by (auto simp: updateJobs_Inr cong: map_cong)
  have settled: "storeOk ?st2 \<and> settles t st ?st2"
    by (rule storeOk_settle [OF ok, where row = row and f = "completeJob clock'" and Q = "\<lambda>a. Some (a_token a) = c_token cl"
          and g = "\<lambda>a. a\<lparr>a_outcome := Some (EndedIn Completed), a_finishedAt := Some now\<rparr>"])
       (use cur t jobs1 table1 at1 in \<open>simp_all add: currentClaim_def updateAttempts_def jobOk_complete openAttempt_def\<close>)
  have "idle (c_id cl) ?st2" using same_id [OF table] cur by (auto simp: idle_def updateAttempts_def jobs1 currentClaim_def)
  moreover have q1: "quiet ?st2 st3" using e unfolding enqueueFollowups_def by (rule quiet_enqueue)
  ultimately have "idle (c_id cl) st3" using settled by (auto simp: storeOk_def intro: idle_quiet)
  then have "quiet st3 st'" using l quiet_latest by blast
  then have "quiet ?st2 st'" by (rule quiet_trans [OF q1])
  with settled t(1) show ?thesis by (blast intro: quiet_storeOk settles_quiet)
qed

lemma jobOk_defer: "jobOk j \<Longrightarrow> j_state j = Active \<Longrightarrow> jobOk (deferJob clock reason j)"
  by (auto simp: ok_defs deferJob_def)

lemma storeOk_defer:
  assumes ok: "storeOk st" and c: "defer_claim clock cl reason st = Inr (True, st')"
  shows "\<exists>t. c_token cl = Some t \<and> storeOk st' \<and> settles t st st'"
proof -
  have "list_ex (currentClaim clock cl) (jobs st)" using c by (auto simp: defer_claim_def split: if_splits)
  then obtain row where row: "find_first (currentClaim clock cl) (jobs st) = Some row"
    by (cases "find_first (currentClaim clock cl) (jobs st)") (auto simp: list_ex_iff)
  note cur = find_first_Some [OF row]
  obtain t where t: "c_token cl = Some t" "j_token row = Some t" using cur by (auto simp: currentClaim_def)
  obtain st1 where u: "updateJobs (currentClaim clock cl) (deferJob clock reason) st = Inr st1"
    and st': "st' = updateAttempts (\<lambda>a. Some (a_token a) = c_token cl)
             (\<lambda>a. a\<lparr>a_outcome := Some Deferred, a_finishedAt := Some clock, a_error := Some (reasonText reason)\<rparr>) st1"
    using c by (auto simp: defer_claim_def mapR_eq_Inr split: if_splits)
  have table: "jobTableError (jobs st) = None" using ok by (simp add: storeOk_def rowsOk_def)
  have P: "currentClaim clock cl j \<longleftrightarrow> j = row" if "j \<in> set (jobs st)" for j
    by (rule currentClaim_row [OF table row _ that]) (use cur in \<open>simp add: currentClaim_def\<close>)
  have jobs1: "jobs st1 = map (\<lambda>j. if j = row then deferJob clock reason j else j) (jobs st)"
    and table1: "jobTableError (jobs st1) = None" and at1: "attempts st1 = attempts st"
    using u P by (auto simp: updateJobs_Inr cong: map_cong)
  have "storeOk st' \<and> settles t st st'"
    by (rule storeOk_settle [OF ok, where row = row and f = "deferJob clock reason" and Q = "\<lambda>a. Some (a_token a) = c_token cl"
          and g = "\<lambda>a. a\<lparr>a_outcome := Some Deferred, a_finishedAt := Some clock, a_error := Some (reasonText reason)\<rparr>"])
       (use cur t jobs1 table1 at1 jobOk_defer in \<open>simp_all add: st' currentClaim_def updateAttempts_def openAttempt_def deferJob_def\<close>)
  with t(1) show ?thesis by blast
qed

lemma failedState_ended: "failedState pgText unconfirmedStop j \<noteq> Active \<and> failedState pgText unconfirmedStop j \<noteq> Waiting"
  by (simp add: failedState_def)

lemma failedState_Pending: "failedState pgText unconfirmedStop j = Pending \<Longrightarrow> retryAvailable j"
  by (simp add: failedState_def split: if_splits)

lemma failJob_simps [simp]:
  "j_id (failJob now pgText u reason j) = j_id j" "j_attempt (failJob now pgText u reason j) = j_attempt j"
  "j_state (failJob now pgText u reason j) = failedState pgText u j"
  "j_retryBaseAttempt (failJob now pgText u reason j) = j_retryBaseAttempt j"
  "j_latestPending (failJob now pgText u reason j) = j_latestPending j"
  "j_queue (failJob now pgText u reason j) = j_queue j" "j_dedupKey (failJob now pgText u reason j) = j_dedupKey j"
  by (simp_all add: failJob_def)

lemma jobOk_fail: "jobOk j \<Longrightarrow> jobOk (failJob now pgText u reason j)"
  using failedState_ended [of pgText u j] failedState_Pending [of pgText u j]
  by (auto simp: ok_defs queuedState_def retryAvailable_def)

lemma quiet_others [simp]: "quiet st (st\<lparr>domain := d\<rparr>)" "quiet st (settleOperation now operation u reason st)"
  by (auto simp: quiet_def rowsOk_def settleOperation_def split: option.splits)

lemma storeOk_applyFailure:
  assumes ok: "storeOk st" and row: "row \<in> set (jobs st)" "failOwned clock jobId queue token opts row"
    and a: "applyFailure now clock pgText jobId queue token opts row u reason newId st = Inr st'"
  shows "storeOk st' \<and> (if queuedCancellation opts then quiet st st' else \<exists>t. token = Some t \<and> settles t st st')"
proof -
  have table: "jobTableError (jobs st) = None" and at: "attemptsOk (jobs st) (attempts st)"
    using ok by (auto simp: storeOk_def rowsOk_def)
  define failed where "failed = failJob now pgText u reason row"
  obtain st1 d where up: "updateJobs (failOwned clock jobId queue token opts) (failJob now pgText u reason) st = Inr st1"
    and rest: "(let st3 = settleOperation now (if expiredRecovery opts \<or> queuedCancellation opts \<and> u then ownedOperation pgText row else None) u reason
                  ((failAttempts now jobId token opts (j_state failed) (j_error failed) st1)\<lparr>domain := d\<rparr>)
       in if j_state failed = Pending then Inr st3
          else settleEnded now newId jobId (j_latestPending row) (unconfirmedAttention pgText row u) st3) = Inr st'"
    using a unfolding applyFailure_def bindR_eq_Inr failed_def Let_def by blast
  define st2 where "st2 = failAttempts now jobId token opts (j_state failed) (j_error failed) st1"
  define st3 where "st3 = settleOperation now (if expiredRecovery opts \<or> queuedCancellation opts \<and> u then ownedOperation pgText row else None)
      u reason (st2\<lparr>domain := d\<rparr>)"
  have id: "j_id row = jobId" using row(2) by (simp add: failOwned_def)
  have P: "failOwned clock jobId queue token opts j \<longleftrightarrow> j = row" if "j \<in> set (jobs st)" for j
    using row same_id [OF table that row(1)] by (auto simp: failOwned_def)
  have jobs1: "jobs st1 = map (\<lambda>j. if j = row then failJob now pgText u reason j else j) (jobs st)"
    and table1: "jobTableError (jobs st1) = None" and at1: "attempts st1 = attempts st" and w1: "workers st1 = workers st"
    using up P by (auto simp: updateJobs_Inr cong: map_cong)
  have jobs2: "jobs st2 = jobs st1" by (simp add: st2_def failAttempts_def updateAttempts_def)
  have step2: "storeOk st2 \<and> (if queuedCancellation opts then quiet st st2 else \<exists>t. token = Some t \<and> settles t st st2)"
  proof (cases "queuedCancellation opts")
    case True
    then have q: "queuedState (j_state row)" using row(2) by (simp add: failOwned_def)
    have "\<not> (a_jobId x = jobId \<and> openAttempt x)" if x': "x \<in> set (attempts st)" for x
    proof
      assume x: "a_jobId x = jobId \<and> openAttempt x"
      then obtain j where "j \<in> set (jobs st)" "attemptRunning x j"
        using attemptsOk_running [OF at x'] x by blast
      then have "j_id j = j_id row" "j_state j = Active" using x id by (simp_all add: attemptRunning_def)
      then have "j = row" using same_id [OF table _ row(1)] \<open>j \<in> set (jobs st)\<close> by blast
      then show False using q \<open>j_state j = Active\<close> by simp
    qed
    then have as: "attempts st2 = attempts st"
      unfolding st2_def failAttempts_def updateAttempts_def using True at1
      by (auto simp: openAttempt_def intro!: map_idI) force
    have "quiet st st2"
      unfolding quiet_def
    proof (intro conjI impI)
      assume "rowsOk st"
      then have "jobOk j" if "j \<in> set (jobs st)" for j using that by (simp add: rowsOk_def)
      then show "rowsOk st2" using table1 by (auto simp: rowsOk_def jobs2 jobs1 intro: jobOk_fail)
      show "claimsKept (jobs st) (jobs st2)"
        unfolding jobs2 jobs1 using q failedState_ended [of pgText u row]
        by (intro claimsKept_map) (auto simp: claimKept_def)
    qed (rule as, simp add: st2_def failAttempts_def updateAttempts_def w1)
    then show ?thesis using True ok quiet_storeOk by auto
  next
    case False
    then obtain t where t: "token = Some t" "j_token row = Some t" "j_state row = Active" using row(2) by (auto simp: failOwned_def)
    have "storeOk st2 \<and> settles t st st2"
      by (rule storeOk_settle [OF ok, where row = row and f = "failJob now pgText u reason"
            and Q = "\<lambda>a. a_jobId a = jobId \<and> (if queuedCancellation opts then a_finishedAt a = None else Some (a_token a) = token)"
            and g = "\<lambda>a. a\<lparr>a_outcome := Some (EndedIn (j_state failed)), a_finishedAt := Some now, a_error := j_error failed\<rparr>"])
         (use row t jobs1 table1 at1 id False failedState_ended [of pgText u row] jobOk_fail in
           \<open>auto simp: jobs2 st2_def failAttempts_def updateAttempts_def openAttempt_def\<close>)
    then show ?thesis using t(1) False by simp
  qed
  have q23: "quiet st2 st3" unfolding st3_def by (rule quiet_trans [OF quiet_others(1) quiet_others(2)])
  have "idle jobId st3"
    using failedState_ended [of pgText u row] id same_id [OF table _ row(1)]
    by (auto simp: idle_def st3_def settleOperation_def jobs2 jobs1 split: option.splits)
  then have "quiet st3 st'"
    using rest unfolding st2_def [symmetric] st3_def [symmetric] Let_def
    by (cases "j_state failed = Pending") (auto intro: quiet_ended)
  then have q: "quiet st2 st'" by (rule quiet_trans [OF q23])
  have "settles t st st2 \<Longrightarrow> settles t st st'" "quiet st st2 \<Longrightarrow> quiet st st'" for t
    by (rule settles_quiet [OF _ q], assumption) (rule quiet_trans [OF _ q])
  moreover have "storeOk st'" using step2 quiet_storeOk [OF q] by blast
  ultimately show ?thesis using step2 by (auto split: if_splits)
qed

lemma storeOk_fail:
  assumes ok: "storeOk st" and f: "fail now clock clock' pgText newId jobId queue token reason diagnostic opts st = Inr (b, st')"
  shows "storeOk st' \<and>
     (if b \<and> \<not> queuedCancellation opts then \<exists>t. token = Some t \<and> settles t st st' else quiet st st')"
proof (cases "find_first (failOwned clock jobId queue token opts) (jobs st)")
  case None
  with ok f show ?thesis by (auto simp: fail_def)
next
  case (Some row)
  note row = find_first_Some [OF Some]
  have wait: "quiet st st'" if "updateJobs (\<lambda>j. j_id j = jobId)
      (\<lambda>j. j\<lparr>j_cancelRequestedAt := (if j_cancelRequestedAt j = None then Some clock else j_cancelRequestedAt j),
             j_cancelReason := (if j_cancelRequestedAt j = None then Some DeadlineCause else j_cancelReason j),
             j_error := Some ''Waiting for confirmation that the executor has stopped''\<rparr>) st = Inr st'"
    by (rule quiet_update [OF that]) (simp_all add: claimKept_def ok_defs)
  consider "st' = st" "\<not> b" | "quiet st st'" "\<not> b"
    | d u reason' where "applyFailure now clock pgText jobId queue token opts row u reason' newId (st\<lparr>domain := d\<rparr>) = Inr st'" "b"
  proof (cases "\<exists>d u reason'. applyFailure now clock pgText jobId queue token opts row u reason' newId (st\<lparr>domain := d\<rparr>) = Inr st' \<and> b")
    case True
    then show thesis using that(3) by blast
  next
    case False
    have "applyFailure now clock pgText jobId queue token opts row u reason' newId st \<noteq> Inr st'" if b for u reason'
      using False that by (metis store.surjective store.update_convs(9))
    then show thesis
      using f Some wait False that(1,2)
      by (auto simp: fail_def Let_def mapR_eq_Inr bindR_eq_Inr split: if_splits option.splits)
  qed
  then show ?thesis
  proof cases
    case 3
    have "quiet (st\<lparr>domain := d\<rparr>) st' \<Longrightarrow> quiet st st'" by (rule quiet_trans [OF quiet_others(1)])
    moreover have "storeOk (st\<lparr>domain := d\<rparr>)" using ok by (rule quiet_storeOk [OF quiet_others(1)])
    ultimately show ?thesis
      using storeOk_applyFailure [OF _ _ _ 3(1)] row 3(2)
      by (auto simp: settles_def finishedTokens_def intro: quiet_trans split: if_splits)
  qed (use ok in \<open>auto intro: quiet_storeOk\<close>)
qed

lemma restoredState_ended: "restoredState st j \<noteq> Active \<and> restoredState st j \<noteq> Waiting"
  by (simp add: restoredState_def)

lemma restoredState_Pending: "restoredState st j = Pending \<Longrightarrow> retryAvailable j \<and> repeatable j \<and> \<not> cancelledByRequest j"
  by (simp add: restoredState_def split: if_splits)

lemma restoreJob_simps [simp]:
  "j_id (restoreJob now st j) = j_id j" "j_attempt (restoreJob now st j) = j_attempt j"
  "j_state (restoreJob now st j) = restoredState st j" "j_retryBaseAttempt (restoreJob now st j) = j_retryBaseAttempt j"
  "j_latestPending (restoreJob now st j) = None"
  by (simp_all add: restoreJob_def)

lemma jobOk_restore: "jobOk j \<Longrightarrow> jobOk (restoreJob now st j)"
  using restoredState_ended [of st j] restoredState_Pending [of st j]
  by (auto simp: ok_defs queuedState_def retryAvailable_def)

lemma storeOk_restore:
  assumes ok: "storeOk st" and r: "resetQueueAfterRestore now st = Inr st'"
  shows "storeOk st' \<and> map a_token (attempts st') = map a_token (attempts st) \<and>
         finishedTokens st' = a_token ` set (attempts st') \<and> (\<forall>j \<in> set (jobs st'). j_state j \<noteq> Active)"
proof -
  have rows: "\<forall>j \<in> set (jobs st). jobOk j" and at: "attemptsOk (jobs st) (attempts st)"
    using ok by (auto simp: storeOk_def rowsOk_def)
  define f where "f j = (if restoreReset j then restoreJob now (restoreAttempts now st) j else j)" for j :: job
  define g where "g a = (if a_finishedAt a \<noteq> None then a
       else (case jobById st (a_jobId a) of None \<Rightarrow> a
             | Some j \<Rightarrow> a\<lparr>a_outcome := Some (restoredOutcome st j), a_finishedAt := Some now\<rparr>))" for a :: jobAttempt
  have js: "jobs st' = map f (jobs st)" and as: "attempts st' = map g (attempts st)" and table': "jobTableError (jobs st') = None"
    using r by (auto simp: resetQueueAfterRestore_def Let_def mapR_eq_Inr updateJobs_Inr restoreAttempts_def f_def [abs_def] g_def [abs_def])
  have f: "j_id (f j) = j_id j" "j_attempt (f j) = j_attempt j" "j_state (f j) \<noteq> Active" "jobOk j \<Longrightarrow> jobOk (f j)" for j
    using restoredState_ended [of "restoreAttempts now st" j] jobOk_restore [of j now "restoreAttempts now st"]
    by (auto simp: f_def restoreReset_def)
  have g: "a_jobId (g a) = a_jobId a" "a_attempt (g a) = a_attempt a" "a_token (g a) = a_token a" for a :: jobAttempt
    by (simp_all add: g_def split: option.splits)
  have closed: "\<not> openAttempt (g a)" if a: "a \<in> set (attempts st)" for a
  proof -
    obtain j where "j \<in> set (jobs st)" "j_id j = a_jobId a" using at a by (auto simp: attemptsOk_def)
    then have "jobById st (a_jobId a) \<noteq> None" unfolding jobById_def find_first_None by blast
    then obtain i where "jobById st (a_jobId a) = Some i" by blast
    then show ?thesis by (simp add: g_def openAttempt_def)
  qed
  have keys: "map a_token (attempts st') = map a_token (attempts st)"
    "map (\<lambda>a. (a_jobId a, a_attempt a)) (attempts st') = map (\<lambda>a. (a_jobId a, a_attempt a)) (attempts st)"
    by (simp_all add: as g comp_def)
  have ids: "j_id ` set (jobs st') = j_id ` set (jobs st)" unfolding js by (simp add: f(1) image_image)
  have "attemptsOk (jobs st') (attempts st')"
    unfolding attemptsOk_def
  proof (intro conjI ballI impI)
    show "distinct (map a_token (attempts st'))" "distinct (map (\<lambda>a. (a_jobId a, a_attempt a)) (attempts st'))"
      using at unfolding keys by (auto simp: attemptsOk_def)
  next
    fix a' assume "a' \<in> set (attempts st')"
    then obtain a where a: "a \<in> set (attempts st)" "a' = g a" by (auto simp: as)
    show "a_jobId a' \<in> j_id ` set (jobs st')" using at a unfolding ids by (auto simp: attemptsOk_def g)
    show "\<exists>j \<in> set (jobs st'). attemptRunning a' j" if "openAttempt a'" using that closed a by blast
    show "a_attempt a' \<le> j_attempt j'" if j': "j' \<in> set (jobs st')" "a_jobId a' = j_id j'" for j'
    proof -
      obtain j where j: "j \<in> set (jobs st)" "j' = f j" using j'(1) by (auto simp: js)
      then show ?thesis using attemptsOk_le [OF at a(1) j(1)] j'(2) a(2) by (simp add: f g)
    qed
  next
    fix j' assume "j' \<in> set (jobs st')" "j_state j' = Active"
    then show "\<exists>a \<in> set (attempts st'). openAttempt a \<and> attemptRunning a j'" using f(3) by (auto simp: js)
  qed
  moreover have "finishedTokens st' = a_token ` set (attempts st')"
    using closed by (auto simp: finishedTokens_def as)
  ultimately show ?thesis
    using table' rows f(3,4) keys(1) by (auto simp: storeOk_def rowsOk_def js)
qed

end
