(* ===== verification/JobSteps.thy ===== *)
theory JobSteps
  imports JobClaims
begin

text \<open>The transactions of the job store as a step relation, and what holds of every run.\<close>

section \<open>The step relation\<close>

text \<open>
  Columns of a row that other modules write under their own fences (a cancellation request, a pause, a producer's
  checkpoint, the run of a producer): none of them is part of the claim, of the retry budget or of the row's key.
\<close>

definition outsideWrite :: "job \<Rightarrow> job \<Rightarrow> bool" where
  "outsideWrite j j' \<longleftrightarrow>
     j_id j' = j_id j \<and> j_queue j' = j_queue j \<and> j_state j' = j_state j \<and> j_dedupKey j' = j_dedupKey j \<and>
     j_latestPending j' = j_latestPending j \<and> j_attempt j' = j_attempt j \<and> j_retryBaseAttempt j' = j_retryBaseAttempt j \<and>
     j_token j' = j_token j \<and> j_workerId j' = j_workerId j \<and> j_leaseExpiresAt j' = j_leaseExpiresAt j"

datatype storeEvent = QuietEvent | ClaimedEvent "uuid list" | SettledEvent uuid | RestoredEvent

inductive store_step :: "'d store \<Rightarrow> storeEvent \<Rightarrow> 'd store \<Rightarrow> bool" where
  step_enqueue: "enqueue now intents liveRunId st = Inr (n, st') \<Longrightarrow> store_step st QuietEvent st'"
| step_admitRun: "admitRun now newId kind selection intents st = Inr (r, st') \<Longrightarrow> store_step st QuietEvent st'"
| step_claim: "claimTx now queue w maxClaims queueLocked locked newToken st = Inr (cs, st') \<Longrightarrow>
    store_step st (ClaimedEvent (map (the \<circ> c_token) cs)) st'"
| step_startNow: "startNow queue jobId st = Inr (b, st') \<Longrightarrow> store_step st QuietEvent st'"
| step_heartbeat: "heartbeat now clock w claims locked st = Inr st' \<Longrightarrow> store_step st QuietEvent st'"
| step_progress: "reportProgress now clock cl n st = Inr st' \<Longrightarrow> store_step st QuietEvent st'"
| step_complete: "complete now clock clock' ownKey newId cl followups adopt st = Inr (True, st') \<Longrightarrow> c_token cl = Some t \<Longrightarrow>
    store_step st (SettledEvent t) st'"
| step_defer: "defer_claim clock cl reason st = Inr (True, st') \<Longrightarrow> c_token cl = Some t \<Longrightarrow> store_step st (SettledEvent t) st'"
| step_fail: "fail now clock clock' pgText newId jobId queue token reason diagnostic opts st = Inr (True, st') \<Longrightarrow>
    \<not> queuedCancellation opts \<Longrightarrow> token = Some t \<Longrightarrow> store_step st (SettledEvent t) st'"
| step_fail_queued: "fail now clock clock' pgText newId jobId queue token reason diagnostic opts st = Inr (b, st') \<Longrightarrow>
    queuedCancellation opts \<Longrightarrow> store_step st QuietEvent st'"
| step_fail_waits: "fail now clock clock' pgText newId jobId queue token reason diagnostic opts st = Inr (False, st') \<Longrightarrow>
    store_step st QuietEvent st'"
| step_wake: "wakeDeferred now ids reason st = Inr (n, st') \<Longrightarrow> store_step st QuietEvent st'"
| step_deadlines: "deadlines stallMs now w st = Inr (ids, st') \<Longrightarrow> store_step st QuietEvent st'"
| step_clear: "clear now pgText queue states ids st = Inr st' \<Longrightarrow> store_step st QuietEvent st'"
| step_cancelQueued: "cancelQueued now queue externalId st = Inr st' \<Longrightarrow> store_step st QuietEvent st'"
| step_retry: "retryPage now queue jobId limit st = Inr (n, st') \<Longrightarrow> store_step st QuietEvent st'"
| step_restore: "resetQueueAfterRestore now st = Inr st' \<Longrightarrow> store_step st RestoredEvent st'"
| step_outside: "list_all2 outsideWrite (jobs st) (jobs st') \<Longrightarrow> jobTableError (jobs st') = None \<Longrightarrow> attempts st' = attempts st \<Longrightarrow>
    store_step st QuietEvent st'"

inductive_cases store_stepE: "store_step st e st'"

inductive store_trace :: "'d store \<Rightarrow> storeEvent list \<Rightarrow> 'd store \<Rightarrow> bool" for st0 where
  trace_start: "store_trace st0 [] st0"
| trace_step: "store_trace st0 es st \<Longrightarrow> store_step st e st' \<Longrightarrow> store_trace st0 (es @ [e]) st'"

text \<open>Every settled claim reports its token: a transaction that returned true had one.\<close>

lemma complete_has_token: "complete now clock clock' ownKey newId cl followups adopt st = Inr (True, st') \<Longrightarrow> c_token cl \<noteq> None"
  by (auto simp: complete_def currentClaim_def split: option.splits dest!: find_first_Some)

text \<open>What each event does to the attempts.\<close>

fun eventEffect :: "storeEvent \<Rightarrow> 'd store \<Rightarrow> 'd store \<Rightarrow> bool" where
  "eventEffect QuietEvent st st' \<longleftrightarrow> attempts st' = attempts st"
| "eventEffect (ClaimedEvent ts) st st' \<longleftrightarrow>
     map a_token (attempts st') = map a_token (attempts st) @ ts \<and> finishedTokens st' = finishedTokens st"
| "eventEffect (SettledEvent t) st st' \<longleftrightarrow> settles t st st'"
| "eventEffect RestoredEvent st st' \<longleftrightarrow>
     map a_token (attempts st') = map a_token (attempts st) \<and> finishedTokens st' = a_token ` set (attempts st')"

lemma storeOk_claimTx:
  assumes ok: "storeOk st" and c: "claimTx now queue w maxClaims queueLocked locked newToken st = Inr (cs, st')"
  shows "storeOk st' \<and> map a_token (attempts st') = map a_token (attempts st) @ map (the \<circ> c_token) cs \<and>
         (\<forall>a \<in> set (attempts st') - set (attempts st). openAttempt a) \<and> set (attempts st) \<subseteq> set (attempts st')"
proof -
  consider (nothing) "cs = []" "st' = st"
    | (one) limit where "claimPending now queue w limit True locked newToken st = Inr (cs, st')"
    | (two) l1 c1 s1 l2 c2 where "claimPending now queue w l1 True locked newToken st = Inr (c1, s1)"
        "claimPending now queue w l2 False locked newToken s1 = Inr (c2, st')" "cs = c1 @ c2"
  proof (cases "queueRow st queue")
    case None
    then show thesis using c by - (rule nothing, simp_all add: claimTx_def)
  next
    case (Some config)
    show thesis
    proof (cases queueLocked)
      case True
      then show thesis using c Some by - (rule nothing, simp_all add: claimTx_def)
    next
      case False
      obtain c1 s1 where 1: "claimPending now queue w (nat (min (int QUEUE_BATCH) maxClaims)) True locked newToken st = Inr (c1, s1)"
        using c Some False by (auto simp: claimTx_def bindR_eq_Inr)
      show thesis
        using c Some False 1 one two [OF 1] by (simp add: claimTx_def Let_def mapR_eq_Inr split: if_splits) blast
    qed
  qed
  then show ?thesis
  proof cases
    case one
    from storeOk_claimPending [OF ok this] show ?thesis .
  next
    case two
    note p1 = storeOk_claimPending [OF ok two(1)]
    note p2 = storeOk_claimPending [OF conjunct1 [OF p1] two(2)]
    show ?thesis using p1 p2 two(3) by auto
  qed (use ok in simp)
qed

lemma quiet_outside:
  assumes "list_all2 outsideWrite (jobs st) (jobs st')" and "jobTableError (jobs st') = None" and "storeOk st"
    and "attempts st' = attempts st"
  shows "storeOk st'"
proof -
  have "list_all2 claimKept (jobs st) (jobs st')"
    using assms(1) by (rule list_all2_mono) (auto simp: outsideWrite_def claimKept_def)
  then have "claimsKept (jobs st) (jobs st')"
    unfolding claimsKept_def by (intro exI [of _ "jobs st'"] exI [of _ "[]"]) simp
  moreover have "\<forall>j \<in> set (jobs st'). jobOk j"
  proof
    fix j' assume "j' \<in> set (jobs st')"
    then obtain j where "j \<in> set (jobs st)" "outsideWrite j j'"
      using assms(1) by (metis in_set_conv_nth list_all2_conv_all_nth)
    then show "jobOk j'" using assms(3) by (auto simp: storeOk_def rowsOk_def outsideWrite_def ok_defs)
  qed
  moreover have "attemptsOk (jobs st) (attempts st)" using assms(3) by (simp add: storeOk_def)
  ultimately show ?thesis
    using assms(2,4) attemptsOk_kept distinct_ids [OF assms(2)] by (auto simp: storeOk_def rowsOk_def)
qed

lemma step_quiet: "quiet st st' \<Longrightarrow> storeOk st \<Longrightarrow> storeOk st' \<and> eventEffect QuietEvent st st'"
  using quiet_storeOk by (auto simp: quiet_def)

lemma step_ok:
  assumes "store_step st e st'" and ok: "storeOk st"
  shows "storeOk st' \<and> eventEffect e st st'"
  using assms(1)
proof cases
  case (step_claim now queue w maxClaims queueLocked locked newToken cs)
  note c = storeOk_claimTx [OF ok step_claim(2)]
  then have "finishedTokens st' = finishedTokens st" by (auto simp: finishedTokens_def)
  with c step_claim(1) show ?thesis by simp
next
  case (step_heartbeat now clock w claims locked)
  from quiet_heartbeat [OF step_heartbeat(2)] ok step_heartbeat(1) show ?thesis
    unfolding storeOk_def by (auto intro: attemptsOk_kept distinct_ids simp: rowsOk_def)
next
  case (step_complete now clock clock' ownKey newId cl followups adopt t)
  with storeOk_complete [OF ok step_complete(2)] show ?thesis by simp
next
  case (step_defer clock cl reason t)
  with storeOk_defer [OF ok step_defer(2)] show ?thesis by simp
next
  case (step_fail now clock clock' pgText newId jobId queue token reason diagnostic opts t)
  with storeOk_fail [OF ok step_fail(2)] show ?thesis by simp
next
  case (step_fail_queued now clock clock' pgText newId jobId queue token reason diagnostic opts b)
  with storeOk_fail [OF ok step_fail_queued(2)] show ?thesis by (auto simp: quiet_def)
next
  case (step_fail_waits now clock clock' pgText newId jobId queue token reason diagnostic opts)
  with storeOk_fail [OF ok step_fail_waits(2)] show ?thesis by (auto simp: quiet_def)
next
  case (step_restore now)
  with storeOk_restore [OF ok step_restore(2)] show ?thesis by simp
next
  case step_outside
  with quiet_outside [OF step_outside(2,3) ok] show ?thesis by simp
qed (use ok in \<open>auto simp: cancelQueued_def
  dest!: quiet_enqueue quiet_admitRun quiet_startNow quiet_progress quiet_wakeDeferred quiet_deadlines
    quiet_clear quiet_cancel quiet_retryPage intro: quiet_storeOk simp: quiet_def\<close>)

section \<open>Runs of the store\<close>

definition claimedTokens :: "storeEvent list \<Rightarrow> uuid list" where
  "claimedTokens es = concat (map (\<lambda>e. case e of ClaimedEvent ts \<Rightarrow> ts | _ \<Rightarrow> []) es)"

definition settledTokens :: "storeEvent list \<Rightarrow> uuid list" where
  "settledTokens es = concat (map (\<lambda>e. case e of SettledEvent t \<Rightarrow> [t] | _ \<Rightarrow> []) es)"

lemma tokens_simps [simp]:
  "claimedTokens [] = []" "settledTokens [] = []"
  "claimedTokens (es @ fs) = claimedTokens es @ claimedTokens fs" "settledTokens (es @ fs) = settledTokens es @ settledTokens fs"
  "claimedTokens [e] = (case e of ClaimedEvent ts \<Rightarrow> ts | _ \<Rightarrow> [])" "settledTokens [e] = (case e of SettledEvent t \<Rightarrow> [t] | _ \<Rightarrow> [])"
  by (simp_all add: claimedTokens_def settledTokens_def)

lemma finished_claimed: "finishedTokens st \<subseteq> a_token ` set (attempts st)" by (auto simp: finishedTokens_def)

text \<open>What every run keeps: who has claimed, who has settled, and what is still open.\<close>

lemma trace_ok:
  assumes "store_trace st0 es st" and "storeOk st0"
  shows "storeOk st \<and> map a_token (attempts st) = map a_token (attempts st0) @ claimedTokens es \<and>
         distinct (settledTokens es) \<and> set (settledTokens es) \<union> finishedTokens st0 \<subseteq> finishedTokens st"
  using assms(1)
proof induction
  case trace_start
  then show ?case using assms(2) by simp
next
  case (trace_step es st e st')
  then have ok: "storeOk st" and keys: "map a_token (attempts st) = map a_token (attempts st0) @ claimedTokens es"
    and d: "distinct (settledTokens es)" and sub: "set (settledTokens es) \<union> finishedTokens st0 \<subseteq> finishedTokens st" by auto
  from step_ok [OF trace_step(2) ok] have step: "storeOk st'" "eventEffect e st st'" by auto
  have "finishedTokens st \<subseteq> finishedTokens st'"
  proof (cases e)
    case RestoredEvent
    then have "finishedTokens st' = set (map a_token (attempts st))" using step(2) by (metis eventEffect.simps(4) set_map)
    then show ?thesis using finished_claimed [of st] by simp
  qed (use step(2) in \<open>auto simp: settles_def finishedTokens_def\<close>)
  then show ?case
    using step keys d sub by (cases e) (auto simp: settles_def)
qed

lemma trace_settled:
  assumes "store_trace st0 (pre @ SettledEvent t # post) st" and "storeOk st0"
  shows "\<exists>st1. store_trace st0 pre st1 \<and> storeOk st1 \<and> t \<in> a_token ` set (attempts st1) \<and> t \<notin> finishedTokens st1"
  using assms(1)
proof (induction post arbitrary: st rule: rev_induct)
  case Nil
  then obtain st1 where "store_trace st0 pre st1" "store_step st1 (SettledEvent t) st"
    by (auto elim: store_trace.cases)
  then show ?case using step_ok trace_ok [OF _ assms(2)] by (fastforce simp: settles_def)
next
  case (snoc e post)
  then obtain st2 where "store_trace st0 (pre @ SettledEvent t # post) st2"
    by (auto elim: store_trace.cases)
  then show ?case by (rule snoc.IH)
qed

lemma trace_suffix:
  assumes "store_trace st0 (es @ fs) st"
  shows "\<exists>st1. store_trace st0 es st1 \<and> store_trace st1 fs st"
  using assms
proof (induction fs arbitrary: st rule: rev_induct)
  case Nil
  then show ?case by (auto intro: trace_start)
next
  case (snoc e fs)
  then obtain st2 where "store_trace st0 (es @ fs) st2" "store_step st2 e st"
    by (auto elim: store_trace.cases)
  then show ?case using snoc.IH by (blast intro: trace_step)
qed

text \<open>
  C3. Each claim of a job is settled at most once, and only by the claim itself. In any interleaving of the transactions
  of the store (enqueueing, claims by any worker, heartbeats, completions, deferrals, failures, recoveries of expired
  leases, cancellations, retries, a reset after a restore), no token is handed out twice, at most one transaction ever
  completes, defers or fails the claim of a token, it does so after that token was claimed, and after a restore only
  claims made since then can still be settled.
\<close>

theorem claim_settled_once:
  assumes "store_trace st0 es st" and "storeOk st0"
  shows "distinct (map a_token (attempts st0) @ claimedTokens es) \<and> distinct (settledTokens es) \<and>
    (\<forall>pre t post. es = pre @ SettledEvent t # post \<longrightarrow> t \<in> set (map a_token (attempts st0) @ claimedTokens pre)) \<and>
    (\<forall>pre mid t post. es = pre @ RestoredEvent # mid @ SettledEvent t # post \<longrightarrow> t \<in> set (claimedTokens mid))"
proof (intro conjI allI impI)
  from trace_ok [OF assms] have ok: "storeOk st" and keys: "map a_token (attempts st) = map a_token (attempts st0) @ claimedTokens es" by auto
  from ok have "distinct (map a_token (attempts st))" by (simp add: storeOk_def attemptsOk_def)
  then show "distinct (map a_token (attempts st0) @ claimedTokens es)" unfolding keys .
  show "distinct (settledTokens es)" using trace_ok [OF assms] by blast
next
  fix pre t post assume "es = pre @ SettledEvent t # post"
  then obtain st1 where "store_trace st0 pre st1" "t \<in> set (map a_token (attempts st1))"
    using trace_settled [of st0 pre t post st] assms by auto
  then show "t \<in> set (map a_token (attempts st0) @ claimedTokens pre)" using trace_ok [OF _ assms(2)] by metis
next
  fix pre mid t post assume "es = pre @ RestoredEvent # mid @ SettledEvent t # post"
  then have "store_trace st0 ((pre @ [RestoredEvent]) @ mid @ SettledEvent t # post) st" using assms(1) by simp
  then obtain s1 where s1: "store_trace st0 (pre @ [RestoredEvent]) s1" "store_trace s1 (mid @ SettledEvent t # post) st"
    using trace_suffix by blast
  then have ok1: "storeOk s1" using trace_ok [OF s1(1) assms(2)] by blast
  obtain s0 where "store_trace st0 pre s0" "store_step s0 RestoredEvent s1" using s1(1) by (auto elim: store_trace.cases)
  then have all: "finishedTokens s1 = a_token ` set (attempts s1)"
    using step_ok [of s0 RestoredEvent s1] trace_ok [OF _ assms(2)] by auto
  obtain s2 where s2: "store_trace s1 mid s2" "t \<in> a_token ` set (attempts s2)" "t \<notin> finishedTokens s2"
    using trace_settled [OF s1(2) ok1] by blast
  have "set (map a_token (attempts s2)) = set (map a_token (attempts s1)) \<union> set (claimedTokens mid)"
    "finishedTokens s1 \<subseteq> finishedTokens s2"
    using trace_ok [OF s2(1) ok1] by (metis set_append, blast)
  then show "t \<in> set (claimedTokens mid)" using s2(2,3) all by auto
qed

text \<open>A job that is pending, one that is active, and a worker: the witnesses start here.\<close>

definition exampleJob :: "uuid \<Rightarrow> job" where
  "exampleJob i =
     \<lparr>j_id = i, j_queue = ''q'', j_name = ''n'', j_data = JObj [], j_state = Pending, j_dedupKey = None, j_externalId = None,
      j_latestPending = None, j_safeToRetry = True, j_sensitive = False, j_deadlineMs = 1000, j_attempt = 0,
      j_retryBaseAttempt = 0, j_runId = None, j_itemKey = None, j_rootItemKey = None, j_parentId = None, j_token = None,
      j_workerId = None, j_availableAt = Available 5, j_createdAt = 5, j_startedAt = None, j_finishedAt = None,
      j_leaseExpiresAt = None, j_progressAt = None, j_progressUnits = 0, j_cancelRequestedAt = None, j_cancelReason = None,
      j_dependencyReason = None, j_error = None\<rparr>"

definition exampleStore :: "job list \<Rightarrow> jobAttempt list \<Rightarrow> unit store" where
  "exampleStore js as =
     \<lparr>jobs = js, attempts = as, runs = [], queues = [\<lparr>q_name = ''q'', q_paused = False, q_concurrency = 1, q_closedUntil = None\<rparr>],
      workers = [\<lparr>w_id = ''w'', w_startedAt = 0, w_heartbeatAt = 0, w_state = RunningWorker\<rparr>],
      stoppedAttempts = [], stoppedWorkers = [], operations = [], domain = ()\<rparr>"

lemma exampleStore_simps [simp]:
  "jobs (exampleStore js as) = js" "attempts (exampleStore js as) = as"
  "queueRow (exampleStore js as) ''q'' = Some \<lparr>q_name = ''q'', q_paused = False, q_concurrency = 1, q_closedUntil = None\<rparr>"
  "w_id ` set (workers (exampleStore js as)) = {''w''}"
  by (simp_all add: exampleStore_def queueRow_def)

definition exampleClaimed :: job where
  "exampleClaimed = startJob 10 ''w'' ''t'' (exampleJob ''j'')"

lemma example_ok: "storeOk (exampleStore [exampleJob ''j''] [])"
  by (simp add: storeOk_def rowsOk_def attemptsOk_def jobTableError_def liveKeys_def runStages_def ok_defs exampleJob_def)

lemma example_claim:
  "claimTx 10 ''q'' ''w'' 1 False {} (\<lambda>_. ''t'') (exampleStore [exampleJob ''j''] []) =
     Inr ([claimOf exampleClaimed], exampleStore [exampleClaimed] [attemptOf 10 exampleClaimed])"
  by (simp add: claimTx_def claimPending_def claimCandidates_def claimable_def Let_def parentCompleted_def cancelledByRequest_def
      updateJobs_def putJobs_def jobTableError_def liveKeys_def runStages_def insertAttempts_def closedNow_def activeCount_def
      STARTED_BY_HAND_def exampleClaimed_def startJob_def exampleJob_def exampleStore_def queueRow_def claimOf_def attemptOf_def
      QUEUE_BATCH_def)

lemma example_complete:
  "complete 20 20 20 (\<lambda>_. []) ''n'' (claimOf exampleClaimed) [] Inr (exampleStore [exampleClaimed] [attemptOf 10 exampleClaimed]) =
     Inr (True, exampleStore [completeJob 20 exampleClaimed]
       [(attemptOf 10 exampleClaimed)\<lparr>a_outcome := Some (EndedIn Completed), a_finishedAt := Some 20\<rparr>])"
  by (simp add: complete_def currentClaim_def leaseValid_def updateJobs_def putJobs_def jobTableError_def liveKeys_def runStages_def
      enqueueFollowups_def enqueue_def slices.simps [of _ "[]"] scheduleLatest_def updateAttempts_def
      exampleClaimed_def startJob_def exampleJob_def exampleStore_def claimOf_def attemptOf_def completeJob_def scrub_def LIVE_def)

lemma example_trace:
  "store_trace (exampleStore [exampleJob ''j''] []) ([] @ [ClaimedEvent [''t'']] @ [SettledEvent ''t''])
     (exampleStore [completeJob 20 exampleClaimed]
       [(attemptOf 10 exampleClaimed)\<lparr>a_outcome := Some (EndedIn Completed), a_finishedAt := Some 20\<rparr>])"
proof -
  have t: "c_token (claimOf exampleClaimed) = Some ''t''" by (simp add: claimOf_def exampleClaimed_def)
  have 1: "store_step (exampleStore [exampleJob ''j''] []) (ClaimedEvent [''t'']) (exampleStore [exampleClaimed] [attemptOf 10 exampleClaimed])"
    using step_claim [OF example_claim] t by simp
  note 2 = step_complete [OF example_complete t]
  show ?thesis unfolding append_assoc [symmetric] by (rule trace_step [OF trace_step [OF trace_start 1] 2])
qed

theorem claim_settled_once_witness:
  "distinct (settledTokens ([] @ [ClaimedEvent [''t'']] @ [SettledEvent ''t'']))"
  using claim_settled_once [OF example_trace example_ok] by blast



end
