(* ===== verification/JobLimits.thy ===== *)
theory JobLimits
  imports JobSteps
begin

text \<open>
  What single transactions of the job store promise: which jobs a claim takes, which jobs a failure blocks, what a
  restore may run again, when a request is refused by an index, and that a later request is not lost.
\<close>

section \<open>Updates that no index refuses\<close>

lemma distinct_filter_mono:
  assumes "distinct (map g (filter P xs))" and "\<And>x. x \<in> set xs \<Longrightarrow> Q x \<Longrightarrow> P x"
  shows "distinct (map g (filter Q xs))"
proof -
  have "filter Q xs = filter Q (filter P xs)" using assms(2) by (auto simp: filter_filter intro!: filter_cong)
  then show ?thesis using assms(1) by (metis distinct_map_filter)
qed

lemma jobTableError_None:
  "jobTableError js = None \<longleftrightarrow>
     distinct (map j_id js) \<and> distinct (liveKeys js) \<and> distinct (runStages js) \<and>
     (\<forall>j \<in> set js. (j_state j = Active) = (j_token j \<noteq> None))"
  by (auto simp: jobTableError_def list_all_iff)

lemma table_map:
  assumes ok: "jobTableError js = None"
    and f: "\<And>j. j \<in> set js \<Longrightarrow> j_id (f j) = j_id j \<and> j_queue (f j) = j_queue j \<and> j_dedupKey (f j) = j_dedupKey j \<and>
      j_runId (f j) = j_runId j \<and> j_itemKey (f j) = j_itemKey j \<and> j_name (f j) = j_name j"
    and live: "\<And>j. j \<in> set js \<Longrightarrow> LIVE (j_state (f j)) \<Longrightarrow> LIVE (j_state j)"
    and active: "\<And>j. j \<in> set js \<Longrightarrow> (j_state (f j) = Active) = (j_token (f j) \<noteq> None)"
  shows "jobTableError (map f js) = None"
proof -
  have "liveKeys (map f js) =
      map (\<lambda>j. (j_queue j, the (j_dedupKey j))) (filter (\<lambda>j. LIVE (j_state (f j)) \<and> j_dedupKey j \<noteq> None) js)"
    using f by (auto simp: liveKeys_def filter_map o_def intro!: map_cong filter_cong)
  then have "distinct (liveKeys (map f js))"
    using ok live by (auto simp: jobTableError_None liveKeys_def intro: distinct_filter_mono)
  moreover have stages: "runStages (map f js) = runStages js"
    using f by (auto simp: runStages_def filter_map o_def intro!: map_cong filter_cong)
  moreover have ids: "map j_id (map f js) = map j_id js" using f by simp
  ultimately show ?thesis
    using ok active unfolding jobTableError_None ids stages by auto
qed

section \<open>Dependents\<close>

definition dependsOn :: "job list \<Rightarrow> uuid \<Rightarrow> uuid \<Rightarrow> bool" where
  "dependsOn js p c \<longleftrightarrow> (\<exists>j \<in> set js. j_id j = c \<and> queuedState (j_state j) \<and> j_parentId j = Some p)"

lemma set_queuedChildren: "c \<in> set (queuedChildren js ps) \<longleftrightarrow> (\<exists>p \<in> set ps. dependsOn js p c)"
  by (auto simp: queuedChildren_def dependsOn_def split: option.splits)

text \<open>The rounds of a recursive query compute the closure of the relation its step follows.\<close>

lemma rounds_closure:
  assumes "\<And>xs c. c \<in> set (step xs) \<longleftrightarrow> (\<exists>x \<in> set xs. R x c)" and "\<And>x c. R x c \<Longrightarrow> c \<in> set universe"
    and "set frontier \<subseteq> set seen" and "\<And>x c. x \<in> set seen - set frontier \<Longrightarrow> R x c \<Longrightarrow> c \<in> set seen"
  shows "set (rounds step universe seen frontier) = {c. \<exists>s \<in> set seen. R\<^sup>*\<^sup>* s c}"
  using assms
proof (induction step universe seen frontier rule: rounds.induct)
  case (1 step universe seen)
  have "c \<in> set seen" if "R\<^sup>*\<^sup>* s c" "s \<in> set seen" for s c
    using that by induction (use 1(4) in auto)
  then show ?case by auto
next
  case (2 step universe seen x xs)
  define new where "new = filter (\<lambda>c. c \<notin> set seen \<and> c \<in> set universe) (step (x # xs))"
  have new: "c \<in> set new \<longleftrightarrow> c \<notin> set seen \<and> (\<exists>y \<in> set (x # xs). R y c)" for c
    using 2(2,3) by (auto simp: new_def)
  have "set (rounds step universe (seen @ new) new) = {c. \<exists>s \<in> set (seen @ new). R\<^sup>*\<^sup>* s c}"
  proof (rule 2(1) [OF new_def])
    show "c \<in> set (seen @ new)" if "y \<in> set (seen @ new) - set new" "R y c" for y c
      using that 2(5) new by (metis DiffD1 DiffD2 DiffI Un_iff set_append)
  qed (use 2(2,3) in auto)
  also have "\<dots> = {c. \<exists>s \<in> set seen. R\<^sup>*\<^sup>* s c}"
  proof (intro set_eqI iffI)
    fix c assume "c \<in> {c. \<exists>s \<in> set (seen @ new). R\<^sup>*\<^sup>* s c}"
    then obtain s where s: "s \<in> set seen \<or> s \<in> set new" "R\<^sup>*\<^sup>* s c" by auto
    show "c \<in> {c. \<exists>s \<in> set seen. R\<^sup>*\<^sup>* s c}"
    proof (cases "s \<in> set seen")
      case False
      then obtain y where "y \<in> set seen" "R y s" using s(1) new 2(4) by auto
      then show ?thesis using s(2) by (blast intro: converse_rtranclp_into_rtranclp)
    qed (use s(2) in blast)
  qed auto
  finally show ?case by (simp add: new_def Let_def)
qed

lemma set_blockedBy:
  "c \<in> set (blockedBy js parents) \<longleftrightarrow>
     (\<exists>p \<in> set parents. (\<exists>i \<in> set js. j_id i = p \<and> terminalFailure (j_state i)) \<and> (dependsOn js)\<^sup>+\<^sup>+ p c)"
proof -
  define failed where "failed = filter (\<lambda>p. list_ex (\<lambda>j. j_id j = p \<and> terminalFailure (j_state j)) js) parents"
  define first where "first = queuedChildren js failed"
  have "set (rounds (queuedChildren js) (map j_id js) first first) = {c. \<exists>s \<in> set first. (dependsOn js)\<^sup>*\<^sup>* s c}"
    by (rule rounds_closure) (auto simp: set_queuedChildren dependsOn_def)
  then have "c \<in> set (blockedBy js parents) \<longleftrightarrow> (\<exists>s \<in> set first. (dependsOn js)\<^sup>*\<^sup>* s c)"
    by (simp add: blockedBy_def Let_def failed_def first_def)
  also have "\<dots> \<longleftrightarrow> (\<exists>p \<in> set failed. (dependsOn js)\<^sup>+\<^sup>+ p c)"
    unfolding first_def Bex_def set_queuedChildren by (metis rtranclp_into_tranclp2 tranclpD)
  also have "\<dots> \<longleftrightarrow> (\<exists>p \<in> set parents. (\<exists>i \<in> set js. j_id i = p \<and> terminalFailure (j_state i)) \<and> (dependsOn js)\<^sup>+\<^sup>+ p c)"
    by (auto simp: failed_def list_ex_iff)
  finally show ?thesis .
qed

text \<open>
  C5. When jobs have ended without success, settling their dependencies blocks exactly the queued jobs that depend on
  one of them, directly or through a chain of queued jobs, changes no other row, and is never refused by the table.
\<close>

theorem dependents_blocked_exactly:
  assumes "jobTableError (jobs st) = None"
  shows "settleDependencies now parents st = Inr (st\<lparr>jobs := map (\<lambda>j.
    if \<exists>p \<in> set parents. (\<exists>i \<in> set (jobs st). j_id i = p \<and> terminalFailure (j_state i)) \<and> (dependsOn (jobs st))\<^sup>+\<^sup>+ p (j_id j)
    then j\<lparr>j_state := Blocked, j_error := Some ''Dependency did not succeed'', j_finishedAt := Some now\<rparr> else j) (jobs st)\<rparr>)"
proof -
  have "jobTableError (map (\<lambda>j. if j_id j \<in> set (blockedBy (jobs st) parents)
      then j\<lparr>j_state := Blocked, j_error := Some ''Dependency did not succeed'', j_finishedAt := Some now\<rparr> else j) (jobs st)) = None"
  proof (rule table_map [OF assms], goal_cases)
    case (3 j)
    have "j_state j \<noteq> Active" if b: "j_id j \<in> set (blockedBy (jobs st) parents)"
    proof -
      obtain i where "i \<in> set (jobs st)" "j_id i = j_id j" "queuedState (j_state i)" using blockedBy_queued [OF b] by blast
      then have "i = j" using same_id [OF assms _ 3] by blast
      then show ?thesis using \<open>queuedState (j_state i)\<close> by auto
    qed
    then show ?case using assms 3 by (auto simp: jobTableError_None)
  qed (simp_all add: LIVE_def split: if_splits)
  then show ?thesis
    unfolding settleDependencies_def updateJobs_Inr by (simp add: set_blockedBy cong: if_cong)
qed

definition exampleChild :: "uuid \<Rightarrow> uuid \<Rightarrow> job" where
  "exampleChild i p = (exampleJob i)\<lparr>j_parentId := Some p\<rparr>"

definition exampleFamily :: "unit store" where
  "exampleFamily = exampleStore [(exampleJob ''a'')\<lparr>j_state := Failed\<rparr>, exampleChild ''b'' ''a'', exampleChild ''c'' ''b''] []"

theorem dependents_blocked_exactly_witness:
  "map j_state (jobs (case settleDependencies 9 [''a''] exampleFamily of Inr st \<Rightarrow> st)) = [Failed, Blocked, Blocked]"
proof -
  have js: "jobs exampleFamily = [(exampleJob ''a'')\<lparr>j_state := Failed\<rparr>, exampleChild ''b'' ''a'', exampleChild ''c'' ''b'']"
    by (simp add: exampleFamily_def)
  have "jobTableError (jobs exampleFamily) = None"
    by (simp add: js jobTableError_def liveKeys_def runStages_def exampleChild_def exampleJob_def)
  note * = dependents_blocked_exactly [OF this, of 9 "[''a'']"]
  have d: "dependsOn (jobs exampleFamily) p c \<longleftrightarrow> (p = ''a'' \<and> c = ''b'') \<or> (p = ''b'' \<and> c = ''c'')" for p c
    by (auto simp: dependsOn_def js exampleChild_def exampleJob_def)
  have 1: "(dependsOn (jobs exampleFamily))\<^sup>+\<^sup>+ ''a'' ''b''" by (rule tranclp.r_into_trancl) (simp add: d)
  moreover have "(dependsOn (jobs exampleFamily))\<^sup>+\<^sup>+ ''a'' ''c''" by (rule tranclp.trancl_into_trancl [OF 1]) (simp add: d)
  moreover have "\<not> (dependsOn (jobs exampleFamily))\<^sup>+\<^sup>+ ''a'' ''a''"
  proof -
    have "c = ''b'' \<or> c = ''c''" if "(dependsOn (jobs exampleFamily))\<^sup>+\<^sup>+ ''a'' c" for c
      using that by (induction rule: tranclp.induct) (auto simp: d)
    then show ?thesis by fastforce
  qed
  ultimately show ?thesis
    unfolding * by (simp add: js terminalFailure_def exampleChild_def exampleJob_def)
qed

section \<open>Restore\<close>

text \<open>
  C7. The reset after a restore is never refused by the table, leaves the store well formed, and revokes every claim: no
  job is active, no attempt is open. A job that waits to run afterwards was waiting or running before, has a try left,
  does not belong to a media operation, was not cancelled by a request, and is either marked as safe to repeat or a
  database backup that had not started; a held job stays held.
\<close>

theorem restore_replays_only_repeatable:
  assumes ok: "storeOk st"
  shows "\<exists>st'. resetQueueAfterRestore now st = Inr st' \<and> storeOk st' \<and>
    (\<forall>j' \<in> set (jobs st'). j_state j' \<noteq> Active \<and> j_token j' = None) \<and> (\<forall>a \<in> set (attempts st'). a_finishedAt a \<noteq> None) \<and>
    (\<forall>j' \<in> set (jobs st'). queuedState (j_state j') \<longrightarrow>
       (\<exists>j \<in> set (jobs st). j_id j = j_id j' \<and> LIVE (j_state j) \<and> j_attempt j < j_retryBaseAttempt j + 2 \<and>
          \<not> operationOwned j \<and> \<not> cancelledByRequest j \<and>
          (j_safeToRetry j \<or> databaseBackup j \<and> queuedState (j_state j)) \<and>
          (queuedState (j_state j) \<and> j_availableAt j = HELD \<longrightarrow> j_availableAt j' = HELD)))"
proof -
  have table: "jobTableError (jobs st) = None" and rows: "\<forall>j \<in> set (jobs st). jobOk j"
    using ok by (auto simp: storeOk_def rowsOk_def)
  let ?st = "restoreAttempts now st"
  define f where "f j = (if restoreReset j then restoreJob now ?st j else j)" for j :: job
  have same: "jobs ?st = jobs st" by (simp add: restoreAttempts_def)
  have live: "LIVE (j_state j)" if "restoreReset j" for j
    using that by (auto simp: restoreReset_def LIVE_def queuedState_def)
  have idle: "j_state (f j) \<noteq> Active" for j
    using restoredState_ended [of ?st j] by (simp add: f_def restoreReset_def)
  have "jobTableError (map f (jobs st)) = None"
  proof (rule table_map [OF table])
    show "(j_state (f j) = Active) = (j_token (f j) \<noteq> None)" if "j \<in> set (jobs st)" for j
      using idle [of j] table that by (auto simp: jobTableError_None f_def restoreReset_def restoreJob_def)
  qed (use live in \<open>auto simp: f_def restoreJob_def split: if_splits\<close>)
  then obtain st' where st': "resetQueueAfterRestore now st = Inr st'" and js: "jobs st' = map f (jobs st)"
    by (auto simp: resetQueueAfterRestore_def Let_def mapR_eq_Inr updateJobs_Inr same f_def [abs_def])
  note kept = storeOk_restore [OF ok st']
  have "j_token j' = None" if "j' \<in> set (jobs st')" for j'
    using kept that by (auto simp: storeOk_def rowsOk_def jobTableError_None)
  moreover have "a_finishedAt a \<noteq> None" if a: "a \<in> set (attempts st')" for a
  proof
    assume "a_finishedAt a = None"
    then obtain j where "j \<in> set (jobs st')" "attemptRunning a j"
      using kept a attemptsOk_running [of "jobs st'" "attempts st'" a] by (auto simp: storeOk_def openAttempt_def)
    then show False using kept by (auto simp: attemptRunning_def)
  qed
  moreover have "\<exists>j \<in> set (jobs st). j_id j = j_id j' \<and> LIVE (j_state j) \<and> j_attempt j < j_retryBaseAttempt j + 2 \<and>
          \<not> operationOwned j \<and> \<not> cancelledByRequest j \<and> (j_safeToRetry j \<or> databaseBackup j \<and> queuedState (j_state j)) \<and>
          (queuedState (j_state j) \<and> j_availableAt j = HELD \<longrightarrow> j_availableAt j' = HELD)"
    if j': "j' \<in> set (jobs st')" "queuedState (j_state j')" for j'
  proof -
    obtain j where j: "j \<in> set (jobs st)" "j' = f j" using j'(1) by (auto simp: js)
    show ?thesis
    proof (cases "restoreReset j")
      case True
      then have "restoredState ?st j = Pending"
        using j'(2) j(2) restoredState_ended [of ?st j] by (auto simp: f_def queuedState_def)
      then have "retryAvailable j" "repeatable j" "\<not> cancelledByRequest j" "\<not> discardBackup j"
        by (auto simp: restoredState_def split: if_splits)
      then show ?thesis
        using j True live [OF True]
        by (intro bexI [OF _ j(1)])
           (auto simp: f_def retryAvailable_def repeatable_def discardBackup_def LIVE_def queuedState_def restoreJob_def)
    next
      case False
      then have kept: "j' = j" using j(2) by (simp add: f_def)
      then have queued: "queuedState (j_state j)" using j'(2) by simp
      then have "j_safeToRetry j" "\<not> operationOwned j" "\<not> cancelledByRequest j"
        using False by (simp_all add: restoreReset_def)
      moreover have "LIVE (j_state j)" using queued by (auto simp: queuedState_def LIVE_def)
      moreover have "j_attempt j < j_retryBaseAttempt j + 2"
        using rows j(1) queued by (simp add: jobOk_def budgetOk_def)
      ultimately show ?thesis unfolding kept using j(1) queued by blast
    qed
  qed
  ultimately show ?thesis using kept by (intro exI [of _ st'] conjI ballI impI) (simp_all only: st' kept simp_thms)
qed

theorem restore_replays_only_repeatable_witness:
  "\<exists>st'. resetQueueAfterRestore 50 (exampleStore [exampleJob ''j''] []) = Inr st' \<and> storeOk st'"
  using restore_replays_only_repeatable [OF example_ok, of 50] by blast

section \<open>Claims\<close>

lemma length_filter_ids:
  assumes "distinct (map j_id js)" and "set ids \<subseteq> j_id ` set js" and "distinct ids"
  shows "length (filter (\<lambda>j. j_id j \<in> set ids) js) = length ids"
proof -
  have "distinct (map j_id (filter (\<lambda>j. j_id j \<in> set ids) js))" using assms(1) by (simp add: distinct_map_filter)
  moreover have "set (map j_id (filter (\<lambda>j. j_id j \<in> set ids) js)) = set ids" using assms(2) by auto
  ultimately show ?thesis using assms(3) by (metis distinct_card length_map)
qed

lemma claimCandidates_ids:
  assumes "jobTableError (jobs st) = None"
    and ids_def: "ids = claimCandidates now queue limit byHand locked st"
  shows "distinct ids" "length ids \<le> limit" "set ids \<subseteq> j_id ` set (jobs st)"
proof -
  let ?rows = "sort_key claimOrder (filter (\<lambda>j. claimable now queue byHand st j \<and> j_id j \<notin> locked) (jobs st))"
  have "distinct (map j_id (jobs st))" using assms(1) by (simp add: jobTableError_None)
  then have "inj_on j_id (set (jobs st))" "distinct (jobs st)" by (simp_all add: distinct_map)
  then have "distinct ?rows" "inj_on j_id (set ?rows)" by (auto intro: inj_on_subset)
  then have "distinct (map j_id ?rows)" by (simp add: distinct_map)
  then show "distinct ids" unfolding ids_def claimCandidates_def by (simp add: take_map [symmetric] distinct_take)
  show "length ids \<le> limit" by (simp add: ids_def claimCandidates_def)
  show "set ids \<subseteq> j_id ` set (jobs st)" unfolding ids_def claimCandidates_def by (auto dest!: in_set_takeD)
qed

text \<open>What one round of claims takes: the claimed rows are those the round could see, and only they become active.\<close>

lemma claimPending_takes:
  assumes table: "jobTableError (jobs st) = None"
    and c: "claimPending now queue w limit byHand locked newToken st = Inr (cs, st')"
  defines "ids \<equiv> claimCandidates now queue limit byHand locked st"
  shows "length cs \<le> limit" "distinct (map c_id cs)" "set (map c_id cs) = set ids"
    "activeCount st' queue = activeCount st queue + length cs"
    "jobs st' = map (\<lambda>j. if j_id j \<in> set ids then startJob now w (newToken (j_id j)) j else j) (jobs st)"
    "jobTableError (jobs st') = None" "queues st' = queues st"
proof -
  define start where "start j = startJob now w (newToken (j_id j)) j" for j
  have start_simps [simp]: "j_id (start j) = j_id j" "j_state (start j) = Active" "j_queue (start j) = j_queue j" for j
    by (simp_all add: start_def)
  note c' = claimPending_Inr [OF c, folded ids_def start_def]
  have js: "jobs st' = map (\<lambda>j. if j_id j \<in> set ids then start j else j) (jobs st)"
    and cs: "cs = map claimOf (map start (filter (\<lambda>j. j_id j \<in> set ids) (jobs st)))"
    and table': "jobTableError (jobs st') = None" using c' table by auto
  note cand = claimCandidates_ids [OF table ids_def [THEN meta_eq_to_obj_eq]]
  have d: "distinct (map j_id (jobs st))" using table by (simp add: jobTableError_None)
  have len: "length cs = length ids" using length_filter_ids [OF d cand(3,1)] by (simp add: cs)
  then show "length cs \<le> limit" using cand(2) by simp
  have cids: "map c_id cs = map j_id (filter (\<lambda>j. j_id j \<in> set ids) (jobs st))" by (simp add: cs claimOf_def o_def)
  show "distinct (map c_id cs)" using d by (simp add: cids distinct_map_filter)
  show "set (map c_id cs) = set ids" using cand(3) by (auto simp: cids)
  show "jobs st' = map (\<lambda>j. if j_id j \<in> set ids then startJob now w (newToken (j_id j)) j else j) (jobs st)"
    using js by (simp add: start_def)
  show "jobTableError (jobs st') = None" by (rule table')
  have "length (filter (\<lambda>j. j_queue j = queue \<and> j_state j = Active) (map (\<lambda>j. if j_id j \<in> set ids then start j else j) xs)) =
        length (filter (\<lambda>j. j_queue j = queue \<and> j_state j = Active) xs) + length (filter (\<lambda>j. j_id j \<in> set ids) xs)"
    if "\<forall>j \<in> set xs. j_id j \<in> set ids \<longrightarrow> j_queue j = queue \<and> j_state j \<noteq> Active" for xs
    using that by (induction xs) auto
  moreover have "\<forall>j \<in> set (jobs st). j_id j \<in> set ids \<longrightarrow> j_queue j = queue \<and> j_state j \<noteq> Active"
  proof (intro ballI impI)
    fix j assume "j \<in> set (jobs st)" "j_id j \<in> set ids"
    then show "j_queue j = queue \<and> j_state j \<noteq> Active"
      using claimCandidates_queued [OF table, of j now queue limit byHand locked, folded ids_def]
      by (auto simp: claimable_def queuedState_def)
  qed
  ultimately show "activeCount st' queue = activeCount st queue + length cs"
    by (simp add: activeCount_def js cs)
  show "queues st' = queues st"
    using c by (auto simp: claimPending_def Let_def updateJobs_Inr bindR_eq_Inr mapR_eq_Inr insertAttempts_def split: if_splits)
qed

text \<open>The rows the second round of a transaction takes were queued, and claimable, before the first.\<close>

lemma later_claimable:
  assumes js: "jobs s1 = map (\<lambda>j. if j_id j \<in> ids then startJob now w (t j) j else j) (jobs st)"
    and started: "\<And>j. j \<in> set (jobs st) \<Longrightarrow> j_id j \<in> ids \<Longrightarrow> j_state j \<noteq> Completed"
    and j1: "j1 \<in> set (jobs s1)" "claimable now queue byHand s1 j1"
  shows "j1 \<in> set (jobs st) \<and> claimable now queue byHand st j1 \<and> j_id j1 \<notin> ids"
proof -
  obtain j where j: "j \<in> set (jobs st)" "j1 = (if j_id j \<in> ids then startJob now w (t j) j else j)"
    using j1(1) js by auto
  have "j_id j \<notin> ids" using j(2) j1(2) by (auto simp: claimable_def queuedState_def)
  then have same: "j1 = j" using j(2) by simp
  have "parentCompleted s1 j \<longrightarrow> parentCompleted st j"
    using started by (auto simp: parentCompleted_def js list_ex_iff split: option.splits if_splits)
  then show ?thesis using j(1) j1(2) same \<open>j_id j \<notin> ids\<close> by (simp add: claimable_def)
qed

definition claimedRow :: "int \<Rightarrow> string \<Rightarrow> bool \<Rightarrow> uuid set \<Rightarrow> 'd store \<Rightarrow> queueClaim \<Rightarrow> bool" where
  "claimedRow now queue byHand locked st cl \<longleftrightarrow>
     list_ex (\<lambda>j. j_id j = c_id cl \<and> c_id cl \<notin> locked \<and> claimable now queue byHand st j) (jobs st)"

lemma claimPending_rows:
  assumes table: "jobTableError (jobs st) = None"
    and c: "claimPending now queue w limit byHand locked newToken st = Inr (cs, st')" and cl: "cl \<in> set cs"
  shows "claimedRow now queue byHand locked st cl"
proof -
  let ?ids = "claimCandidates now queue limit byHand locked st"
  have "c_id cl \<in> set ?ids" using claimPending_takes(3) [OF table c] cl by (metis imageI set_map)
  moreover obtain j where "j \<in> set (jobs st)" "j_id j = c_id cl"
    using calculation claimCandidates_ids(3) [OF table refl, of now queue limit byHand locked] by (metis imageE subsetD)
  ultimately show ?thesis
    using claimCandidates_queued [OF table, of j now queue limit byHand locked]
    by (auto simp: claimedRow_def list_ex_iff)
qed

text \<open>
  C8. A claim never takes more than it was asked for nor more than a batch, never two claims on one job, and only jobs
  of its queue that wait to run, whose time has come or that were started by hand, that no request cancelled, whose
  parent completed and whose row no other transaction holds. Beyond the jobs started by hand it takes none of a queue
  that is paused or closed, and none past the queue's concurrency: the jobs running afterwards fit it.
\<close>

theorem claim_within_limits:
  assumes table: "jobTableError (jobs st) = None"
    and c: "claimTx now queue w maxClaims queueLocked locked newToken st = Inr (cs, st')"
  shows "int (length cs) \<le> min (int QUEUE_BATCH) (max 0 maxClaims) \<and> distinct (map c_id cs) \<and>
    (\<forall>cl \<in> set cs. claimedRow now queue True locked st cl \<or>
       claimedRow now queue False locked st cl \<and>
       (\<exists>q. queueRow st queue = Some q \<and> \<not> q_paused q \<and> \<not> closedNow now q \<and> int (activeCount st' queue) \<le> q_concurrency q))"
proof (cases "cs = []")
  case True
  then show ?thesis by (simp add: QUEUE_BATCH_def)
next
  case False
  let ?l1 = "nat (min (int QUEUE_BATCH) maxClaims)"
  obtain config where config: "queueRow st queue = Some config" using c False by (cases "queueRow st queue") (auto simp: claimTx_def)
  have "\<not> queueLocked" using c False config by (auto simp: claimTx_def)
  then obtain c1 s1 where first: "claimPending now queue w ?l1 True locked newToken st = Inr (c1, s1)"
    using c config by (auto simp: claimTx_def bindR_eq_Inr)
  let ?cap = "min (min (int QUEUE_BATCH - int (length c1)) (maxClaims - int (length c1))) (q_concurrency config - int (activeCount s1 queue))"
  note takes = claimPending_takes [OF table first]
  have n1: "int (length c1) \<le> min (int QUEUE_BATCH) (max 0 maxClaims)" using takes(1) by linarith
  have rows1: "claimedRow now queue True locked st cl" if "cl \<in> set c1" for cl by (rule claimPending_rows [OF table first that])
  consider (one) "cs = c1" "st' = s1"
    | (two) c2 where "claimPending now queue w (nat ?cap) False locked newToken s1 = Inr (c2, st')" "cs = c1 @ c2"
        "\<not> q_paused config" "\<not> closedNow now config" "?cap > 0"
  proof (cases "q_paused config \<or> closedNow now config \<or> int (length c1) \<ge> maxClaims \<or> ?cap \<le> 0")
    case True
    then show thesis
      using c config \<open>\<not> queueLocked\<close> first by - (rule one, simp_all add: claimTx_def Let_def del: min_less_iff_conj)
  next
    case False
    then obtain c2 where "claimPending now queue w (nat ?cap) False locked newToken s1 = Inr (c2, st')" "cs = c1 @ c2"
      using c config \<open>\<not> queueLocked\<close> first by (auto simp: claimTx_def Let_def mapR_eq_Inr)
    moreover have "\<not> q_paused config" "\<not> closedNow now config" "?cap > 0"
      using False by (simp_all only: de_Morgan_disj not_le simp_thms)
    ultimately show thesis by (rule two)
  qed
  then show ?thesis
  proof cases
    case one
    then show ?thesis using n1 takes(2) rows1 by simp
  next
    case two
    note takes2 = claimPending_takes [OF takes(6) two(1)]
    have n2: "int (length c2) \<le> ?cap" using takes2(1) two(5) by linarith
    have started: "j_state j \<noteq> Completed" if "j \<in> set (jobs st)" "j_id j \<in> set (claimCandidates now queue ?l1 True locked st)" for j
      using claimCandidates_queued [OF table that] by (auto simp: claimable_def queuedState_def)
    have second: "claimedRow now queue False locked st cl \<and> c_id cl \<notin> set (map c_id c1)" if cl: "cl \<in> set c2" for cl
    proof -
      obtain j1 where "j1 \<in> set (jobs s1)" "j_id j1 = c_id cl" "c_id cl \<notin> locked" "claimable now queue False s1 j1"
        using claimPending_rows [OF takes(6) two(1) cl] by (auto simp: claimedRow_def list_ex_iff)
      then show ?thesis
        using later_claimable [OF takes(5) started, of j1 queue False] takes(3) by (auto simp: claimedRow_def list_ex_iff)
    qed
    then have "\<forall>i \<in> c_id ` set c2. i \<notin> c_id ` set c1" by simp
    then have "c_id ` set c1 \<inter> c_id ` set c2 = {}" by blast
    then have "distinct (map c_id cs)" using takes(2) takes2(2) two(2) by simp
    moreover have "int (activeCount st' queue) \<le> q_concurrency config" using takes2(4) n2 by linarith
    moreover have "int (length cs) \<le> min (int QUEUE_BATCH) (max 0 maxClaims)" using two(2) n1 n2 by simp
    ultimately show ?thesis using two rows1 second config by auto
  qed
qed

theorem claim_within_limits_witness:
  "int (activeCount (exampleStore [exampleClaimed] [attemptOf 10 exampleClaimed]) ''q'') \<le> 1"
proof -
  have table: "jobTableError (jobs (exampleStore [exampleJob ''j''] [])) = None"
    using example_ok by (simp add: storeOk_def rowsOk_def)
  have "\<not> claimedRow 10 ''q'' True {} (exampleStore [exampleJob ''j''] []) (claimOf exampleClaimed)"
    by (simp add: claimedRow_def claimable_def exampleJob_def STARTED_BY_HAND_def)
  then show ?thesis
    using claim_within_limits [OF table example_claim] by auto
qed

section \<open>Requests\<close>

















end
