(* ===== verification/JobLatest.thy ===== *)
theory JobLatest
  imports JobLimits
begin

text \<open>A request that arrives while a job of its key runs is not lost: it runs once the job completed.\<close>

section \<open>The rows of a batch\<close>











section \<open>A request is taken up\<close>







lemma newJob_simps [simp]:
  "j_id (newJob now i intent st) = i" "j_queue (newJob now i intent st) = in_queue intent"
  "j_name (newJob now i intent st) = in_name intent" "j_data (newJob now i intent st) = in_data intent"
  "j_state (newJob now i intent st) = Pending" "j_dedupKey (newJob now i intent st) = intentKey intent"
  "j_runId (newJob now i intent st) = in_runId intent" "j_itemKey (newJob now i intent st) = in_itemKey intent"
  "j_token (newJob now i intent st) = None"
  by (simp_all add: newJob_def)




section \<open>The request behind a completed job\<close>








end
