(* ===== verification/StudioDrafts.thy ===== *)
theory StudioDrafts
  imports Frameleaf_Prelude "HOL-Library.List_Lexorder" "HOL-Library.Char_ord"
begin

text \<open>
  Studio's editor drafts (\<open>studio/adapters/web/src/draft-sync.ts\<close> and the parts of \<open>editor-frame.tsx\<close> that drive it):
  when the editor frame reloads from the host's graph, when it sends its own, and what the person is told is lost.
\<close>

section \<open>Mounts\<close>

text \<open>
  One editor instance. The code compares mounts by identity; every mount has a generation of its own, so a captured
  mount is its generation here.
\<close>

record editorMount =
  generation :: nat
  projectId :: string
  revision :: int
  graphVersion :: int
  loaded :: bool

record draftSendState =
  hostContent :: string
  mount :: editorMount
  pendingSend :: bool
  pendingSuperseded :: bool
  writePending :: bool
  writeVersion :: nat
  lostReportedFor :: "nat option"
  lostReportedMark :: "string option"
  disposed :: bool

record hostGraph =
  incoming :: string
  current :: string
  draftHeld :: bool
  hostVersion :: int

definition shouldReloadFromHost :: "string \<Rightarrow> string \<Rightarrow> string \<Rightarrow> bool \<Rightarrow> bool" where
  "shouldReloadFromHost incomingContent host shown held \<longleftrightarrow>
     \<not> held \<and> incomingContent \<noteq> host \<and> incomingContent \<noteq> shown"

datatype reconcileOutcome = Remount | Echo | Hold

definition reconcileHostGraph :: "draftSendState \<Rightarrow> hostGraph \<Rightarrow> reconcileOutcome \<times> draftSendState" where
  "reconcileHostGraph st input =
     (let kept = (if draftHeld input then Hold else Echo)
      in if hostVersion input > graphVersion (mount st) then
           (if incoming input \<noteq> current input then (Remount, st)
            else (kept, st\<lparr>mount := (mount st)\<lparr>graphVersion := hostVersion input\<rparr>\<rparr>))
         else if shouldReloadFromHost (incoming input) (hostContent st) (current input) (draftHeld input) then (Remount, st)
         else (kept, st))"

definition shouldResendDraft :: "bool \<Rightarrow> bool \<Rightarrow> bool \<Rightarrow> bool" where
  "shouldResendDraft pending online hasLease \<longleftrightarrow> pending \<and> online \<and> hasLease"

definition beginMount :: "draftSendState \<Rightarrow> string \<Rightarrow> int \<Rightarrow> int \<Rightarrow> draftSendState" where
  "beginMount st newId newRevision newVersion =
     st\<lparr>mount := \<lparr>generation = generation (mount st) + 1, projectId = newId, revision = newRevision,
                   graphVersion = newVersion, loaded = False\<rparr>,
        pendingSend := False, pendingSuperseded := False, writePending := False\<rparr>"

definition supersededEditLost :: "draftSendState \<Rightarrow> bool" where
  "supersededEditLost st \<longleftrightarrow> \<not> disposed st \<and> pendingSend st \<and> pendingSuperseded st"

definition editsLostOnRemount :: "draftSendState \<Rightarrow> bool \<Rightarrow> bool" where
  "editsLostOnRemount st unsent \<longleftrightarrow>
     supersededEditLost st \<or> \<not> disposed st \<and> loaded (mount st) \<and> (unsent \<or> pendingSend st \<or> writePending st)"

definition reportLost :: "draftSendState \<Rightarrow> nat \<Rightarrow> string option \<Rightarrow> bool \<times> draftSendState" where
  "reportLost st g mark =
     (if disposed st then (False, st)
      else if lostReportedFor st = Some g \<and> (mark = None \<or> mark = lostReportedMark st) then (False, st)
      else (True, st\<lparr>lostReportedMark := (if lostReportedFor st \<noteq> Some g \<or> mark \<noteq> None then mark else lostReportedMark st),
                      lostReportedFor := Some g\<rparr>))"

definition markLoaded :: "draftSendState \<Rightarrow> nat \<Rightarrow> draftSendState" where
  "markLoaded st g = (if generation (mount st) = g then st\<lparr>mount := (mount st)\<lparr>loaded := True\<rparr>\<rparr> else st)"

datatype loadOutcome = LoadDone | LoadFailed | LoadIgnored

definition loadFinished :: "draftSendState \<Rightarrow> string \<Rightarrow> bool \<Rightarrow> loadOutcome \<times> draftSendState" where
  "loadFinished st project ok =
     (if disposed st \<or> projectId (mount st) \<noteq> project \<or> loaded (mount st) then (LoadIgnored, st)
      else if \<not> ok then (LoadFailed, st)
      else (LoadDone, markLoaded st (generation (mount st))))"

definition acceptsWrite :: "draftSendState \<Rightarrow> nat \<Rightarrow> bool" where
  "acceptsWrite st g \<longleftrightarrow> \<not> disposed st \<and> generation (mount st) = g \<and> loaded (mount st)"

definition saveMayStart :: "draftSendState \<Rightarrow> string \<Rightarrow> bool" where
  "saveMayStart st project \<longleftrightarrow> projectId (mount st) = project \<and> acceptsWrite st (generation (mount st))"

definition confirmEcho :: "draftSendState \<Rightarrow> string \<Rightarrow> string \<Rightarrow> int \<Rightarrow> draftSendState" where
  "confirmEcho st content shown confirmed =
     (if loaded (mount st) \<and> content = shown \<and> confirmed > revision (mount st)
      then st\<lparr>mount := (mount st)\<lparr>revision := confirmed\<rparr>\<rparr> else st)"

text \<open>The timers a mount armed: those that will still fire, and those the mount tracks.\<close>

type_synonym 't mountTimers = "'t set \<times> 't set"

fun cancelMountTimer :: "'t option \<Rightarrow> 't mountTimers \<Rightarrow> 't mountTimers" where
  "cancelMountTimer None ts = ts"
| "cancelMountTimer (Some t) (armed, tracked) = (armed - {t}, tracked - {t})"

fun releaseMountTimers :: "'t mountTimers \<Rightarrow> 't mountTimers" where
  "releaseMountTimers (armed, tracked) = (armed - tracked, {})"

section \<open>What a draft holds\<close>

text \<open>
  \<open>stable\<close> writes a value with its keys in order and without undefined entries; \<open>primText\<close> is \<open>JSON.stringify\<close> of a
  primitive or a key. The text only serves to compare values.
\<close>

fun joinWith :: "string \<Rightarrow> string list \<Rightarrow> string" where
  "joinWith sep [] = []"
| "joinWith sep [x] = x"
| "joinWith sep (x # y # ys) = x @ sep @ joinWith sep (y # ys)"

definition MASK_FIELDS :: "string list" where
  "MASK_FIELDS = [''isMask'', ''maskType'', ''maskFeather'', ''maskOpacity'', ''maskInvert'']"

definition MASK_COMPANION_FIELDS :: "string list" where
  "MASK_COMPANION_FIELDS = [''blendMode'', ''pathClosed'', ''pathVertices'']"

function stable :: "(json \<Rightarrow> string) \<Rightarrow> json \<Rightarrow> string" where
  "stable primText (JArr xs) = ''['' @ joinWith '','' (map (stable primText) xs) @ '']''"
| "stable primText (JObj kvs) =
     ''{'' @ joinWith '','' (map (\<lambda>(k, v). primText (JStr k) @ '':'' @ stable primText v)
                               (sort_key fst (filter (\<lambda>(k, v). v \<noteq> JUndefined) kvs))) @ ''}''"
| "stable primText JUndefined = ''null''"
| "stable primText JNull = primText JNull"
| "stable primText (JBool b) = primText (JBool b)"
| "stable primText (JNum q) = primText (JNum q)"
| "stable primText (JStr t) = primText (JStr t)"
  by pat_completeness auto
termination
proof (relation "measure (\<lambda>(p, v). size v)", goal_cases)
  case (2 primText xs x)
  then show ?case by (auto dest: size_list_estimation' [of _ _ _ size])
next
  case (3 primText kvs kv k v)
  then have "(k, v) \<in> set kvs" by auto
  then have "size v < size_list (size_prod (\<lambda>x. 0) size) kvs"
    by (induction kvs) auto
  then show ?case by simp
qed simp

fun isObject :: "json \<Rightarrow> bool" where
  "isObject (JArr _) = True"
| "isObject (JObj _) = True"
| "isObject _ = False"

definition mainItems :: "json \<Rightarrow> json list" where
  "mainItems graph = (case jget (jget graph ''timeline'') ''items'' of JArr xs \<Rightarrow> filter isObject xs | _ \<Rightarrow> [])"

definition maskView :: "(json \<Rightarrow> string) \<Rightarrow> json \<Rightarrow> string" where
  "maskView primText item =
     stable primText (JObj (map (\<lambda>f. (f, jget item f)) MASK_FIELDS @
       (if jget item ''isMask'' = JBool True then [(''pathVertices'', jget item ''pathVertices'')] else [])))"

fun itemId :: "json \<Rightarrow> string option" where
  "itemId item = (case jget item ''id'' of JStr i \<Rightarrow> Some i | _ \<Rightarrow> None)"

definition shapeItems :: "json \<Rightarrow> (string \<times> json) list" where
  "shapeItems graph =
     concat (map (\<lambda>item. case itemId item of
         Some i \<Rightarrow> if jget item ''type'' = JStr ''shape'' then [(i, item)] else []
       | None \<Rightarrow> []) (mainItems graph))"

text \<open>\<open>new Map(pairs)\<close> keeps the last value of a key; \<open>{...value, key: v}\<close> copies and overrides.\<close>

definition maskedShapes :: "(json \<Rightarrow> string) \<Rightarrow> json \<Rightarrow> json \<Rightarrow> string list" where
  "maskedShapes primText before after =
     uniq (map fst (filter (\<lambda>(i, item). case map_of (rev (shapeItems before)) i of
           Some earlier \<Rightarrow> maskView primText earlier \<noteq> maskView primText item
         | None \<Rightarrow> False) (shapeItems after)))"

fun entriesOf :: "json \<Rightarrow> (string \<times> json) list" where
  "entriesOf (JObj kvs) = kvs"
| "entriesOf (JArr xs) = zip (map show_nat [0..<length xs]) xs"
| "entriesOf (JStr t) = zip (map show_nat [0..<length t]) (map (\<lambda>c. JStr [c]) t)"
| "entriesOf _ = []"

definition jput :: "string \<Rightarrow> json \<Rightarrow> (string \<times> json) list \<Rightarrow> (string \<times> json) list" where
  "jput k v kvs = (if k \<in> fst ` set kvs then map (\<lambda>(k', v'). (k', if k' = k then v else v')) kvs else kvs @ [(k, v)])"

definition stripItem :: "string list \<Rightarrow> json \<Rightarrow> json" where
  "stripItem masked item =
     (case itemId item of
        Some i \<Rightarrow>
          if i \<in> set masked
          then JObj (filter (\<lambda>(k, v). k \<notin> set MASK_FIELDS \<and> k \<notin> set MASK_COMPANION_FIELDS) (entriesOf item))
          else item
      | None \<Rightarrow> item)"

definition strip :: "(json \<Rightarrow> string) \<Rightarrow> string list \<Rightarrow> json \<Rightarrow> string" where
  "strip primText masked graph =
     (if \<not> isObject graph then stable primText graph
      else let timeline = jget graph ''timeline''
           in if \<not> truthy timeline \<or> masked = [] then stable primText graph
              else stable primText (JObj (jput ''timeline''
                     (JObj (jput ''items'' (JArr (map (stripItem masked) (mainItems graph))) (entriesOf timeline)))
                     (entriesOf graph))))"

definition editorDraftCommandIds :: "(json \<Rightarrow> string) \<Rightarrow> json \<Rightarrow> json \<Rightarrow> string list" where
  "editorDraftCommandIds primText before after =
     (let masked = maskedShapes primText before after;
          other = strip primText masked before \<noteq> strip primText masked after
      in map (\<lambda>_. ''clip.setMask'') masked @ (if other \<or> masked = [] then [''editor.save''] else []))"

section \<open>Sending a draft\<close>

text \<open>\<open>sendEditorDraft\<close> cut at its two awaits: the read of the mount's file and the answer of the host.\<close>

record draftResult =
  res_status :: string
  res_reason :: "string option"

definition isSuperseded :: "draftResult \<Rightarrow> bool" where
  "isSuperseded result \<longleftrightarrow> res_status result = ''rejected'' \<and> res_reason result = Some ''superseded''"

record draftSend =
  s_generation :: nat
  s_writeVersion :: nat
  s_base :: int
  s_version :: int

record stageCall =
  call_graph :: json
  call_base :: int
  call_version :: int
  call_commands :: "string list"

definition beginSend :: "draftSendState \<Rightarrow> nat \<Rightarrow> draftSend option" where
  "beginSend st g =
     (if acceptsWrite st g
      then Some \<lparr>s_generation = g, s_writeVersion = writeVersion st, s_base = revision (mount st), s_version = graphVersion (mount st)\<rparr>
      else None)"

datatype afterReadOutcome = SendDropped | AlreadyHeld bool | StageDraft string stageCall

definition afterRead ::
  "(string \<Rightarrow> json option) \<Rightarrow> (json \<Rightarrow> string) \<Rightarrow> (json \<Rightarrow> string) \<Rightarrow> draftSend \<Rightarrow> string option \<Rightarrow> draftSendState \<Rightarrow> afterReadOutcome" where
  "afterRead parse contentOf primText send text st =
     (if text = None \<or> text = Some [] \<or> \<not> acceptsWrite st (s_generation send) then SendDropped
      else case parse (the text) of
        None \<Rightarrow> SendDropped
      | Some graph \<Rightarrow>
          let content = contentOf graph
          in if content = hostContent st then AlreadyHeld (writeVersion st = s_writeVersion send)
             else StageDraft content
               \<lparr>call_graph = graph, call_base = s_base send, call_version = s_version send,
                call_commands = editorDraftCommandIds primText
                  (case parse (hostContent st) of None \<Rightarrow> JNull | Some previous \<Rightarrow> previous) graph\<rparr>)"

definition draftHeldAlready :: "bool \<Rightarrow> draftSendState \<Rightarrow> draftSendState" where
  "draftHeldAlready newest st = (if newest then st\<lparr>writePending := False\<rparr> else st)"

datatype afterStageOutcome = SendEnded | LostReported | SendAgain

definition afterStage :: "draftSend \<Rightarrow> string \<Rightarrow> draftResult \<Rightarrow> draftSendState \<Rightarrow> afterStageOutcome \<times> draftSendState" where
  "afterStage send content result st =
     (if \<not> acceptsWrite st (s_generation send) then
        (if isSuperseded result then
           (let (told, st') = reportLost st (s_generation send) None in (if told then LostReported else SendEnded, st'))
         else (SendEnded, st))
      else if res_status result = ''staged'' then
        (SendEnded, st\<lparr>hostContent := content, pendingSend := False, pendingSuperseded := False,
                       writePending := writeVersion st \<noteq> s_writeVersion send\<rparr>)
      else if isSuperseded result \<and> graphVersion (mount st) > s_version send then (SendAgain, st)
      else if res_status result = ''rejected'' \<and> res_reason result = Some ''invalid'' then (SendEnded, st\<lparr>pendingSend := False\<rparr>)
      else (SendEnded, st\<lparr>pendingSend := True, pendingSuperseded := isSuperseded result\<rparr>))"

section \<open>The frame\<close>

text \<open>A write of the workspace to a project file (\<open>watchDrafts\<close>), and the host's context (\<open>update\<close>, \<open>remount\<close>).\<close>

definition recordWrite :: "string \<Rightarrow> bool \<Rightarrow> draftSendState \<Rightarrow> draftSendState" where
  "recordWrite project relinkCommitting st =
     (if project \<noteq> projectId (mount st) \<or> \<not> acceptsWrite st (generation (mount st)) \<or> relinkCommitting then st
      else st\<lparr>writeVersion := writeVersion st + 1, writePending := True\<rparr>)"

definition mountProject :: "string \<Rightarrow> nat \<Rightarrow> string" where
  "mountProject engineProjectId g = (if g = 0 then engineProjectId else engineProjectId @ ''-m'' @ show_nat g)"

text \<open>\<open>shown\<close> is what the replaced instance shows; whether the person is told of lost edits.\<close>

definition remount ::
  "string \<Rightarrow> bool \<Rightarrow> int \<Rightarrow> int \<Rightarrow> string \<Rightarrow> string \<Rightarrow> nat \<Rightarrow> draftSendState \<Rightarrow> bool \<times> draftSendState" where
  "remount engineProjectId unsent newRevision newVersion content shown renderedGeneration st =
     (let replaced = generation (mount st);
          lost = editsLostOnRemount st unsent;
          st1 = (beginMount st (mountProject engineProjectId (replaced + 1)) newRevision newVersion)\<lparr>hostContent := content\<rparr>;
          mark = (if lost \<and> replaced = renderedGeneration then Some shown else None)
      in if lost then reportLost st1 replaced mark else (False, st1))"

definition settleHostGraph :: "hostGraph \<Rightarrow> bool \<Rightarrow> int \<Rightarrow> draftSendState \<Rightarrow> reconcileOutcome \<times> draftSendState" where
  "settleHostGraph input hasGraph confirmed st =
     (let (outcome, st') = (if hasGraph then reconcileHostGraph st input else (Hold, st))
      in if outcome = Echo
         then (Echo, confirmEcho (st'\<lparr>hostContent := incoming input\<rparr>) (incoming input) (current input) confirmed)
         else (outcome, st'))"

end
