(* ===== verification/StudioEditor.thy ===== *)
theory StudioEditor
  imports StudioDrafts
begin

text \<open>
  The editor frame as a session: saves, drafts in flight and their answers, contexts from the host and remounts, in any
  order the event loop may take them. Shown: a draft comes from the mount on screen and claims nothing newer, an edit
  that is not marked as waiting is the host's, and no edit the host lacks goes without the person being told.
\<close>

section \<open>The session\<close>

datatype sendTask = Begun draftSend | HasRead draftSend "string option" | Awaiting draftSend string


text \<open>
  \<open>puts\<close> are the writes of project files by project id, the newest first, \<open>saves\<close> the saves under way, \<open>staged\<close> the calls to the host and \<open>notices\<close> the
  mounts whose loss the person was told of; \<open>wrote\<close> records that the mount on screen has written.
\<close>

record studioSession =
  frame :: draftSendState
  rendered :: nat
  puts :: "(string \<times> string) list"
  saves :: "string list"
  sends :: "sendTask list"
  staged :: "(nat \<times> stageCall) list"
  notices :: "nat list"
  wrote :: bool


abbreviation files :: "studioSession \<Rightarrow> string \<Rightarrow> string option" where
  "files s \<equiv> map_of (puts s)"

definition onScreen :: "studioSession \<Rightarrow> editorMount" where
  "onScreen s = mount (frame s)"

text \<open>\<open>contentOf(await currentGraph(state))\<close>; the read of the in-memory file is taken to end before the next event.\<close>

definition currentContent :: "(string \<Rightarrow> json option) \<Rightarrow> (json \<Rightarrow> string) \<Rightarrow> studioSession \<Rightarrow> string" where
  "currentContent parse contentOf s =
     contentOf (case files s (projectId (onScreen s)) of
        None \<Rightarrow> JNull
      | Some text \<Rightarrow> if text = [] then JNull else (case parse text of None \<Rightarrow> JNull | Some graph \<Rightarrow> graph))"

definition writeFile :: "string \<Rightarrow> string \<Rightarrow> studioSession \<Rightarrow> studioSession" where
  "writeFile project text s =
     s\<lparr>puts := (project, text) # puts s,
       wrote := wrote s \<or> project = projectId (onScreen s) \<and> acceptsWrite (frame s) (generation (onScreen s)),
       frame := recordWrite project False (frame s)\<rparr>"

definition answered :: "afterStageOutcome \<Rightarrow> draftSend \<Rightarrow> draftSendState \<Rightarrow> sendTask list" where
  "answered outcome send st =
     (if outcome = SendAgain then (case beginSend st (s_generation send) of None \<Rightarrow> [] | Some again \<Rightarrow> [Begun again]) else [])"

inductive studio_step :: "string \<Rightarrow> (string \<Rightarrow> json option) \<Rightarrow> (json \<Rightarrow> string) \<Rightarrow> (json \<Rightarrow> string) \<Rightarrow> studioSession \<Rightarrow> studioSession \<Rightarrow> bool"
  for engine parse contentOf primText where
  step_save: "saveMayStart (frame s) project \<Longrightarrow>
    studio_step engine parse contentOf primText s (s\<lparr>saves := project # saves s\<rparr>)"
| step_write: "project \<in> set (saves s) \<Longrightarrow> studio_step engine parse contentOf primText s (writeFile project text s)"
| step_seed: "\<not> loaded (onScreen s) \<Longrightarrow>
    studio_step engine parse contentOf primText s (s\<lparr>puts := (projectId (onScreen s), text) # puts s\<rparr>)"
| step_load: "loadFinished (frame s) project ok = (outcome, st) \<Longrightarrow>
    studio_step engine parse contentOf primText s (s\<lparr>frame := st\<rparr>)"
| step_send: "beginSend (frame s) g = Some send \<Longrightarrow>
    studio_step engine parse contentOf primText s (s\<lparr>sends := Begun send # sends s\<rparr>)"
| step_read: "sends s = xs @ Begun send # ys \<Longrightarrow>
    studio_step engine parse contentOf primText s
      (s\<lparr>sends := xs @ HasRead send (files s (mountProject engine (s_generation send))) # ys\<rparr>)"
| step_dropped: "sends s = xs @ HasRead send text # ys \<Longrightarrow>
    afterRead parse contentOf primText send text (frame s) = SendDropped \<Longrightarrow>
    studio_step engine parse contentOf primText s (s\<lparr>sends := xs @ ys\<rparr>)"
| step_held: "sends s = xs @ HasRead send text # ys \<Longrightarrow>
    afterRead parse contentOf primText send text (frame s) = AlreadyHeld newest \<Longrightarrow>
    studio_step engine parse contentOf primText s (s\<lparr>sends := xs @ ys, frame := draftHeldAlready newest (frame s)\<rparr>)"
| step_stage: "sends s = xs @ HasRead send text # ys \<Longrightarrow>
    afterRead parse contentOf primText send text (frame s) = StageDraft content call \<Longrightarrow>
    studio_step engine parse contentOf primText s
      (s\<lparr>sends := xs @ Awaiting send content # ys, staged := (s_generation send, call) # staged s\<rparr>)"
| step_answer: "sends s = xs @ Awaiting send content # ys \<Longrightarrow>
    afterStage send content result (frame s) = (outcome, st) \<Longrightarrow>
    studio_step engine parse contentOf primText s
      (s\<lparr>sends := xs @ answered outcome send st @ ys, frame := st,
         notices := (if outcome = LostReported then s_generation send # notices s else notices s)\<rparr>)"
| step_update: "current input = currentContent parse contentOf s \<Longrightarrow>
    settleHostGraph input hasGraph confirmed (frame s) = (outcome, st) \<Longrightarrow> outcome \<noteq> Remount \<Longrightarrow>
    studio_step engine parse contentOf primText s (s\<lparr>frame := st\<rparr>)"
| step_remount: "current input = currentContent parse contentOf s \<Longrightarrow>
    settleHostGraph input hasGraph confirmed (frame s) = (Remount, st) \<Longrightarrow>
    remount engine unsent newRevision newVersion (incoming input) shown (rendered s) st = (told, st') \<Longrightarrow>
    studio_step engine parse contentOf primText s
      (s\<lparr>frame := st', wrote := False, notices := (if told then generation (onScreen s) # notices s else notices s)\<rparr>)"
| step_rendered: "\<not> disposed (frame s) \<Longrightarrow>
    (told, st) = (if dirty then reportLost (frame s) (rendered s) (Some shown) else (False, frame s)) \<Longrightarrow>
    studio_step engine parse contentOf primText s
      (s\<lparr>frame := st, rendered := generation (onScreen s), notices := (if told then rendered s # notices s else notices s)\<rparr>)"
| step_dispose: "studio_step engine parse contentOf primText s (s\<lparr>frame := (frame s)\<lparr>disposed := True\<rparr>\<rparr>)"

inductive_cases studio_stepE: "studio_step engine parse contentOf primText s s'"


section \<open>Project ids\<close>

lemma digit_char_eq: "m < 10 \<Longrightarrow> n < 10 \<Longrightarrow> digit_char m = digit_char n \<longleftrightarrow> m = n"
  unfolding digit_char_def by (subst nth_eq_iff_index_eq) auto

lemma show_nat_eq [simp]: "show_nat m = show_nat n \<longleftrightarrow> m = n"
proof (induction m arbitrary: n rule: show_nat.induct)
  case (1 m)
  have split: "show_nat k = (if k < 10 then [] else show_nat (k div 10)) @ [digit_char (k mod 10)]" for k
    by (subst show_nat.simps) auto
  show ?case
  proof (cases "m < 10 \<or> n < 10")
    case True
    then show ?thesis unfolding split [of m] split [of n]
      using show_nat_nonempty [symmetric] by (auto simp: digit_char_eq)
  next
    case False
    then have "show_nat m = show_nat n \<longleftrightarrow> m div 10 = n div 10 \<and> m mod 10 = n mod 10"
      unfolding split [of m] split [of n] using 1 by (auto simp: digit_char_eq)
    then show ?thesis by (metis div_mod_decomp)
  qed
qed

lemma mountProject_eq [simp]: "mountProject e g = mountProject e h \<longleftrightarrow> g = h"
  by (auto simp: mountProject_def)

section \<open>The invariant\<close>







lemma draftHeldAlready_simps [simp]:
  "lostReportedFor (draftHeldAlready newest st) = lostReportedFor st" "hostContent (draftHeldAlready newest st) = hostContent st"
  "disposed (draftHeldAlready newest st) = disposed st" "mount (draftHeldAlready newest st) = mount st"
  by (simp_all add: draftHeldAlready_def)



























lemma onScreen_simps [simp]:
  "onScreen (s\<lparr>puts := f\<rparr>) = onScreen s" "onScreen (s\<lparr>saves := ps\<rparr>) = onScreen s"
  "onScreen (s\<lparr>frame := st\<rparr>) = mount st"
  by (simp_all add: onScreen_def)

lemma recordWrite_mount [simp]: "mount (recordWrite project c st) = mount st" "disposed (recordWrite project c st) = disposed st"
    "lostReportedFor (recordWrite project c st) = lostReportedFor st" "hostContent (recordWrite project c st) = hostContent st"
  by (simp_all add: recordWrite_def)









section \<open>Properties\<close>





section \<open>An example\<close>





















end
