(* ===== verification/StudioHidden.thy ===== *)
theory StudioHidden
  imports Frameleaf_Prelude
begin

text \<open>
  Clips of hidden media (\<open>web/src/lib/frameleaf/studio/hidden-clips.ts\<close>): while the owner's session is locked, the clips
  of locked items are taken out of the project graph the editor gets, and put back into every graph it saves.
\<close>

section \<open>The graph\<close>

datatype graphStep = KeyStep string | IdStep string

record heldClip =
  held_path :: "graphStep list"
  held_entry :: json

definition MAX_DEPTH :: nat where
  "MAX_DEPTH = 64"

definition HOLD_PASSES :: nat where
  "HOLD_PASSES = 8"

fun isPlainObject :: "json \<Rightarrow> bool" where
  "isPlainObject (JObj _) = True"
| "isPlainObject _ = False"

fun idOf :: "json \<Rightarrow> string option" where
  "idOf (JObj kvs) = (case jget (JObj kvs) ''id'' of JStr i \<Rightarrow> Some i | _ \<Rightarrow> None)"
| "idOf _ = None"

fun inStrings :: "json \<Rightarrow> string set \<Rightarrow> bool" where
  "inStrings (JStr t) ids = (t \<in> ids)"
| "inStrings _ ids = False"

definition namesHiddenMedia :: "json \<Rightarrow> string set \<Rightarrow> bool" where
  "namesHiddenMedia entry hidden \<longleftrightarrow> inStrings (jget entry ''mediaId'') hidden \<or> inStrings (jget entry ''assetId'') hidden"

fun pointsAt :: "json \<Rightarrow> string set \<Rightarrow> bool" where
  "pointsAt (JObj kvs) ids =
     list_ex (\<lambda>(k, v). k \<noteq> ''id'' \<and>
        (inStrings v ids \<or> (case v of JArr xs \<Rightarrow> list_ex (\<lambda>x. inStrings x ids) xs | _ \<Rightarrow> False))) kvs"
| "pointsAt _ ids = False"

section \<open>Holding clips back\<close>

text \<open>The ids of the clips held so far, an empty id left out; a clip held earlier in a pass counts for what follows.\<close>

definition heldIds :: "heldClip list \<Rightarrow> string set" where
  "heldIds held = set (concat (map (\<lambda>h. case idOf (held_entry h) of None \<Rightarrow> [] | Some i \<Rightarrow> if i = [] then [] else [i]) held))"

definition shouldHold :: "string set \<Rightarrow> heldClip list \<Rightarrow> json \<Rightarrow> bool" where
  "shouldHold hidden held entry \<longleftrightarrow> namesHiddenMedia entry hidden \<or> pointsAt entry (heldIds held)"

fun stripNode :: "string set \<Rightarrow> nat \<Rightarrow> graphStep list \<Rightarrow> json \<Rightarrow> heldClip list \<Rightarrow> json \<times> heldClip list"
  and stripItems :: "string set \<Rightarrow> nat \<Rightarrow> graphStep list \<Rightarrow> json list \<Rightarrow> heldClip list \<Rightarrow> json list \<times> heldClip list"
  and stripFields :: "string set \<Rightarrow> nat \<Rightarrow> graphStep list \<Rightarrow> (string \<times> json) list \<Rightarrow> heldClip list \<Rightarrow> (string \<times> json) list \<times> heldClip list"
where
  "stripNode hidden depth path (JArr xs) held =
     (if depth > MAX_DEPTH then (JArr xs, held)
      else let (kept, held') = stripItems hidden depth path xs held in (JArr kept, held'))"
| "stripNode hidden depth path (JObj kvs) held =
     (if depth > MAX_DEPTH then (JObj kvs, held)
      else let (copy, held') = stripFields hidden depth path kvs held in (JObj copy, held'))"
| "stripNode hidden depth path node held = (node, held)"
| "stripItems hidden depth path [] held = ([], held)"
| "stripItems hidden depth path (item # items) held =
     (if isPlainObject item \<and> shouldHold hidden held item then
        stripItems hidden depth path items (held @ [\<lparr>held_path = path, held_entry = item\<rparr>])
      else let (next, held1) = (case idOf item of None \<Rightarrow> (item, held)
                                | Some i \<Rightarrow> stripNode hidden (Suc depth) (path @ [IdStep i]) item held);
               (kept, held2) = stripItems hidden depth path items held1
           in (next # kept, held2))"
| "stripFields hidden depth path [] held = ([], held)"
| "stripFields hidden depth path ((key, value) # others) held =
     (let (next, held1) = stripNode hidden (Suc depth) (path @ [KeyStep key]) value held;
          (copy, held2) = stripFields hidden depth path others held1
      in ((key, next) # copy, held2))"

fun holdPasses :: "string set \<Rightarrow> nat \<Rightarrow> json \<Rightarrow> heldClip list \<Rightarrow> json \<times> heldClip list" where
  "holdPasses hidden 0 current held = (current, held)"
| "holdPasses hidden (Suc passes) current held =
     (let (next, held') = stripNode hidden 0 [] current held
      in if length held' = length held then (next, held') else holdPasses hidden passes next held')"

fun isContainer :: "json \<Rightarrow> bool" where
  "isContainer (JArr _) = True"
| "isContainer (JObj _) = True"
| "isContainer _ = False"

definition holdBackHiddenClips :: "json \<Rightarrow> string list \<Rightarrow> json \<times> heldClip list" where
  "holdBackHiddenClips graph hiddenSources =
     (if hiddenSources = [] \<or> \<not> isContainer graph then (graph, [])
      else holdPasses (set hiddenSources) HOLD_PASSES graph [])"

section \<open>Putting them back\<close>

fun stepInto :: "json \<Rightarrow> graphStep \<Rightarrow> json option" where
  "stepInto (JObj kvs) (KeyStep k) = map_of kvs k"
| "stepInto (JArr xs) (IdStep i) = find_first (\<lambda>x. idOf x = Some i) xs"
| "stepInto _ _ = None"

fun arrayAt :: "json \<Rightarrow> graphStep list \<Rightarrow> json list option" where
  "arrayAt (JArr xs) [] = Some xs"
| "arrayAt node [] = None"
| "arrayAt node (step # path) = (case stepInto node step of None \<Rightarrow> None | Some next \<Rightarrow> arrayAt next path)"

text \<open>\<open>array.push(entry)\<close> on the array a path names: the first field or element on the way that matches.\<close>

fun updateFirst :: "('a \<Rightarrow> bool) \<Rightarrow> ('a \<Rightarrow> 'a) \<Rightarrow> 'a list \<Rightarrow> 'a list" where
  "updateFirst P f [] = []"
| "updateFirst P f (x # xs) = (if P x then f x # xs else x # updateFirst P f xs)"

fun pushAt :: "json \<Rightarrow> graphStep list \<Rightarrow> json \<Rightarrow> json" where
  "pushAt (JArr xs) [] entry = JArr (xs @ [entry])"
| "pushAt node [] entry = node"
| "pushAt (JObj kvs) (KeyStep k # path) entry =
     JObj (updateFirst (\<lambda>(k', _). k' = k) (\<lambda>(k', v). (k', pushAt v path entry)) kvs)"
| "pushAt (JArr xs) (IdStep i # path) entry = JArr (updateFirst (\<lambda>x. idOf x = Some i) (\<lambda>x. pushAt x path entry) xs)"
| "pushAt node path entry = node"

definition putBack :: "json \<Rightarrow> heldClip \<Rightarrow> json" where
  "putBack copy h =
     (case arrayAt copy (held_path h) of
        None \<Rightarrow> copy
      | Some array \<Rightarrow>
          if idOf (held_entry h) \<noteq> None \<and> list_ex (\<lambda>item. idOf item = idOf (held_entry h)) array then copy
          else pushAt copy (held_path h) (held_entry h))"

definition withHeldClips :: "json \<Rightarrow> heldClip list \<Rightarrow> json" where
  "withHeldClips graph held = (if held = [] \<or> \<not> isContainer graph then graph else foldl putBack graph held)"

section \<open>What the editor is shown\<close>


definition stringIn :: "json \<Rightarrow> string option" where
  "stringIn v = (case v of JStr t \<Rightarrow> Some t | _ \<Rightarrow> None)"

definition itemTexts :: "json list \<Rightarrow> string set" where
  "itemTexts xs = {t. \<exists>x \<in> set xs. stringIn x = Some t}"

definition stringsIn :: "json \<Rightarrow> string set" where
  "stringsIn v = (case v of JArr xs \<Rightarrow> itemTexts xs | _ \<Rightarrow> {})"

lemma stringIn_simps [simp]:
  "stringIn (JArr xs) = None" "stringIn (JObj kvs) = None" "stringIn (JStr t) = Some t"
  "stringsIn (JArr xs) = itemTexts xs" "stringsIn (JObj kvs) = {}" "stringsIn (JStr t) = {}"
  by (simp_all add: stringIn_def stringsIn_def)

lemma itemTexts_simps [simp]:
  "itemTexts [] = {}" "itemTexts (x # xs) = (case stringIn x of None \<Rightarrow> {} | Some t \<Rightarrow> {t}) \<union> itemTexts xs"
  by (auto simp: itemTexts_def split: option.splits)

definition sameTexts :: "json \<Rightarrow> json \<Rightarrow> bool" where
  "sameTexts v v' \<longleftrightarrow> stringIn v' = stringIn v \<and> stringsIn v' = stringsIn v"

lemma sameTexts_refl [simp]: "sameTexts v v"
  by (simp add: sameTexts_def)







lemma idOf_text: "idOf (JObj kvs) = stringIn (jget (JObj kvs) ''id'')"
  by (simp add: stringIn_def split: json.splits)



lemma heldIds_append [simp]: "heldIds (held @ extra) = heldIds held \<union> heldIds extra"
  by (simp add: heldIds_def)




section \<open>Why a clip is held\<close>

















section \<open>Held clips come back\<close>

text \<open>What later entries may do to an array: elements with an id may change inside, and elements are added at its end.\<close>

definition keptItems :: "json list \<Rightarrow> json list \<Rightarrow> bool" where
  "keptItems xs xs' \<longleftrightarrow> take (length xs) (map idOf xs') = map idOf xs \<and> list_all (\<lambda>x. idOf x = None \<longrightarrow> x \<in> set xs') xs"

lemma keptItems_refl [simp]: "keptItems xs xs" "keptItems xs (xs @ ys)"
  by (simp_all add: keptItems_def list_all_iff)



lemma map_of_updateFirst:
  "map_of (updateFirst (\<lambda>(k', _). k' = k) (\<lambda>(k', v). (k', f v)) kvs) k' =
     (if k' = k then map_option f (map_of kvs k) else map_of kvs k')"
  by (induction kvs) auto




lemma pushAt_text [simp]: "stringIn (pushAt v path entry) = stringIn v"
  by (induction v path entry rule: pushAt.induct) auto

lemma pushAt_id [simp]: "idOf (pushAt v path entry) = idOf v"
proof (induction v path entry rule: pushAt.induct)
  case (3 kvs k path entry)
  show ?case unfolding pushAt.simps idOf_text by (cases "map_of kvs ''id''") (auto simp: map_of_updateFirst)
qed auto











section \<open>Examples\<close>

definition hiddenClip :: json where
  "hiddenClip = JObj [(''id'', JStr ''a''), (''mediaId'', JStr ''m'')]"



definition exampleGraph :: "json list \<Rightarrow> json" where
  "exampleGraph items = JObj [(''timeline'', JObj [(''items'', JArr items)])]"






text \<open>
  A clip held inside an element that a later pass holds too is not in the graph that is saved, although nothing was
  edited: its element is put back without it, after its own path was looked for.
\<close>

definition pointingGroup :: "json list \<Rightarrow> json" where
  "pointingGroup members = JObj [(''id'', JStr ''g''), (''items'', JArr members), (''memberIds'', JArr [JStr ''a''])]"

lemma nested_held_clip_lost:
  "case holdBackHiddenClips (exampleGraph [pointingGroup [hiddenClip]]) [''m''] of
     (shown, held) \<Rightarrow> withHeldClips shown held = exampleGraph [pointingGroup []]"
  by code_simp

text \<open>The walk does not look into an array element without an id, so a clip inside one stays on show.\<close>

lemma clip_without_owner_shown:
  "holdBackHiddenClips (exampleGraph [JObj [(''items'', JArr [hiddenClip])]]) [''m''] =
     (exampleGraph [JObj [(''items'', JArr [hiddenClip])]], [])"
  by code_simp

end
