(* ===== verification/Spec2Isabelle.thy ===== *)
theory Spec2Isabelle
  imports VideoTiming MediaOperation BulkOperation RenderAdmission SecretAttempts JobQueue LockedKeys
    CloudVerify JobLatest StudioEditor StudioHidden
begin

text \<open>
  Frameleaf: a verification development of the server's decision logic.

  Frameleaf is a self-hosted photo and video library. Its server (\<open>src/server\<close>, TypeScript) keeps the
  rules that decide what may be done, by whom and in which order in modules of plain functions, called
  from services that talk to the database, the file system, render workers and the network. The encrypted
  files of the Locked area are written and read by a package of their own (\<open>src/packages/locked-crypto\<close>).
  This development models those modules and proves what the services rely on.

  \<^bold>\<open>The parts and their theories\<close>

  \<^item> \<open>Frameleaf_Prelude\<close>: results as sums (\<open>bindR\<close>, \<open>traverseR\<close>), safe integers, JSON values, text and the
    shared list lemmas; the locales \<open>codec\<close> (an encoder with an inverse) and \<open>absorbing_graph\<close> (a
    transition table with terminal states), interpreted in the theories that provide them.
  \<^item> \<open>RationalTime\<close> models \<open>server/src/utils/rational-time.ts\<close>: exact fractions of safe integers, with an
    overflow error where a value leaves that range. Shown: every operation that returns is exact over the
    rationals and returns a reduced fraction, rounding is as named, ticks and seconds, text and wire forms
    round-trip, decimal expansions are correctly rounded.
  \<^item> \<open>VideoTiming\<close> models \<open>video-timing.ts\<close> over it: the timing map of a source and the choice of an output
    cadence. Shown: a map that is built is usable, source times round-trip, a cadence is never changed
    without saying so.
  \<^item> \<open>MediaOperation\<close> models \<open>media-operation.ts\<close>: the state machine of a media operation, its controls,
    and which rendered chunks a resumed render may keep. Shown: terminal states absorb, and no chunk is
    kept that does not match its plan in every digest.
  \<^item> \<open>MimeTypes\<close> and \<open>DuplicateReview\<close> model \<open>mime-types.ts\<close>, \<open>duplicate.ts\<close> and \<open>duplicate-review.ts\<close>. Shown:
    an accepted decision never trashes every copy, batches end on group boundaries, the suggested keeper
    does not depend on the order of the group.
  \<^item> \<open>Access\<close> models \<open>access.ts\<close> and \<open>hidden-content.ts\<close> over a repository given as a record of functions.
    Shown: access is granted exactly when every id is, a session that is not elevated reaches no locked
    asset, a shared link stays within its contents, privacy filters are never loosened.
  \<^item> \<open>BulkOperation\<close> models \<open>bulk-operation.ts\<close> and the two passes of \<open>BulkOperationService.run\<close> as a step
    relation over the stored row, with a crash possible between any two writes. Shown: counts are exact,
    a resume names exactly the unanswered items, nothing is tried more than twice, the origin of a date
    shift is never overwritten, a job always finishes, a payload that is accepted agrees with its ids.
  \<^item> \<open>RenderAdmission\<close> models \<open>render-admission.ts\<close> and \<open>studio-export-formats.ts\<close>. Shown: a claim is admitted
    exactly when an independent list of conditions holds, an export that is offered is not refused for
    want of codec or memory, combined limits are the tightest ones, a signed input grant opens one input of
    one operation for one claim and session until it expires.
  \<^item> \<open>SecretAttempts\<close> models \<open>secret-attempts.ts\<close> as a step relation over interleaved calls. Shown: checks of
    one account are serial and in order, guesses are limited to nine in 34 minutes after the first ten, and
    a lockout never exceeds an hour.
  \<^item> \<open>JobQueue\<close> models the execution control of \<open>server/src/queue\<close>: \<open>admission.ts\<close>, \<open>coalesced-task.ts\<close>,
    \<open>watchdog.ts\<close>, \<open>dependency.ts\<close>. Shown: slots are neither leaked nor duplicated, no waiter starves, an
    overdue job is cancelled and then its worker stopped, no requested visit is lost.
  \<^item> \<open>LockedFormat\<close>, \<open>RecoveryKey\<close> and \<open>LockedKeys\<close> model \<open>locked-crypto/src/format.ts\<close>, \<open>recovery.ts\<close> and
    \<open>keys.ts\<close>. Shown: a recipient reads back the source, whole or by range; what decrypts without an error
    is exactly a sealed file; rewrapping keeps the segments; recovery keys and their text determine each
    other; a wrap opens with its secret and pepper and leaves the others alone; a key file keeps its key.
  \<^item> \<open>BackupDates\<close>, \<open>CloudRetention\<close>, \<open>CloudPrune\<close> and \<open>CloudVerify\<close> model the upkeep of the cloud backup:
    the dates in manifest names, \<open>cloud-backup-retention.ts\<close>, and \<open>prune\<close> and \<open>verify\<close> of
    \<open>services/cloud-backup-maintenance.ts\<close> with the queries of the backup index they run. Each run is a list of
    effects on the bucket and the index, and an interruption is a prefix of that list. The orderings the code
    sorts by are interpretations of the locale \<open>comparison\<close>. Shown: the plan keeps exactly the manifests of
    the newest days, weeks and months and their dumps; a clean-up removes exactly what may go; stopped
    anywhere, it leaves every backup it offers restorable, the newest and the trusted head among them, and
    no index row that promises an object that is gone; a verification reports what it finds, and one that is
    resumed counts as one that was never stopped.
  \<^item> \<open>JobStore\<close>, \<open>JobFailure\<close>, \<open>JobClaims\<close>, \<open>JobSteps\<close>, \<open>JobLimits\<close> and \<open>JobLatest\<close> model the persistent store of
    jobs, \<open>server/src/queue/store.ts\<close> over the tables of \<open>schema.ts\<close>: a table is a list of rows with its unique
    indexes and check as a function of the list, a statement updates the rows its condition selects, a
    transaction is a function that returns the new store or, rolled back, an error. \<open>JobStore\<close> holds enqueueing,
    runs, claims and completion, \<open>JobFailure\<close> failures, dependents, recovery, cancellation, retries and the
    reset after a restore, \<open>JobClaims\<close> the invariant of the tables, \<open>JobSteps\<close> the interleaving of
    transactions, in which rows other transactions hold are skipped and rows outside the store's statements
    may change. Shown: each claim is settled at most once and only by its token, a job has one open attempt
    exactly while it is active, a claim stays within its limits, a failure blocks exactly the dependents that
    wait, a later request is taken up when the running job completes, a restore runs again only work that may
    be repeated, and the one request that an index refuses.
  \<^item> \<open>StudioDrafts\<close> and \<open>StudioEditor\<close> model the synchronisation of the video editor with its host:
    \<open>draft-sync.ts\<close> of \<open>studio/adapters/web/src\<close>, and as a step relation the saves, drafts in flight, contexts
    and remounts of \<open>editor-frame.tsx\<close> in any order. Shown: a draft holds what the instance on screen wrote, an
    edit that is not marked as waiting is the host's, no edit the host lacks is replaced without the person
    being told, a waiting edit can reach the host. \<open>StudioHidden\<close> models \<open>hidden-clips.ts\<close> of
    \<open>web/src/lib/frameleaf/studio\<close>. Shown: a locked session is shown no clip of hidden media, and what is held
    back returns on saving.

  \<^bold>\<open>How code becomes definitions\<close>

  A type or interface is a record or datatype with the source's fields and cases; a function is a function
  of the same name (suffixed where HOL has the name already); a throw is \<open>Inl\<close> of an error value; a loop is
  a recursive function, structural or with a measure; code with awaits is cut at its awaits into atomic
  pieces, and the pieces of concurrent calls interleave in an inductive step relation. JavaScript numbers
  that hold integers are \<open>int\<close> or \<open>nat\<close>, with \<open>isSafeInteger\<close> where the code checks it; numbers read from
  JSON are rationals; the bit buffers of the recovery key are 32-bit words; file bytes are 8-bit words.

  \<^bold>\<open>What is a parameter\<close>

  The database is a record of functions (\<open>Access\<close>). Node's cryptography, base64, UTF-8, Unicode
  normalisation and JSON text are records of functions (\<open>grantCodecs\<close>, \<open>lockedCrypto\<close>, \<open>keyCrypto\<close>); what is
  relied on is stated by name: \<open>aead_ok\<close> (AES-GCM opens exactly what it sealed, with a 16-byte tag),
  \<open>x25519_ok\<close> (both sides agree on the secret; lengths), \<open>json_ok\<close>, \<open>codecs_ok\<close>, and \<open>hmac_separates\<close> (no HMAC
  collision among the four inputs of one comparison). Every theorem with such a hypothesis has a witness
  that instantiates the parameter. Reads of the cloud storage (\<open>fetch\<close>, \<open>headObject\<close>, \<open>hashStored\<close>) and the text
  of a number (\<open>numText\<close>) are arguments of the backup definitions. Of the job store, the ids and tokens
  Postgres generates, the rows locked by other transactions, the key of a request's own item (\<open>ownKey\<close>), the
  text Postgres gives a value (\<open>pgText\<close>), and what a caller publishes, records or settles in the same transaction
  (functions on \<open>domain\<close>) are arguments. JSON text is read and written by arguments of the Studio definitions
  (\<open>parse\<close>, \<open>contentOf\<close>, \<open>primText\<close>). Random bytes and the time of day are arguments.

  \<^bold>\<open>Bounds\<close>

  No fuel is used: every function is total by structural recursion or a measure. Lists stand for arrays and
  files of any length; a locked file's length is bounded by the largest safe integer, as the code requires.

  \<^bold>\<open>Not modelled\<close>

  Floating-point results that are only shown (progress percentages, \<open>toApproximateNumber\<close>); SQL, HTTP,
  file-system effects and timers of the services and repositories (of the cloud backup the heartbeat and the
  log lines, the runs that write it and the restore that reads it); the web, mobile and command-line
  clients but for these Studio modules; the machine-learning service; generated API clients and build
  tooling; the commands on Studio's graph, its rendering adapters and GPU code. Of the modelled modules the notes of the manifest name what is left out; of the
  job store, notifications, the reports and summaries of runs, holds and their reconciliation, the pages of a
  selection and the deletion of old jobs, which decide nothing about who runs a claimed job. Strings are
  sequences of code units below 256. The rules of library imports and the schedules of the overnight and
  machine-learning work live inside services between database calls and are left out with them.
\<close>

end
